(* ===== verification/Rust_Prelude.thy ===== *)
theory Rust_Prelude
  imports
    "HOL-Library.Word"
    "HOL-Library.Char_ord"
    "HOL-Library.List_Lexorder"
    "HOL-Library.Product_Lexorder"
    "HOL-Library.Sublist"
begin

text \<open>
  The vocabulary the components share. A Rust \<open>str\<close> is the list of its UTF-8 bytes (HOL's
  \<^typ>\<open>char\<close> is a byte), so slicing, searching and splitting at an ASCII separator are byte
  operations as they are in Rust; only white-space trimming looks at multi-byte characters.
  \<open>u64\<close> is a 64-bit word (arithmetic wraps, as in the release profile), \<open>i64\<close> is an
  integer, with the wrap-around written out where the code casts or adds.
\<close>

section \<open>Machine integers\<close>

type_synonym u8 = "8 word"
type_synonym u64 = "64 word"
type_synonym i64 = int
type_synonym path = string

named_theorems rust_str \<open>rules on the string operations of the standard library\<close>
named_theorems tbl_simps \<open>rules on keyed tables\<close>

text \<open>\<open>x as i64\<close> for an unsigned \<open>x\<close>, \<open>x as u64\<close> for a signed one, and the wrap-around
  of \<open>i64\<close> arithmetic.\<close>

definition u64_as_i64 :: "u64 \<Rightarrow> i64" where
  "u64_as_i64 x = sint x"

definition i64_as_u64 :: "i64 \<Rightarrow> u64" where
  "i64_as_u64 x = word_of_int x"

definition i64_add :: "i64 \<Rightarrow> i64 \<Rightarrow> i64" where
  "i64_add a b = sint (word_of_int (a + b) :: u64)"

definition i64_sub :: "i64 \<Rightarrow> i64 \<Rightarrow> i64" where
  "i64_sub a b = sint (word_of_int (a - b) :: u64)"

definition saturating_mul :: "u64 \<Rightarrow> u64 \<Rightarrow> u64" where
  "saturating_mul a b = (if unat a * unat b < 2 ^ 64 then a * b else 18446744073709551615)"

definition saturating_sub :: "u64 \<Rightarrow> u64 \<Rightarrow> u64" where
  "saturating_sub a b = (if a < b then 0 else a - b)"

text \<open>The range of \<open>i64\<close>.\<close>

definition is_i64 :: "int \<Rightarrow> bool" where
  "is_i64 x \<longleftrightarrow> - (2 ^ 63) \<le> x \<and> x < 2 ^ 63"

lemma as_u64_as_i64 [simp]: "i64_as_u64 (u64_as_i64 x) = x"
  by (simp add: i64_as_u64_def u64_as_i64_def)

lemma sint_of_i64: "is_i64 x \<Longrightarrow> sint (word_of_int x :: u64) = x"
  by (simp add: is_i64_def sint_sbintrunc' signed_take_bit_int_eq_self)

lemma as_i64_as_u64: "is_i64 x \<Longrightarrow> u64_as_i64 (i64_as_u64 x) = x"
  by (simp add: i64_as_u64_def u64_as_i64_def sint_of_i64)

lemma is_i64_as_i64 [simp]: "is_i64 (u64_as_i64 x)"
  using sint_greater_eq [of x] sint_less [of x] by (simp add: is_i64_def u64_as_i64_def)

lemma i64_add_exact: "is_i64 (a + b) \<Longrightarrow> i64_add a b = a + b"
  unfolding i64_add_def by (rule sint_of_i64)

lemma i64_sub_exact: "is_i64 (a - b) \<Longrightarrow> i64_sub a b = a - b"
  unfolding i64_sub_def by (rule sint_of_i64)

lemma u64_as_i64_small: "unat x < 2 ^ 63 \<Longrightarrow> u64_as_i64 x = int (unat x)"
proof -
  assume "unat x < 2 ^ 63"
  then have "int (unat x) < int (2 ^ 63)" by (simp only: of_nat_less_iff)
  then have u: "uint x < 2 ^ 63" by simp
  have "sint x = signed_take_bit 63 (uint x)" by (subst sint_uint) simp
  also have "\<dots> = uint x"
    using u by (intro signed_take_bit_int_eq_self order_trans [OF _ uint_ge_0]) simp_all
  finally show ?thesis by (simp add: u64_as_i64_def)
qed

lemma unat_less_2p64: "unat (x :: u64) < 2 ^ 64"
  using unsigned_less [of x, where ?'a = nat] by simp

lemma unat_of_nat_u64: "n < 2 ^ 64 \<Longrightarrow> unat (of_nat n :: u64) = n"
  by (simp add: unat_of_nat)

lemma unat_saturating_mul: "unat (saturating_mul a b) = min (unat a * unat b) (2 ^ 64 - 1)"
proof (cases "unat a * unat b < 2 ^ 64")
  case True
  then have "unat (a * b) = unat a * unat b"
    by (simp add: unat_mult_lem [THEN iffD1])
  with True show ?thesis by (simp add: saturating_mul_def)
next
  case False
  then show ?thesis by (simp add: saturating_mul_def)
qed

lemma unat_saturating_sub: "unat (saturating_sub a b) = unat a - unat b"
  by (simp add: saturating_sub_def word_less_nat_alt unat_sub_if_size)

section \<open>Strings\<close>

subsection \<open>Prefixes, search, splitting\<close>

definition starts_with :: "string \<Rightarrow> string \<Rightarrow> bool" where
  "starts_with s p \<longleftrightarrow> take (length p) s = p"

definition strip_prefix :: "string \<Rightarrow> string \<Rightarrow> string option" where
  "strip_prefix s p = (if starts_with s p then Some (drop (length p) s) else None)"

definition ends_with :: "string \<Rightarrow> string \<Rightarrow> bool" where
  "ends_with s p \<longleftrightarrow> starts_with (rev s) (rev p)"

definition strip_suffix :: "string \<Rightarrow> string \<Rightarrow> string option" where
  "strip_suffix s p = (if ends_with s p then Some (take (length s - length p) s) else None)"

text \<open>\<open>str::find\<close>: the byte offset of the first occurrence.\<close>

fun find_sub :: "string \<Rightarrow> string \<Rightarrow> nat option" where
  "find_sub p [] = (if p = [] then Some 0 else None)"
| "find_sub p (c # cs) =
     (if starts_with (c # cs) p then Some 0 else map_option Suc (find_sub p cs))"

definition contains :: "string \<Rightarrow> string \<Rightarrow> bool" where
  "contains s p \<longleftrightarrow> find_sub p s \<noteq> None"

text \<open>\<open>str::split\<close> at one ASCII character, and \<open>[String]::join\<close>.\<close>

fun split_on :: "char \<Rightarrow> string \<Rightarrow> string list" where
  "split_on sep [] = [[]]"
| "split_on sep (c # cs) =
     (if c = sep then [] # split_on sep cs
      else (case split_on sep cs of [] \<Rightarrow> [[c]] | w # ws \<Rightarrow> (c # w) # ws))"

fun join_with :: "string \<Rightarrow> string list \<Rightarrow> string" where
  "join_with sep [] = []"
| "join_with sep [x] = x"
| "join_with sep (x # y # xs) = x @ sep @ join_with sep (y # xs)"

lemma starts_with_iff: "starts_with s p \<longleftrightarrow> (\<exists>t. s = p @ t)"
  unfolding starts_with_def by (metis append_eq_conv_conj append_take_drop_id)

lemma starts_with_append [simp]: "starts_with (p @ t) p"
  by (simp add: starts_with_def)

lemma starts_with_Nil [simp]: "starts_with s []"
  by (simp add: starts_with_def)

lemma starts_with_Cons [simp]:
  "starts_with (c # cs) (d # ds) \<longleftrightarrow> c = d \<and> starts_with cs ds"
  by (simp add: starts_with_def)

lemma starts_with_Nil_Cons [simp]: "\<not> starts_with [] (d # ds)"
  by (simp add: starts_with_def)

lemma starts_with_nth: "starts_with s p \<Longrightarrow> j < length p \<Longrightarrow> s ! j = p ! j"
  by (auto simp: starts_with_iff nth_append)

lemma strip_prefix_Some: "strip_prefix s p = Some t \<longleftrightarrow> s = p @ t"
  by (auto simp: strip_prefix_def starts_with_def) (metis append_take_drop_id)

lemma strip_prefix_append [simp]: "strip_prefix (p @ t) p = Some t"
  by (simp add: strip_prefix_Some)

lemma strip_suffix_Some: "strip_suffix s p = Some t \<longleftrightarrow> s = t @ p"
proof
  assume "strip_suffix s p = Some t"
  then have e: "starts_with (rev s) (rev p)" and t: "t = take (length s - length p) s"
    by (auto simp: strip_suffix_def ends_with_def split: if_splits)
  from e obtain u where "rev s = rev p @ u" by (auto simp: starts_with_iff)
  then have "s = rev u @ p" by (metis rev_append rev_rev_ident)
  with t show "s = t @ p" by simp
next
  assume "s = t @ p"
  then show "strip_suffix s p = Some t" by (simp add: strip_suffix_def ends_with_def)
qed

lemma find_sub_Some:
  "find_sub p s = Some i \<Longrightarrow> s = take i s @ p @ drop (i + length p) s \<and> i + length p \<le> length s"
proof (induction s arbitrary: i)
  case Nil
  then show ?case by (simp split: if_splits)
next
  case (Cons c cs)
  show ?case
  proof (cases "starts_with (c # cs) p")
    case True
    with Cons.prems have "i = 0" by simp
    moreover from True obtain t where "c # cs = p @ t" by (auto simp: starts_with_iff)
    moreover from this have "length p \<le> length (c # cs)" by simp
    ultimately show ?thesis by simp
  next
    case False
    with Cons.prems obtain j where j: "find_sub p cs = Some j" "i = Suc j" by auto
    from Cons.IH [OF j(1)] j(2) show ?thesis by simp
  qed
qed

lemma find_sub_None_iff: "find_sub p s = None \<longleftrightarrow> \<not> sublist p s"
proof (induction s)
  case Nil
  then show ?case by simp
next
  case (Cons c cs)
  have "starts_with (c # cs) p = prefix p (c # cs)"
    by (auto simp: starts_with_iff prefix_def)
  with Cons show ?case by (auto simp: sublist_Cons_right)
qed

lemma contains_iff_sublist: "contains s p \<longleftrightarrow> sublist p s"
  using find_sub_None_iff [of p s] by (auto simp: contains_def)

lemma contains_append [simp]: "contains (a @ p @ b) p"
  by (simp add: contains_iff_sublist)

lemma contains_mono: "contains s p \<Longrightarrow> contains (a @ s @ b) p"
  by (meson contains_iff_sublist sublist_appendI sublist_order.order_trans)

text \<open>The first occurrence of \<open>p\<close> in \<open>a @ p @ b\<close> is the written one when no earlier
  one overlaps it: \<open>p\<close> does not start at any offset below \<open>length a\<close>.\<close>

lemma find_sub_here:
  assumes "\<And>i. i < length a \<Longrightarrow> \<not> starts_with (drop i a @ p @ b) p"
  shows "find_sub p (a @ p @ b) = Some (length a)"
  using assms
proof (induction a)
  case Nil
  have "starts_with (p @ b) p" by simp
  then show ?case by (cases "p @ b") auto
next
  case (Cons c a)
  have "\<not> starts_with (c # a @ p @ b) p"
    using Cons.prems [of 0] by simp
  moreover have "find_sub p (a @ p @ b) = Some (length a)"
    by (rule Cons.IH) (use Cons.prems [of "Suc _"] in auto)
  ultimately show ?case by simp
qed

lemma find_sub_absent_head:
  assumes "p \<noteq> []" and "hd p \<notin> set a"
  shows "find_sub p (a @ p @ b) = Some (length a)"
proof (rule find_sub_here)
  fix i
  assume "i < length a"
  then have "drop i a @ p @ b = a ! i # drop (Suc i) a @ p @ b" and "a ! i \<noteq> hd p"
    using assms(2) by (auto simp: Cons_nth_drop_Suc in_set_conv_nth)
  with assms(1) show "\<not> starts_with (drop i a @ p @ b) p"
    by (cases p) auto
qed

lemma find_sub_skip:
  "p \<noteq> [] \<Longrightarrow> hd p \<notin> set a \<Longrightarrow>
   find_sub p (a @ s) = map_option (\<lambda>i. length a + i) (find_sub p s)"
proof (induction a)
  case Nil
  then show ?case by (simp add: option.map_ident)
next
  case (Cons c a)
  then have "\<not> starts_with (c # a @ s) p" by (cases p) auto
  with Cons show ?case by (simp add: option.map_comp comp_def)
qed

text \<open>The first occurrence after a field \<open>x\<close> of arbitrary text: none is inside \<open>x\<close>, and none
  can straddle the end of \<open>x\<close> because no proper suffix of \<open>p\<close> is a prefix of what follows.\<close>

lemma find_sub_after_field:
  assumes "p \<noteq> []" and "\<not> contains x p"
    and straddle: "list_all (\<lambda>k. \<not> starts_with s (drop k p)) [1..<length p]"
  shows "find_sub p (x @ s) = map_option (\<lambda>i. length x + i) (find_sub p s)"
  using assms(2)
proof (induction x)
  case Nil
  then show ?case by (simp add: option.map_ident)
next
  case (Cons c x)
  have "\<not> starts_with (c # x @ s) p"
  proof
    assume sw: "starts_with (c # x @ s) p"
    show False
    proof (cases "length p \<le> length (c # x)")
      case True
      then have "take (length p) ((c # x) @ s) = take (length p) (c # x)"
        by (subst take_append) simp
      with sw have "starts_with (c # x) p" by (simp only: starts_with_def append_Cons)
      with Cons.prems show False
        by (auto simp: starts_with_iff contains_iff_sublist)
    next
      case False
      let ?k = "length (c # x)"
      from sw obtain t where t: "(c # x) @ s = p @ t" by (auto simp: starts_with_iff)
      then have "s = drop ?k p @ t" using False by (metis append_eq_append_conv_if
          drop_append append_eq_conv_conj drop_eq_Nil2 nat_le_linear append.right_neutral diff_is_0_eq drop0)
      then have "starts_with s (drop ?k p)" by simp
      moreover have "?k \<in> set [1..<length p]" using False by simp
      ultimately show False using straddle by (auto simp: list_all_iff simp del: set_upt)
    qed
  qed
  moreover have "\<not> contains x p"
    using Cons.prems contains_mono [of x p "[c]" "[]"] by auto
  ultimately show ?case using Cons.IH by (simp add: option.map_comp comp_def)
qed

lemma split_on_nonempty [simp]: "split_on sep s \<noteq> []"
  by (induction s) (auto split: list.splits)

lemma split_on_no_sep: "sep \<notin> set s \<Longrightarrow> split_on sep s = [s]"
  by (induction s) auto

lemma split_on_append:
  "sep \<notin> set w \<Longrightarrow> split_on sep (w @ sep # s) = w # split_on sep s"
  by (induction w) auto

lemma split_on_pieces: "w \<in> set (split_on sep s) \<Longrightarrow> sep \<notin> set w"
  by (induction s arbitrary: w) (auto split: list.splits if_splits)

lemma split_on_join:
  assumes "\<And>x. x \<in> set xs \<Longrightarrow> sep \<notin> set x" and "xs \<noteq> []"
  shows "split_on sep (join_with [sep] xs) = xs"
  using assms
  by (induction "[sep]" xs rule: join_with.induct) (auto simp: split_on_append split_on_no_sep)

subsection \<open>White space\<close>

text \<open>The characters with the Unicode property \<open>White_Space\<close>, as \<open>char::is_whitespace\<close> has
  them, by their UTF-8 encodings: U+0009 to U+000D, U+0020, U+0085, U+00A0, U+1680, U+2000 to
  U+200A, U+2028, U+2029, U+202F, U+205F and U+3000.\<close>

definition ws_encodings :: "string list" where
  "ws_encodings =
     [[CHR 0x09], [CHR 0x0A], [CHR 0x0B], [CHR 0x0C], [CHR 0x0D], [CHR 0x20],
      [CHR 0xC2, CHR 0x85], [CHR 0xC2, CHR 0xA0], [CHR 0xE1, CHR 0x9A, CHR 0x80],
      [CHR 0xE2, CHR 0x80, CHR 0x80], [CHR 0xE2, CHR 0x80, CHR 0x81],
      [CHR 0xE2, CHR 0x80, CHR 0x82], [CHR 0xE2, CHR 0x80, CHR 0x83],
      [CHR 0xE2, CHR 0x80, CHR 0x84], [CHR 0xE2, CHR 0x80, CHR 0x85],
      [CHR 0xE2, CHR 0x80, CHR 0x86], [CHR 0xE2, CHR 0x80, CHR 0x87],
      [CHR 0xE2, CHR 0x80, CHR 0x88], [CHR 0xE2, CHR 0x80, CHR 0x89],
      [CHR 0xE2, CHR 0x80, CHR 0x8A], [CHR 0xE2, CHR 0x80, CHR 0xA8],
      [CHR 0xE2, CHR 0x80, CHR 0xA9], [CHR 0xE2, CHR 0x80, CHR 0xAF],
      [CHR 0xE2, CHR 0x81, CHR 0x9F], [CHR 0xE3, CHR 0x80, CHR 0x80]]"

text \<open>Strip one encoding from the front, or nothing; then as long as one is there.\<close>

fun strip_any :: "string list \<Rightarrow> string \<Rightarrow> string option" where
  "strip_any [] s = None"
| "strip_any (e # es) s =
     (if e \<noteq> [] \<and> starts_with s e then Some (drop (length e) s) else strip_any es s)"

lemma strip_any_shorter: "strip_any es s = Some r \<Longrightarrow> length r < length s"
  by (induction es) (auto simp: starts_with_iff split: if_splits)

function trim_front :: "string list \<Rightarrow> string \<Rightarrow> string" where
  "trim_front es s = (case strip_any es s of None \<Rightarrow> s | Some r \<Rightarrow> trim_front es r)"
  by pat_completeness auto
termination
  by (relation "measure (\<lambda>(es, s). length s)") (auto dest: strip_any_shorter)

declare trim_front.simps [simp del]

definition trim_start :: "string \<Rightarrow> string" where
  "trim_start s = trim_front ws_encodings s"

definition trim_end :: "string \<Rightarrow> string" where
  "trim_end s = rev (trim_front (map rev ws_encodings) (rev s))"

definition trim :: "string \<Rightarrow> string" where
  "trim s = trim_end (trim_start s)"

lemma strip_any_suffix: "strip_any es s = Some r \<Longrightarrow> suffix r s"
  by (induction es) (auto simp: suffix_drop split: if_splits)

lemma trim_front_suffix: "suffix (trim_front es s) s"
proof (induction es s rule: trim_front.induct)
  case (1 es s)
  then show ?case
    by (subst trim_front.simps)
      (auto split: option.split dest: strip_any_suffix intro: suffix_order.order_trans)
qed

lemma strip_any_trim_front: "strip_any es (trim_front es s) = None"
proof (induction es s rule: trim_front.induct)
  case (1 es s)
  then show ?case by (subst trim_front.simps) (auto split: option.split)
qed

lemma trim_front_id: "strip_any es s = None \<Longrightarrow> trim_front es s = s"
  by (simp add: trim_front.simps)

lemma trim_front_idem [simp]: "trim_front es (trim_front es s) = trim_front es s"
  by (rule trim_front_id) (rule strip_any_trim_front)

lemma strip_any_None_iff:
  "strip_any es s = None \<longleftrightarrow> (\<forall>e \<in> set es. e \<noteq> [] \<longrightarrow> \<not> starts_with s e)"
  by (induction es) auto

lemma strip_any_None_prefix: "strip_any es s = None \<Longrightarrow> prefix t s \<Longrightarrow> strip_any es t = None"
  by (auto simp: strip_any_None_iff starts_with_iff prefix_def)

lemma trim_end_prefix: "prefix (trim_end s) s"
  unfolding trim_end_def by (metis rev_rev_ident suffix_to_prefix trim_front_suffix)

lemma trim_start_suffix: "suffix (trim_start s) s"
  unfolding trim_start_def by (rule trim_front_suffix)

lemma trim_end_idem [simp]: "trim_end (trim_end s) = trim_end s"
  by (simp add: trim_end_def)

lemma trim_start_idem [simp]: "trim_start (trim_start s) = trim_start s"
  by (simp add: trim_start_def)

lemma trim_idem [simp]: "trim (trim s) = trim s"
proof -
  have "strip_any ws_encodings (trim_start s) = None"
    by (simp add: trim_start_def strip_any_trim_front)
  then have "strip_any ws_encodings (trim s) = None"
    unfolding trim_def by (rule strip_any_None_prefix) (rule trim_end_prefix)
  then have "trim_start (trim s) = trim s"
    by (simp add: trim_start_def trim_front_id)
  then show ?thesis by (simp add: trim_def)
qed

lemma trim_sublist: "sublist (trim s) s"
  unfolding trim_def
  by (meson prefix_imp_sublist sublist_order.order_trans suffix_imp_sublist trim_end_prefix
      trim_start_suffix)

lemma set_trim_subset: "set (trim s) \<subseteq> set s"
  using trim_sublist by (meson set_mono_sublist)

lemma trim_Nil [simp]: "trim [] = []"
  using trim_sublist [of "[]"] by simp

text \<open>A visible ASCII character neither starts nor ends a white-space encoding.\<close>

definition ascii_graphic :: "char \<Rightarrow> bool" where
  "ascii_graphic c \<longleftrightarrow> 0x21 \<le> (of_char c :: nat) \<and> (of_char c :: nat) \<le> 0x7E"

lemma strip_any_graphic:
  assumes "ascii_graphic c"
  shows "strip_any ws_encodings (c # s) = None"
    and "strip_any (map rev ws_encodings) (c # s) = None"
proof -
  have heads: "\<forall>e \<in> set ws_encodings. \<not> ascii_graphic (hd e) \<and> \<not> ascii_graphic (hd (rev e))"
    by (simp add: ws_encodings_def ascii_graphic_def)
  have first: "starts_with (c # s) e \<Longrightarrow> e \<noteq> [] \<Longrightarrow> hd e = c" for e
    by (cases e) auto
  show "strip_any ws_encodings (c # s) = None"
    using heads first assms by (auto simp: strip_any_None_iff)
  show "strip_any (map rev ws_encodings) (c # s) = None"
    using heads first assms by (fastforce simp: strip_any_None_iff)
qed

lemma trim_start_graphic [rust_str]: "ascii_graphic c \<Longrightarrow> trim_start (c # s) = c # s"
  by (simp add: trim_start_def trim_front_id strip_any_graphic)

lemma trim_end_graphic [rust_str]: "ascii_graphic c \<Longrightarrow> trim_end (s @ [c]) = s @ [c]"
  by (simp add: trim_end_def trim_front_id strip_any_graphic)

lemma trim_graphic:
  assumes "s \<noteq> []" and "ascii_graphic (hd s)" and "ascii_graphic (last s)"
  shows "trim s = s"
proof -
  have "trim_start s = s" using assms(1,2) by (cases s) (auto simp: trim_start_graphic)
  moreover have "trim_end s = s"
    using trim_end_graphic [OF assms(3), of "butlast s"] assms(1) by simp
  ultimately show ?thesis by (simp add: trim_def)
qed

section \<open>Decimal numbers\<close>

definition is_ascii_digit :: "char \<Rightarrow> bool" where
  "is_ascii_digit c \<longleftrightarrow> 0x30 \<le> (of_char c :: nat) \<and> (of_char c :: nat) \<le> 0x39"

definition digit_val :: "char \<Rightarrow> nat" where
  "digit_val c = of_char c - 0x30"

definition digit_char :: "nat \<Rightarrow> char" where
  "digit_char d = char_of (0x30 + d)"

fun digits_val :: "nat \<Rightarrow> string \<Rightarrow> nat option" where
  "digits_val acc [] = Some acc"
| "digits_val acc (c # cs) =
     (if is_ascii_digit c then digits_val (10 * acc + digit_val c) cs else None)"

text \<open>\<open>str::parse::<u64>\<close>: an optional plus sign, then at least one digit, the value in range.
  The overflow test of the library is made digit by digit; the value only grows, so testing the
  final one is the same.\<close>

definition parse_u64 :: "string \<Rightarrow> u64 option" where
  "parse_u64 s =
     (let ds = (case strip_prefix s ''+'' of Some t \<Rightarrow> t | None \<Rightarrow> s)
      in if ds = [] then None
         else (case digits_val 0 ds of
                 None \<Rightarrow> None
               | Some n \<Rightarrow> if n < 2 ^ 64 then Some (of_nat n) else None))"

text \<open>\<open>str::parse::<i64>\<close> takes a minus sign too.\<close>

definition parse_i64 :: "string \<Rightarrow> i64 option" where
  "parse_i64 s =
     (case strip_prefix s ''-'' of
        Some ds \<Rightarrow>
          (if ds = [] then None
           else (case digits_val 0 ds of
                   None \<Rightarrow> None
                 | Some n \<Rightarrow> if n \<le> 2 ^ 63 then Some (- int n) else None))
      | None \<Rightarrow>
          (let ds = (case strip_prefix s ''+'' of Some t \<Rightarrow> t | None \<Rightarrow> s)
           in if ds = [] then None
              else (case digits_val 0 ds of
                      None \<Rightarrow> None
                    | Some n \<Rightarrow> if n < 2 ^ 63 then Some (int n) else None)))"

text \<open>\<open>Display\<close> of the integers.\<close>

fun show_nat :: "nat \<Rightarrow> string" where
  "show_nat n =
     (if n < 10 then [digit_char n] else show_nat (n div 10) @ [digit_char (n mod 10)])"

declare show_nat.simps [simp del]

definition show_u64 :: "u64 \<Rightarrow> string" where
  "show_u64 x = show_nat (unat x)"

definition show_i64 :: "i64 \<Rightarrow> string" where
  "show_i64 x = (if x < 0 then ''-'' @ show_nat (nat (- x)) else show_nat (nat x))"

lemma of_digit_char: "d < 10 \<Longrightarrow> (of_char (digit_char d) :: nat) = 0x30 + d"
  by (simp add: digit_char_def)

lemma digit_char_simps [simp]:
  "d < 10 \<Longrightarrow> is_ascii_digit (digit_char d)"
  "d < 10 \<Longrightarrow> digit_val (digit_char d) = d"
  by (simp_all add: is_ascii_digit_def digit_val_def of_digit_char)

lemma is_ascii_digit_graphic: "is_ascii_digit c \<Longrightarrow> ascii_graphic c"
  by (simp add: is_ascii_digit_def ascii_graphic_def)

lemma show_nat_nonempty [simp]: "show_nat n \<noteq> []"
  by (subst show_nat.simps) simp

lemma show_nat_digits: "c \<in> set (show_nat n) \<Longrightarrow> is_ascii_digit c"
proof (induction n rule: show_nat.induct)
  case (1 n)
  from "1.prems" show ?case
    by (subst (asm) show_nat.simps) (auto split: if_splits dest: "1.IH")
qed

lemma digits_val_append:
  "digits_val acc (xs @ ys) =
     (case digits_val acc xs of None \<Rightarrow> None | Some v \<Rightarrow> digits_val v ys)"
  by (induction xs arbitrary: acc) auto

lemma digits_val_show_nat [simp]: "digits_val 0 (show_nat n) = Some n"
proof (induction n rule: show_nat.induct)
  case (1 n)
  then show ?case
    by (cases "n < 10") (simp_all add: show_nat.simps [of n] digits_val_append)
qed

lemma digits_val_is_digits: "digits_val acc s \<noteq> None \<longleftrightarrow> (\<forall>c \<in> set s. is_ascii_digit c)"
  by (induction s arbitrary: acc) auto

lemma show_nat_no_sign:
  "strip_prefix (show_nat n @ s) ''+'' = None" "strip_prefix (show_nat n @ s) ''-'' = None"
proof -
  obtain c cs where c: "show_nat n = c # cs" by (cases "show_nat n") auto
  then have "is_ascii_digit c" using show_nat_digits [of c n] by simp
  then have "c \<noteq> CHR ''+''" and "c \<noteq> CHR ''-''" by (auto simp: is_ascii_digit_def)
  with c show "strip_prefix (show_nat n @ s) ''+'' = None"
    and "strip_prefix (show_nat n @ s) ''-'' = None"
    by (simp_all add: strip_prefix_def)
qed

lemma show_nat_inj [simp]: "show_nat m = show_nat n \<longleftrightarrow> m = n"
  by (metis digits_val_show_nat option.inject)

lemma show_u64_inj [simp]: "show_u64 x = show_u64 y \<longleftrightarrow> x = y"
  by (simp add: show_u64_def word_unat_eq_iff)

lemma show_i64_inj [simp]: "show_i64 x = show_i64 y \<longleftrightarrow> x = y"
proof -
  have "show_nat m \<noteq> CHR ''-'' # show_nat k" for m k
    using show_nat_no_sign(2) [of m "[]"] by (auto simp: strip_prefix_def)
  from this [of "nat x" "nat (- y)"] this [of "nat y" "nat (- x)"] show ?thesis
    by (auto simp: show_i64_def)
qed

lemma parse_show_u64 [simp]: "parse_u64 (show_u64 x) = Some x"
  using show_nat_no_sign(1) [of "unat x" "[]"] unat_less_2p64 [of x]
  by (simp add: parse_u64_def show_u64_def Let_def)

lemma parse_u64_digits:
  assumes "ds \<noteq> []" and "\<forall>c \<in> set ds. is_ascii_digit c" and "digits_val 0 ds = Some n"
  shows "parse_u64 ds = (if n < 2 ^ 64 then Some (of_nat n) else None)"
proof -
  have "strip_prefix ds ''+'' = None"
    using assms(1,2) by (cases ds) (auto simp: strip_prefix_def is_ascii_digit_def)
  with assms show ?thesis by (simp add: parse_u64_def Let_def)
qed

section \<open>Formatting and collecting\<close>

abbreviation nl :: char where "nl \<equiv> CHR 0x0A"
abbreviation cr :: char where "cr \<equiv> CHR 0x0D"

text \<open>Single and double quotation marks around an argument of \<open>format!\<close>, and the em dash.\<close>

definition sq :: "string \<Rightarrow> string" where
  "sq s = CHR 0x27 # s @ [CHR 0x27]"

definition dq :: "string \<Rightarrow> string" where
  "dq s = CHR 0x22 # s @ [CHR 0x22]"

definition em_dash :: string where
  "em_dash = [CHR 0xE2, CHR 0x80, CHR 0x94]"

text \<open>\<open>iter().filter_map(|e| f(e, &mut acc)).collect()\<close>: the state is threaded through the calls,
  in order.\<close>

fun filter_map_st :: "('a \<Rightarrow> 'w \<Rightarrow> 'b option \<times> 'w) \<Rightarrow> 'a list \<Rightarrow> 'w \<Rightarrow> 'b list \<times> 'w" where
  "filter_map_st f [] w = ([], w)"
| "filter_map_st f (x # xs) w =
     (case f x w of (r, w1) \<Rightarrow> case filter_map_st f xs w1 of (rs, w2) \<Rightarrow>
        (case r of None \<Rightarrow> rs | Some y \<Rightarrow> y # rs, w2))"

lemma filter_map_st_elem:
  "y \<in> set (fst (filter_map_st f xs w)) \<Longrightarrow> \<exists>x \<in> set xs. \<exists>w1. fst (f x w1) = Some y"
proof (induction xs arbitrary: w)
  case Nil
  then show ?case by simp
next
  case (Cons x xs)
  obtain r w1 where f: "f x w = (r, w1)" by (cases "f x w")
  obtain rs w2 where rest: "filter_map_st f xs w1 = (rs, w2)" by (cases "filter_map_st f xs w1")
  from Cons.prems f rest have "r = Some y \<or> y \<in> set rs" by (auto split: option.splits)
  then show ?case
  proof
    assume "r = Some y"
    with f have "fst (f x w) = Some y" by simp
    then show ?thesis by (meson list.set_intros(1))
  next
    assume "y \<in> set rs"
    with Cons.IH [of w1] rest show ?thesis by (auto intro: list.set_intros(2))
  qed
qed

lemma find_Some_elem: "find P xs = Some x \<Longrightarrow> x \<in> set xs \<and> P x"
  by (auto simp: find_Some_iff)

section \<open>UTF-8\<close>

text \<open>Well-formed byte sequences, as the Unicode standard tabulates them: what \<open>read_line\<close> and
  \<open>to_str\<close> accept.\<close>

definition byte_in :: "nat \<Rightarrow> nat \<Rightarrow> char \<Rightarrow> bool" where
  "byte_in lo hi c \<longleftrightarrow> lo \<le> of_char c \<and> of_char c \<le> hi"

abbreviation cont_byte :: "char \<Rightarrow> bool" where
  "cont_byte \<equiv> byte_in 0x80 0xBF"

fun utf8_valid :: "string \<Rightarrow> bool" where
  "utf8_valid [] = True"
| "utf8_valid (a # s) =
     (if byte_in 0 0x7F a then utf8_valid s
      else (case s of
              [] \<Rightarrow> False
            | b # s1 \<Rightarrow>
                if byte_in 0xC2 0xDF a then cont_byte b \<and> utf8_valid s1
                else (case s1 of
                        [] \<Rightarrow> False
                      | c # s2 \<Rightarrow>
                          if byte_in 0xE0 0xEF a then
                            (if byte_in 0xE0 0xE0 a then byte_in 0xA0 0xBF b
                             else if byte_in 0xED 0xED a then byte_in 0x80 0x9F b
                             else cont_byte b) \<and> cont_byte c \<and> utf8_valid s2
                          else (case s2 of
                                  [] \<Rightarrow> False
                                | d # s3 \<Rightarrow>
                                    byte_in 0xF0 0xF4 a
                                    \<and> (if byte_in 0xF0 0xF0 a then byte_in 0x90 0xBF b
                                       else if byte_in 0xF4 0xF4 a then byte_in 0x80 0x8F b
                                       else cont_byte b)
                                    \<and> cont_byte c \<and> cont_byte d \<and> utf8_valid s3))))"

section \<open>Invariants of step relations\<close>

text \<open>A predicate that every step preserves holds in every state reached.\<close>

locale step_invariant =
  fixes step :: "'s \<Rightarrow> 's \<Rightarrow> bool" and I :: "'s \<Rightarrow> bool"
  assumes preserved: "step s s' \<Longrightarrow> I s \<Longrightarrow> I s'"
begin

lemma reachable: "step\<^sup>*\<^sup>* s s' \<Longrightarrow> I s \<Longrightarrow> I s'"
  by (induction rule: rtranclp_induct) (auto intro: preserved)

end

end
