(* ===== verification/Tables.thy ===== *)
theory Tables
  imports Rust_Prelude
begin

text \<open>
  Tables with a primary key. The store of the daemon is a SQLite database, and the statements its
  source contains are single-table inserts, updates, deletes and selects. A table is the list of
  its rows in insertion order; the operations below are the meaning of the statement forms the
  source uses. The locale \<open>session_table\<close> states what a table whose rows belong to sessions
  promises, for any key that determines the session, and is interpreted on each table of the store.
\<close>

section \<open>The statement forms\<close>

text \<open>\<open>INSERT OR IGNORE\<close>, with the number of rows it changed.\<close>

definition insert_or_ignore :: "('r \<Rightarrow> 'k) \<Rightarrow> 'r \<Rightarrow> 'r list \<Rightarrow> 'r list \<times> nat" where
  "insert_or_ignore key row tbl =
     (if list_ex (\<lambda>r. key r = key row) tbl then (tbl, 0) else (tbl @ [row], 1))"

text \<open>\<open>INSERT OR REPLACE\<close>: a row with the same key is deleted first.\<close>

definition insert_or_replace :: "('r \<Rightarrow> 'k) \<Rightarrow> 'r \<Rightarrow> 'r list \<Rightarrow> 'r list" where
  "insert_or_replace key row tbl = filter (\<lambda>r. key r \<noteq> key row) tbl @ [row]"

text \<open>\<open>UPDATE \<dots> SET \<dots> WHERE \<dots>\<close>\<close>

definition update_where :: "('r \<Rightarrow> bool) \<Rightarrow> ('r \<Rightarrow> 'r) \<Rightarrow> 'r list \<Rightarrow> 'r list" where
  "update_where P f tbl = map (\<lambda>r. if P r then f r else r) tbl"

text \<open>\<open>INSERT \<dots> ON CONFLICT DO UPDATE\<close>: \<open>f\<close> is the update of the row in conflict.\<close>

definition upsert :: "('r \<Rightarrow> 'k) \<Rightarrow> 'r \<Rightarrow> ('r \<Rightarrow> 'r) \<Rightarrow> 'r list \<Rightarrow> 'r list" where
  "upsert key row f tbl =
     (if list_ex (\<lambda>r. key r = key row) tbl then update_where (\<lambda>r. key r = key row) f tbl
      else tbl @ [row])"

text \<open>\<open>DELETE FROM \<dots> WHERE \<dots>\<close>, with the number of rows it changed.\<close>

definition delete_where :: "('r \<Rightarrow> bool) \<Rightarrow> 'r list \<Rightarrow> 'r list \<times> nat" where
  "delete_where P tbl = (filter (\<lambda>r. \<not> P r) tbl, length (filter P tbl))"

definition select_count :: "('r \<Rightarrow> bool) \<Rightarrow> 'r list \<Rightarrow> nat" where
  "select_count P tbl = length (filter P tbl)"

definition unique_key :: "('r \<Rightarrow> 'k) \<Rightarrow> 'r list \<Rightarrow> bool" where
  "unique_key key tbl \<longleftrightarrow> distinct (map key tbl)"

section \<open>Rows and keys\<close>

lemma set_insert_or_ignore [tbl_simps]:
  "set (fst (insert_or_ignore key row tbl)) =
     (if \<exists>r \<in> set tbl. key r = key row then set tbl else insert row (set tbl))"
  by (auto simp: insert_or_ignore_def list_ex_iff)

lemma set_insert_or_replace [tbl_simps]:
  "set (insert_or_replace key row tbl) = insert row {r \<in> set tbl. key r \<noteq> key row}"
  by (auto simp: insert_or_replace_def)

lemma set_update_where [tbl_simps]:
  "set (update_where P f tbl) = (\<lambda>r. if P r then f r else r) ` set tbl"
  by (simp add: update_where_def)

lemma set_delete_where [tbl_simps]: "set (fst (delete_where P tbl)) = {r \<in> set tbl. \<not> P r}"
  by (auto simp: delete_where_def)

lemma select_count_pos [tbl_simps]: "0 < select_count P tbl \<longleftrightarrow> (\<exists>r \<in> set tbl. P r)"
  by (auto simp: select_count_def filter_empty_conv)

lemma insert_or_ignore_new [tbl_simps]:
  "0 < snd (insert_or_ignore key row tbl) \<longleftrightarrow> \<not> (\<exists>r \<in> set tbl. key r = key row)"
  by (auto simp: insert_or_ignore_def list_ex_iff)

lemma update_where_keeps:
  assumes "\<exists>r \<in> set tbl. Q r" and "\<And>r. P r \<Longrightarrow> Q r \<Longrightarrow> Q (f r)"
  shows "\<exists>r \<in> set (update_where P f tbl). Q r"
  using assms by (auto simp: update_where_def)

lemma unique_key_Nil [simp]: "unique_key key []"
  by (simp add: unique_key_def)

lemma unique_key_ignore: "unique_key key tbl \<Longrightarrow> unique_key key (fst (insert_or_ignore key row tbl))"
  by (auto simp: unique_key_def insert_or_ignore_def list_ex_iff)

lemma distinct_map_filter: "distinct (map f xs) \<Longrightarrow> distinct (map f (filter P xs))"
  by (induction xs) auto

lemma unique_key_replace: "unique_key key tbl \<Longrightarrow> unique_key key (insert_or_replace key row tbl)"
  by (auto simp: unique_key_def insert_or_replace_def distinct_map_filter)

lemma unique_key_update:
  "unique_key key tbl \<Longrightarrow> (\<And>r. key (f r) = key r) \<Longrightarrow> unique_key key (update_where P f tbl)"
  by (simp add: unique_key_def update_where_def comp_def if_distrib [of key] cong: if_cong)

lemma unique_key_upsert:
  "unique_key key tbl \<Longrightarrow> (\<And>r. key (f r) = key r) \<Longrightarrow> unique_key key (upsert key row f tbl)"
  by (auto simp: upsert_def unique_key_update) (auto simp: unique_key_def list_ex_iff)

lemma unique_key_delete: "unique_key key tbl \<Longrightarrow> unique_key key (fst (delete_where P tbl))"
  by (simp add: unique_key_def delete_where_def distinct_map_filter)

lemmas unique_key_ops [intro] =
  unique_key_ignore unique_key_replace unique_key_update unique_key_upsert unique_key_delete

lemma unique_key_same:
  "unique_key key tbl \<Longrightarrow> r \<in> set tbl \<Longrightarrow> r' \<in> set tbl \<Longrightarrow> key r = key r' \<Longrightarrow> r = r'"
  by (auto simp: unique_key_def distinct_map inj_on_def)

lemma find_unique:
  "unique_key key tbl \<Longrightarrow> r \<in> set tbl \<Longrightarrow> find (\<lambda>x. key x = key r) tbl = Some r"
proof (induction tbl)
  case (Cons a tbl)
  then show ?case by (auto simp: unique_key_def)
qed simp

section \<open>Tables of session rows\<close>

text \<open>\<open>rows_of sid tbl\<close> are a session's rows. A table keeps the rows of two sessions apart: a
  statement about one of them leaves the rows of the other as they are.\<close>

definition rows_of :: "('r \<Rightarrow> string) \<Rightarrow> string \<Rightarrow> 'r list \<Rightarrow> 'r list" where
  "rows_of owner sid tbl = filter (\<lambda>r. owner r = sid) tbl"

locale session_table =
  fixes key :: "'r \<Rightarrow> 'k" and owner :: "'r \<Rightarrow> string"
  assumes key_owner: "key r = key r' \<Longrightarrow> owner r = owner r'"
begin

lemma frame_ignore:
  "owner row \<noteq> sid \<Longrightarrow> rows_of owner sid (fst (insert_or_ignore key row tbl)) = rows_of owner sid tbl"
  by (simp add: rows_of_def insert_or_ignore_def)

lemma frame_replace:
  assumes "owner row \<noteq> sid"
  shows "rows_of owner sid (insert_or_replace key row tbl) = rows_of owner sid tbl"
proof -
  have "key r \<noteq> key row \<and> owner r = sid \<longleftrightarrow> owner r = sid" for r
    using assms key_owner [of r row] by auto
  with assms show ?thesis by (simp add: rows_of_def insert_or_replace_def)
qed

lemma frame_update:
  assumes "\<And>r. P r \<Longrightarrow> owner r \<noteq> sid" and "\<And>r. owner (f r) = owner r"
  shows "rows_of owner sid (update_where P f tbl) = rows_of owner sid tbl"
  using assms by (induction tbl) (auto simp: rows_of_def update_where_def)

lemma frame_delete:
  assumes "\<And>r. P r \<Longrightarrow> owner r \<noteq> sid"
  shows "rows_of owner sid (fst (delete_where P tbl)) = rows_of owner sid tbl"
proof -
  have "\<not> P r \<and> owner r = sid \<longleftrightarrow> owner r = sid" for r
    using assms by auto
  then show ?thesis by (simp add: rows_of_def delete_where_def)
qed

lemma frame_upsert:
  assumes "owner row \<noteq> sid" and "\<And>r. owner (f r) = owner r"
  shows "rows_of owner sid (upsert key row f tbl) = rows_of owner sid tbl"
proof -
  have "rows_of owner sid (update_where (\<lambda>r. key r = key row) f tbl) = rows_of owner sid tbl"
  proof (rule frame_update)
    show "owner r \<noteq> sid" if "key r = key row" for r
      using key_owner [OF that] assms(1) by simp
  qed (rule assms(2))
  with assms(1) show ?thesis by (simp add: upsert_def rows_of_def)
qed

text \<open>Every statement that concerns one session acts on its rows as it acts on the table.\<close>

lemma local_key:
  assumes "owner row = sid"
  shows "list_ex (\<lambda>r. key r = key row) (rows_of owner sid tbl) = list_ex (\<lambda>r. key r = key row) tbl"
proof -
  have "key r = key row \<longrightarrow> owner r = sid" for r using key_owner [of r row] assms by simp
  then show ?thesis by (auto simp: list_ex_iff rows_of_def)
qed

lemma local_ignore:
  "owner row = sid \<Longrightarrow>
   rows_of owner sid (fst (insert_or_ignore key row tbl)) = fst (insert_or_ignore key row (rows_of owner sid tbl))"
  by (simp add: insert_or_ignore_def local_key) (simp add: rows_of_def)

lemma local_replace:
  "owner row = sid \<Longrightarrow>
   rows_of owner sid (insert_or_replace key row tbl) = insert_or_replace key row (rows_of owner sid tbl)"
  by (simp add: insert_or_replace_def rows_of_def conj_commute)

lemma local_update:
  "(\<And>r. owner (f r) = owner r) \<Longrightarrow>
   rows_of owner sid (update_where P f tbl) = update_where P f (rows_of owner sid tbl)"
  by (induction tbl) (auto simp: rows_of_def update_where_def)

lemma local_delete:
  "rows_of owner sid (fst (delete_where P tbl)) = fst (delete_where P (rows_of owner sid tbl))"
  by (simp add: rows_of_def delete_where_def conj_commute)

lemma local_upsert:
  "owner row = sid \<Longrightarrow> (\<And>r. owner (f r) = owner r) \<Longrightarrow>
   rows_of owner sid (upsert key row f tbl) = upsert key row f (rows_of owner sid tbl)"
  by (simp add: upsert_def local_key local_update) (simp add: rows_of_def)

lemma clear_session: "rows_of owner sid (fst (delete_where (\<lambda>r. owner r = sid) tbl)) = []"
  by (simp add: rows_of_def delete_where_def)

lemmas locals = local_ignore local_replace local_update local_delete local_upsert

lemmas frame = frame_ignore frame_replace frame_update frame_delete frame_upsert

end

end
