(* ===== verification/Tags.thy ===== *)
theory Tags
  imports Rust_Prelude
begin

text \<open>
  The tag filter, \<open>crates/autofork-core/src/tags.rs\<close>, and the comma-joined tag lists that the
  store, the frontmatter and the hook split the same way (trimmed, empty pieces dropped).
\<close>

section \<open>The filter\<close>

definition tags_allowed ::
    "string list \<Rightarrow> string list option \<Rightarrow> string list option \<Rightarrow> bool" where
  "tags_allowed fork_tags enable disable =
     (if (case disable of
            Some ds \<Rightarrow> list_ex (\<lambda>t. list_ex (\<lambda>d. d = t) ds) fork_tags
          | None \<Rightarrow> False)
      then False
      else (case enable of
              Some es \<Rightarrow>
                if es \<noteq> [] then list_ex (\<lambda>t. list_ex (\<lambda>e. e = t) es) fork_tags else True
            | None \<Rightarrow> True))"

section \<open>Comma-separated lists\<close>

text \<open>\<open>split(',')\<close>, trimmed, empties dropped: \<open>split_tags\<close> of the store on a non-NULL column.\<close>

definition split_list :: "string \<Rightarrow> string list" where
  "split_list s = filter (\<lambda>t. t \<noteq> []) (map trim (split_on CHR '','' s))"

text \<open>The same with duplicates dropped, as \<open>push_split\<close> and \<open>tags_from_env\<close> collect.\<close>

fun push_new :: "string list \<Rightarrow> string list \<Rightarrow> string list" where
  "push_new [] out = out"
| "push_new (t # ts) out =
     (if t \<noteq> [] \<and> \<not> list_ex (\<lambda>e. e = t) out then push_new ts (out @ [t]) else push_new ts out)"

definition push_split :: "string \<Rightarrow> string list \<Rightarrow> string list" where
  "push_split s out = push_new (map trim (split_on CHR '','' s)) out"

text \<open>A tag as those functions produce it.\<close>

definition clean_tag :: "string \<Rightarrow> bool" where
  "clean_tag t \<longleftrightarrow> t \<noteq> [] \<and> trim t = t \<and> CHR '','' \<notin> set t"

section \<open>Lemmas\<close>

lemma split_list_clean: "t \<in> set (split_list s) \<Longrightarrow> clean_tag t"
  using set_trim_subset by (auto simp: split_list_def clean_tag_def dest!: split_on_pieces)

lemma split_list_join: "\<forall>t \<in> set ts. clean_tag t \<Longrightarrow> split_list (join_with '','' ts) = ts"
proof (cases "ts = []")
  case True
  then show ?thesis by (simp add: split_list_def)
next
  case False
  assume clean: "\<forall>t \<in> set ts. clean_tag t"
  with False have "split_on CHR '','' (join_with '','' ts) = ts"
    by (intro split_on_join) (auto simp: clean_tag_def)
  moreover have "map trim ts = ts" using clean by (auto simp: clean_tag_def intro: map_idI)
  moreover have "filter (\<lambda>t. t \<noteq> []) ts = ts"
    using clean by (auto simp: clean_tag_def intro: filter_True)
  ultimately show ?thesis by (simp add: split_list_def)
qed

lemma push_new_props:
  "distinct out \<Longrightarrow> distinct (push_new ts out)"
  "set (push_new ts out) = set out \<union> (set ts - {[]})"
  by (induction ts arbitrary: out) (auto simp: list_ex_iff)

lemma push_split_props:
  "distinct out \<Longrightarrow> distinct (push_split s out)"
  "set (push_split s out) = set out \<union> set (split_list s)"
  by (auto simp: push_split_def push_new_props split_list_def)

lemma push_split_clean:
  "\<forall>t \<in> set out. clean_tag t \<Longrightarrow> \<forall>t \<in> set (push_split s out). clean_tag t"
  by (auto simp: push_split_props(2) dest: split_list_clean)

section \<open>Properties\<close>

text \<open>The filter as the README states it: a disabled tag excludes the fork whatever the enable
  list says; otherwise a non-empty enable list admits exactly the forks that carry one of its
  tags; otherwise every fork runs.\<close>

theorem tags_allowed_iff:
  "tags_allowed tags enable disable \<longleftrightarrow>
     (\<forall>ds. disable = Some ds \<longrightarrow> set tags \<inter> set ds = {}) \<and>
     (\<forall>es. enable = Some es \<longrightarrow> es = [] \<or> set tags \<inter> set es \<noteq> {})"
  by (auto simp: tags_allowed_def list_ex_iff split: option.splits if_splits)

theorem tags_allowed_iff_witness:
  "tags_allowed [''ci'', ''docs''] (Some [''ci'']) (Some [''noisy'']) \<and>
   \<not> tags_allowed [] (Some [''ci'']) None \<and>
   \<not> tags_allowed [''ci''] (Some [''ci'']) (Some [''ci''])"
  using tags_allowed_iff [of "[''ci'', ''docs'']" "Some [''ci'']" "Some [''noisy'']"]
    tags_allowed_iff [of "[]" "Some [''ci'']" None]
    tags_allowed_iff [of "[''ci'']" "Some [''ci'']" "Some [''ci'']"]
  by simp

end
