(* ===== verification/Store.thy ===== *)
theory Store
  imports Tables Tags
begin

text \<open>
  The state store, \<open>crates/autofork-core/src/store.rs\<close>: the tables of schema version 5 and one
  function per method. A row type has the table's columns; a record that a query returns
  (\<open>SessionRow\<close>, \<open>RosterEntry\<close>, \<open>PendingDep\<close>, \<open>RunRow\<close>) is a type of its own. A
  statement is assumed to succeed: the result type of rusqlite is not modelled, and neither is the
  unused \<open>reports\<close> table. Text columns compare bytewise, integers do not overflow in the database.
\<close>

section \<open>Tables\<close>

datatype session_status = Open | Closed

record session_tbl =
  s_session_id :: string
  s_project_root :: path
  s_cwd :: path
  s_transcript_path :: "path option"
  s_status :: session_status
  s_last_activity :: i64
  s_transcript_offset :: i64
  s_prompt_tokens :: "i64 option"
  s_model :: "string option"
  s_created_at :: i64
  s_enable_tags :: "string option"
  s_disable_tags :: "string option"
  s_pause_epoch :: i64
  s_pause_started_at :: "i64 option"

record roster_tbl =
  r_session_id :: string
  r_fork_name :: string
  r_fork_path :: path
  r_queued_at :: i64
  r_ran_at :: "i64 option"

record fires_tbl =
  f_session_id :: string
  f_fork_name :: string
  f_trigger_label :: string
  f_fired_at :: i64

record runs_tbl =
  n_id :: i64
  n_session_id :: string
  n_fork_name :: string
  n_trigger_label :: string
  n_state :: string
  n_started_at :: i64
  n_finished_at :: "i64 option"
  n_tags :: "string option"

record spawns_tbl =
  p_session_id :: string
  p_tool_use_id :: string
  p_task_id :: "string option"
  p_fork_name :: "string option"
  p_status :: string
  p_spawned_at :: i64
  p_terminal_at :: "i64 option"

record deps_tbl =
  d_session_id :: string
  d_fork_name :: string
  d_fork_path :: path
  d_trigger_label :: string
  d_overlap :: bool
  d_preds :: string
  d_created_at :: i64

text \<open>\<open>run_seq\<close> is the AUTOINCREMENT counter of \<open>fork_runs\<close>.\<close>

record store =
  sessions :: "session_tbl list"
  fork_roster :: "roster_tbl list"
  fork_fires :: "fires_tbl list"
  fork_runs :: "runs_tbl list"
  run_seq :: i64
  fork_spawns :: "spawns_tbl list"
  pending_deps :: "deps_tbl list"

definition empty_store :: store where
  "empty_store = \<lparr>sessions = [], fork_roster = [], fork_fires = [], fork_runs = [], run_seq = 0,
                  fork_spawns = [], pending_deps = []\<rparr>"

abbreviation roster_key :: "roster_tbl \<Rightarrow> string \<times> string" where
  "roster_key r \<equiv> (r_session_id r, r_fork_name r)"

abbreviation fires_key :: "fires_tbl \<Rightarrow> string \<times> string \<times> string" where
  "fires_key r \<equiv> (f_session_id r, f_fork_name r, f_trigger_label r)"

abbreviation spawns_key :: "spawns_tbl \<Rightarrow> string \<times> string" where
  "spawns_key r \<equiv> (p_session_id r, p_tool_use_id r)"

abbreviation deps_key :: "deps_tbl \<Rightarrow> string \<times> string" where
  "deps_key r \<equiv> (d_session_id r, d_fork_name r)"

section \<open>Sessions\<close>

record session_row =
  session_id :: string
  project_root :: path
  cwd :: path
  transcript_path :: "path option"
  session_status :: session_status
  last_activity :: i64
  transcript_offset :: u64
  session_tokens :: "u64 option"
  model :: "string option"
  created_at :: i64
  enable_tags :: "string list option"
  disable_tags :: "string list option"
  pause_epoch :: i64
  pause_started_at :: "i64 option"

fun status_as_str :: "session_status \<Rightarrow> string" where
  "status_as_str Open = ''open''"
| "status_as_str Closed = ''closed''"

definition split_tags :: "string option \<Rightarrow> string list option" where
  "split_tags s = map_option split_list s"

definition row_to_session :: "session_tbl \<Rightarrow> session_row" where
  "row_to_session r = \<lparr>session_id = s_session_id r, project_root = s_project_root r, cwd = s_cwd r,
     transcript_path = s_transcript_path r,
     session_status = (if status_as_str (s_status r) = ''open'' then Open else Closed),
     last_activity = s_last_activity r,
     transcript_offset = i64_as_u64 (s_transcript_offset r),
     session_tokens = map_option i64_as_u64 (s_prompt_tokens r),
     model = s_model r, created_at = s_created_at r,
     enable_tags = split_tags (s_enable_tags r), disable_tags = split_tags (s_disable_tags r),
     pause_epoch = s_pause_epoch r, pause_started_at = s_pause_started_at r\<rparr>"

definition coalesce :: "'a option \<Rightarrow> 'a option \<Rightarrow> 'a option" where
  "coalesce a b = (case a of Some x \<Rightarrow> Some x | None \<Rightarrow> b)"

definition new_session ::
  "string \<Rightarrow> path \<Rightarrow> path \<Rightarrow> path option \<Rightarrow> string option \<Rightarrow> string option \<Rightarrow> string option \<Rightarrow>
   i64 \<Rightarrow> session_tbl" where
  "new_session sid root dir transcript mdl enable disable t =
     \<lparr>s_session_id = sid, s_project_root = root, s_cwd = dir, s_transcript_path = transcript,
      s_status = Open, s_last_activity = t, s_transcript_offset = 0, s_prompt_tokens = None,
      s_model = mdl, s_created_at = t, s_enable_tags = enable, s_disable_tags = disable,
      s_pause_epoch = 0, s_pause_started_at = None\<rparr>"

definition upsert_session ::
  "string \<Rightarrow> path \<Rightarrow> path \<Rightarrow> path option \<Rightarrow> string option \<Rightarrow> string option \<Rightarrow> string option \<Rightarrow>
   i64 \<Rightarrow> store \<Rightarrow> store" where
  "upsert_session sid root dir transcript mdl enable disable t st =
     st\<lparr>sessions :=
       upsert s_session_id (new_session sid root dir transcript mdl enable disable t)
         (\<lambda>r. r\<lparr>s_project_root := root,
                s_transcript_path := coalesce transcript (s_transcript_path r),
                s_model := coalesce mdl (s_model r),
                s_enable_tags := enable, s_disable_tags := disable,
                s_status := Open, s_last_activity := t\<rparr>)
         (sessions st)\<rparr>"

definition get_session :: "string \<Rightarrow> store \<Rightarrow> session_row option" where
  "get_session sid st = map_option row_to_session (find (\<lambda>r. s_session_id r = sid) (sessions st))"

definition update_session :: "string \<Rightarrow> (session_tbl \<Rightarrow> session_tbl) \<Rightarrow> store \<Rightarrow> store" where
  "update_session sid f st =
     st\<lparr>sessions := update_where (\<lambda>r. s_session_id r = sid) f (sessions st)\<rparr>"

definition bump_pause_epoch :: "string \<Rightarrow> store \<Rightarrow> store" where
  "bump_pause_epoch sid st =
     update_session sid (\<lambda>r. r\<lparr>s_pause_epoch := s_pause_epoch r + 1, s_pause_started_at := None\<rparr>) st"

definition set_pause_started_at_if_unset :: "string \<Rightarrow> i64 \<Rightarrow> store \<Rightarrow> store" where
  "set_pause_started_at_if_unset sid t st =
     st\<lparr>sessions := update_where (\<lambda>r. s_session_id r = sid \<and> s_pause_started_at r = None)
                      (\<lambda>r. r\<lparr>s_pause_started_at := Some t\<rparr>) (sessions st)\<rparr>"

definition list_open_sessions :: "store \<Rightarrow> session_row list" where
  "list_open_sessions st =
     map row_to_session
       (sort_key (\<lambda>r. - s_last_activity r) (filter (\<lambda>r. s_status r = Open) (sessions st)))"

definition set_last_activity :: "string \<Rightarrow> i64 \<Rightarrow> store \<Rightarrow> store" where
  "set_last_activity sid t st = update_session sid (\<lambda>r. r\<lparr>s_last_activity := t\<rparr>) st"

definition set_transcript_gauge :: "string \<Rightarrow> u64 \<Rightarrow> u64 option \<Rightarrow> store \<Rightarrow> store" where
  "set_transcript_gauge sid off toks st =
     update_session sid
       (\<lambda>r. r\<lparr>s_transcript_offset := u64_as_i64 off,
              s_prompt_tokens := coalesce (map_option u64_as_i64 toks) (s_prompt_tokens r)\<rparr>) st"

definition close_session :: "string \<Rightarrow> store \<Rightarrow> store" where
  "close_session sid st =
     (let st = update_session sid (\<lambda>r. r\<lparr>s_status := Closed\<rparr>) st
      in st\<lparr>fork_roster := fst (delete_where (\<lambda>r. r_session_id r = sid) (fork_roster st)),
           fork_fires := fst (delete_where (\<lambda>r. f_session_id r = sid) (fork_fires st)),
           fork_spawns := fst (delete_where (\<lambda>r. p_session_id r = sid) (fork_spawns st)),
           pending_deps := fst (delete_where (\<lambda>r. d_session_id r = sid) (pending_deps st))\<rparr>)"

section \<open>Roster\<close>

record roster_entry =
  re_fork_name :: string
  re_fork_path :: path
  re_queued_at :: i64
  re_ran_at :: "i64 option"

definition queue_fork :: "string \<Rightarrow> string \<Rightarrow> path \<Rightarrow> i64 \<Rightarrow> store \<Rightarrow> store \<times> bool" where
  "queue_fork sid name p t st =
     (case insert_or_ignore roster_key
             \<lparr>r_session_id = sid, r_fork_name = name, r_fork_path = p, r_queued_at = t, r_ran_at = None\<rparr>
             (fork_roster st)
      of (tbl, n) \<Rightarrow> (st\<lparr>fork_roster := tbl\<rparr>, 0 < n))"

definition roster :: "string \<Rightarrow> store \<Rightarrow> roster_entry list" where
  "roster sid st =
     map (\<lambda>r. \<lparr>re_fork_name = r_fork_name r, re_fork_path = r_fork_path r,
               re_queued_at = r_queued_at r, re_ran_at = r_ran_at r\<rparr>)
       (sort_key (\<lambda>r. (r_queued_at r, r_fork_name r))
         (filter (\<lambda>r. r_session_id r = sid) (fork_roster st)))"

definition touch_fork_ran :: "string \<Rightarrow> string \<Rightarrow> i64 \<Rightarrow> store \<Rightarrow> store" where
  "touch_fork_ran sid name t st =
     st\<lparr>fork_roster := update_where (\<lambda>r. r_session_id r = sid \<and> r_fork_name r = name)
                         (\<lambda>r. r\<lparr>r_ran_at := Some t\<rparr>) (fork_roster st)\<rparr>"

section \<open>Fires latch\<close>

definition is_latched :: "string \<Rightarrow> string \<Rightarrow> string \<Rightarrow> store \<Rightarrow> bool" where
  "is_latched sid name lbl st \<longleftrightarrow>
     0 < select_count (\<lambda>r. f_session_id r = sid \<and> f_fork_name r = name \<and> f_trigger_label r = lbl)
           (fork_fires st)"

definition try_latch_fire :: "string \<Rightarrow> string \<Rightarrow> string \<Rightarrow> i64 \<Rightarrow> store \<Rightarrow> store \<times> bool" where
  "try_latch_fire sid name lbl t st =
     (case insert_or_ignore fires_key
             \<lparr>f_session_id = sid, f_fork_name = name, f_trigger_label = lbl, f_fired_at = t\<rparr>
             (fork_fires st)
      of (tbl, n) \<Rightarrow> (st\<lparr>fork_fires := tbl\<rparr>, 0 < n))"

section \<open>Runs\<close>

record run_row =
  run_id :: i64
  run_session_id :: string
  run_fork_name :: string
  run_trigger_label :: string
  run_state :: string
  run_started_at :: i64

definition record_issued_run ::
  "string \<Rightarrow> string \<Rightarrow> string \<Rightarrow> string option \<Rightarrow> i64 \<Rightarrow> store \<Rightarrow> store \<times> i64" where
  "record_issued_run sid name lbl tgs t st =
     (let i = run_seq st + 1
      in (st\<lparr>fork_runs := fork_runs st @
               [\<lparr>n_id = i, n_session_id = sid, n_fork_name = name, n_trigger_label = lbl,
                 n_state = ''issued'', n_started_at = t, n_finished_at = Some t, n_tags = tgs\<rparr>],
            run_seq := i\<rparr>, i))"

text \<open>The rows of the join: the runs of the project's sessions that carry tags.\<close>

definition tagged_runs :: "path \<Rightarrow> store \<Rightarrow> (i64 \<times> string) list" where
  "tagged_runs root st =
     List.map_filter
       (\<lambda>r. if list_ex (\<lambda>s. s_session_id s = n_session_id r \<and> s_project_root s = root) (sessions st)
            then map_option (Pair (n_started_at r)) (n_tags r) else None)
       (fork_runs st)"

definition last_run_for_tags :: "path \<Rightarrow> string list \<Rightarrow> store \<Rightarrow> i64 option" where
  "last_run_for_tags root tgs st =
     (if tgs = [] then None
      else map_option fst
             (find (\<lambda>(_, row_tags). list_ex (\<lambda>rt. rt \<in> set tgs) (split_list row_tags))
               (sort_key (\<lambda>(started, _). - started) (tagged_runs root st))))"

definition list_runs :: "string list \<Rightarrow> nat \<Rightarrow> store \<Rightarrow> run_row list" where
  "list_runs states limit st =
     map (\<lambda>r. \<lparr>run_id = n_id r, run_session_id = n_session_id r, run_fork_name = n_fork_name r,
               run_trigger_label = n_trigger_label r, run_state = n_state r,
               run_started_at = n_started_at r\<rparr>)
       (take limit
         (sort_key (\<lambda>r. (- n_started_at r, - n_id r))
           (filter (\<lambda>r. n_state r \<in> set states) (fork_runs st))))"

section \<open>Spawns\<close>

definition record_spawn :: "string \<Rightarrow> string \<Rightarrow> string option \<Rightarrow> i64 \<Rightarrow> store \<Rightarrow> store" where
  "record_spawn sid tool name t st =
     st\<lparr>fork_spawns := fst (insert_or_ignore spawns_key
          \<lparr>p_session_id = sid, p_tool_use_id = tool, p_task_id = None, p_fork_name = name,
           p_status = ''spawned'', p_spawned_at = t, p_terminal_at = None\<rparr> (fork_spawns st))\<rparr>"

definition set_spawn_task_id :: "string \<Rightarrow> string \<Rightarrow> string \<Rightarrow> store \<Rightarrow> store" where
  "set_spawn_task_id sid tool task st =
     st\<lparr>fork_spawns := update_where (\<lambda>r. p_session_id r = sid \<and> p_tool_use_id r = tool)
          (\<lambda>r. r\<lparr>p_task_id := coalesce (p_task_id r) (Some task)\<rparr>) (fork_spawns st)\<rparr>"

text \<open>The condition on the ids: an id that is absent, or a NULL column, matches nothing.\<close>

definition spawn_ids_match :: "string option \<Rightarrow> string option \<Rightarrow> spawns_tbl \<Rightarrow> bool" where
  "spawn_ids_match tool task r \<longleftrightarrow>
     tool \<noteq> None \<and> tool = Some (p_tool_use_id r) \<or> task \<noteq> None \<and> p_task_id r = task"

definition is_fork_spawn :: "string \<Rightarrow> string option \<Rightarrow> string option \<Rightarrow> store \<Rightarrow> bool" where
  "is_fork_spawn sid tool task st \<longleftrightarrow>
     0 < select_count (\<lambda>r. p_session_id r = sid \<and> spawn_ids_match tool task r) (fork_spawns st)"

definition mark_spawn_terminal ::
  "string \<Rightarrow> string option \<Rightarrow> string option \<Rightarrow> string \<Rightarrow> i64 \<Rightarrow> store \<Rightarrow> store \<times> bool" where
  "mark_spawn_terminal sid tool task stat t st =
     (if \<not> is_fork_spawn sid tool task st then (st, False)
      else (st\<lparr>fork_spawns :=
                 update_where
                   (\<lambda>r. p_session_id r = sid \<and> p_status r = ''spawned'' \<and> spawn_ids_match tool task r)
                   (\<lambda>r. r\<lparr>p_status := stat, p_terminal_at := Some t\<rparr>) (fork_spawns st)\<rparr>, True))"

definition fork_completed_since :: "string \<Rightarrow> string \<Rightarrow> i64 \<Rightarrow> store \<Rightarrow> bool" where
  "fork_completed_since sid name since st \<longleftrightarrow>
     0 < select_count
           (\<lambda>r. p_session_id r = sid \<and> p_fork_name r = Some name
              \<and> p_status r \<in> set [''completed'', ''failed'', ''stopped'']
              \<and> (case p_terminal_at r of Some t \<Rightarrow> since \<le> t | None \<Rightarrow> False))
           (fork_spawns st)"

section \<open>Held dependents\<close>

record pending_dep =
  pd_fork_name :: string
  pd_fork_path :: path
  pd_trigger_label :: string
  pd_overlap :: bool
  pd_preds :: "string list"
  pd_created_at :: i64

definition insert_pending_dep ::
  "string \<Rightarrow> string \<Rightarrow> path \<Rightarrow> string \<Rightarrow> bool \<Rightarrow> string list \<Rightarrow> i64 \<Rightarrow> store \<Rightarrow> store" where
  "insert_pending_dep sid name p lbl ovl preds t st =
     st\<lparr>pending_deps := insert_or_replace deps_key
          \<lparr>d_session_id = sid, d_fork_name = name, d_fork_path = p, d_trigger_label = lbl,
           d_overlap = ovl, d_preds = join_with '','' preds, d_created_at = t\<rparr> (pending_deps st)\<rparr>"

definition row_to_dep :: "deps_tbl \<Rightarrow> pending_dep" where
  "row_to_dep r = \<lparr>pd_fork_name = d_fork_name r, pd_fork_path = d_fork_path r,
     pd_trigger_label = d_trigger_label r, pd_overlap = d_overlap r,
     pd_preds = (case split_tags (Some (d_preds r)) of Some ps \<Rightarrow> ps | None \<Rightarrow> []),
     pd_created_at = d_created_at r\<rparr>"

definition list_pending_deps :: "string \<Rightarrow> store \<Rightarrow> pending_dep list" where
  "list_pending_deps sid st =
     map row_to_dep
       (sort_key (\<lambda>r. (d_created_at r, d_fork_name r))
         (filter (\<lambda>r. d_session_id r = sid) (pending_deps st)))"

definition delete_pending_dep :: "string \<Rightarrow> string \<Rightarrow> store \<Rightarrow> store" where
  "delete_pending_dep sid name st =
     st\<lparr>pending_deps :=
       fst (delete_where (\<lambda>r. d_session_id r = sid \<and> d_fork_name r = name) (pending_deps st))\<rparr>"

definition clear_pending_deps :: "string \<Rightarrow> store \<Rightarrow> store \<times> nat" where
  "clear_pending_deps sid st =
     (case delete_where (\<lambda>r. d_session_id r = sid) (pending_deps st)
      of (tbl, n) \<Rightarrow> (st\<lparr>pending_deps := tbl\<rparr>, n))"

section \<open>Sequences of operations\<close>

text \<open>Every method that writes, so that the store's histories are lists of operations.\<close>

datatype store_op =
    UpsertSession string path path "path option" "string option" "string option" "string option" i64
  | BumpPauseEpoch string
  | SetPauseStarted string i64
  | SetLastActivity string i64
  | SetTranscriptGauge string u64 "u64 option"
  | CloseSession string
  | QueueFork string string path i64
  | TouchForkRan string string i64
  | TryLatchFire string string string i64
  | RecordIssuedRun string string string "string option" i64
  | RecordSpawn string string "string option" i64
  | SetSpawnTaskId string string string
  | MarkSpawnTerminal string "string option" "string option" string i64
  | InsertPendingDep string string path string bool "string list" i64
  | DeletePendingDep string string
  | ClearPendingDeps string

fun apply_op :: "store_op \<Rightarrow> store \<Rightarrow> store" where
  "apply_op (UpsertSession sid root dir tr mdl en dis t) st = upsert_session sid root dir tr mdl en dis t st"
| "apply_op (BumpPauseEpoch sid) st = bump_pause_epoch sid st"
| "apply_op (SetPauseStarted sid t) st = set_pause_started_at_if_unset sid t st"
| "apply_op (SetLastActivity sid t) st = set_last_activity sid t st"
| "apply_op (SetTranscriptGauge sid off toks) st = set_transcript_gauge sid off toks st"
| "apply_op (CloseSession sid) st = close_session sid st"
| "apply_op (QueueFork sid name p t) st = fst (queue_fork sid name p t st)"
| "apply_op (TouchForkRan sid name t) st = touch_fork_ran sid name t st"
| "apply_op (TryLatchFire sid name lbl t) st = fst (try_latch_fire sid name lbl t st)"
| "apply_op (RecordIssuedRun sid name lbl tgs t) st = fst (record_issued_run sid name lbl tgs t st)"
| "apply_op (RecordSpawn sid tool name t) st = record_spawn sid tool name t st"
| "apply_op (SetSpawnTaskId sid tool task) st = set_spawn_task_id sid tool task st"
| "apply_op (MarkSpawnTerminal sid tool task stat t) st = fst (mark_spawn_terminal sid tool task stat t st)"
| "apply_op (InsertPendingDep sid name p lbl ovl preds t) st = insert_pending_dep sid name p lbl ovl preds t st"
| "apply_op (DeletePendingDep sid name) st = delete_pending_dep sid name st"
| "apply_op (ClearPendingDeps sid) st = fst (clear_pending_deps sid st)"

fun op_session :: "store_op \<Rightarrow> string" where
  "op_session (UpsertSession sid root dir tr mdl en dis t) = sid"
| "op_session (BumpPauseEpoch sid) = sid"
| "op_session (SetPauseStarted sid t) = sid"
| "op_session (SetLastActivity sid t) = sid"
| "op_session (SetTranscriptGauge sid off toks) = sid"
| "op_session (CloseSession sid) = sid"
| "op_session (QueueFork sid name p t) = sid"
| "op_session (TouchForkRan sid name t) = sid"
| "op_session (TryLatchFire sid name lbl t) = sid"
| "op_session (RecordIssuedRun sid name lbl tgs t) = sid"
| "op_session (RecordSpawn sid tool name t) = sid"
| "op_session (SetSpawnTaskId sid tool task) = sid"
| "op_session (MarkSpawnTerminal sid tool task stat t) = sid"
| "op_session (InsertPendingDep sid name p lbl ovl preds t) = sid"
| "op_session (DeletePendingDep sid name) = sid"
| "op_session (ClearPendingDeps sid) = sid"

definition apply_ops :: "store_op list \<Rightarrow> store \<Rightarrow> store" where
  "apply_ops ops st = fold apply_op ops st"

lemmas session_ops =
  upsert_session_def update_session_def bump_pause_epoch_def set_pause_started_at_if_unset_def
  set_last_activity_def set_transcript_gauge_def

lemmas table_ops =
  queue_fork_def touch_fork_ran_def try_latch_fire_def record_issued_run_def record_spawn_def
  set_spawn_task_id_def mark_spawn_terminal_def insert_pending_dep_def delete_pending_dep_def
  clear_pending_deps_def close_session_def

section \<open>Primary keys\<close>

definition run_ids_ok :: "store \<Rightarrow> bool" where
  "run_ids_ok st \<longleftrightarrow> unique_key n_id (fork_runs st) \<and> list_all (\<lambda>r. n_id r \<le> run_seq st) (fork_runs st)"

definition store_ok :: "store \<Rightarrow> bool" where
  "store_ok st \<longleftrightarrow>
     unique_key s_session_id (sessions st) \<and> unique_key roster_key (fork_roster st)
   \<and> unique_key fires_key (fork_fires st) \<and> run_ids_ok st
   \<and> unique_key spawns_key (fork_spawns st) \<and> unique_key deps_key (pending_deps st)"

lemma store_ok_empty: "store_ok empty_store"
  by (simp add: store_ok_def empty_store_def run_ids_ok_def)

lemma sessions_op_key:
  "unique_key s_session_id (sessions st) \<Longrightarrow> unique_key s_session_id (sessions (apply_op op st))"
  by (cases op)
    (simp_all add: session_ops table_ops Let_def new_session_def unique_key_upsert unique_key_update
      split: prod.split)

lemma roster_op_key:
  "unique_key roster_key (fork_roster st) \<Longrightarrow> unique_key roster_key (fork_roster (apply_op op st))"
  by (cases op)
    (simp_all add: session_ops table_ops Let_def unique_key_update unique_key_delete
      unique_key_ignore case_prod_unfold)

lemma fires_op_key:
  "unique_key fires_key (fork_fires st) \<Longrightarrow> unique_key fires_key (fork_fires (apply_op op st))"
  by (cases op)
    (simp_all add: session_ops table_ops Let_def unique_key_delete unique_key_ignore case_prod_unfold)

lemma spawns_op_key:
  "unique_key spawns_key (fork_spawns st) \<Longrightarrow> unique_key spawns_key (fork_spawns (apply_op op st))"
  by (cases op)
    (simp_all add: session_ops table_ops Let_def unique_key_update unique_key_delete
      unique_key_ignore case_prod_unfold)

lemma deps_op_key:
  "unique_key deps_key (pending_deps st) \<Longrightarrow> unique_key deps_key (pending_deps (apply_op op st))"
  by (cases op)
    (simp_all add: session_ops table_ops Let_def unique_key_delete unique_key_replace case_prod_unfold)

lemma run_ids_op: "run_ids_ok st \<Longrightarrow> run_ids_ok (apply_op op st)"
proof (cases op)
  case (RecordIssuedRun sid name lbl tgs t)
  assume "run_ids_ok st"
  with RecordIssuedRun show ?thesis
    by (auto simp: record_issued_run_def run_ids_ok_def unique_key_def list_all_iff Let_def)
qed (simp_all add: run_ids_ok_def session_ops table_ops Let_def case_prod_unfold)

lemma store_ok_op: "store_ok st \<Longrightarrow> store_ok (apply_op op st)"
  by (simp add: store_ok_def sessions_op_key roster_op_key fires_op_key spawns_op_key deps_op_key
      run_ids_op)

lemma store_ok_ops: "store_ok st \<Longrightarrow> store_ok (apply_ops ops st)"
  by (induction ops arbitrary: st) (simp_all add: apply_ops_def store_ok_op)

section \<open>Sessions do not interfere\<close>

interpretation sess: session_table s_session_id s_session_id
  by unfold_locales

interpretation rost: session_table roster_key r_session_id
  by unfold_locales simp

interpretation fire: session_table fires_key f_session_id
  by unfold_locales simp

interpretation spwn: session_table spawns_key p_session_id
  by unfold_locales simp

interpretation deps: session_table deps_key d_session_id
  by unfold_locales simp

text \<open>The rows of one session, and the reads that depend on nothing else.\<close>

definition session_rows ::
  "string \<Rightarrow> store \<Rightarrow> session_tbl list \<times> roster_tbl list \<times> fires_tbl list \<times> spawns_tbl list \<times> deps_tbl list" where
  "session_rows sid st =
     (rows_of s_session_id sid (sessions st), rows_of r_session_id sid (fork_roster st),
      rows_of f_session_id sid (fork_fires st), rows_of p_session_id sid (fork_spawns st),
      rows_of d_session_id sid (pending_deps st))"

lemma find_filter: "find P (filter P xs) = find P xs"
  by (induction xs) auto

lemma select_count_rows:
  "select_count (\<lambda>r. owner r = sid \<and> P r) tbl = select_count P (rows_of owner sid tbl)"
  by (simp add: select_count_def rows_of_def conj_commute)

lemma reads_of_rows:
  "get_session sid st = map_option row_to_session (find (\<lambda>r. s_session_id r = sid) (fst (session_rows sid st)))"
  "roster sid st =
     map (\<lambda>r. \<lparr>re_fork_name = r_fork_name r, re_fork_path = r_fork_path r,
               re_queued_at = r_queued_at r, re_ran_at = r_ran_at r\<rparr>)
       (sort_key (\<lambda>r. (r_queued_at r, r_fork_name r)) (fst (snd (session_rows sid st))))"
  "is_latched sid name lbl st \<longleftrightarrow>
     0 < select_count (\<lambda>r. f_fork_name r = name \<and> f_trigger_label r = lbl)
           (fst (snd (snd (session_rows sid st))))"
  "is_fork_spawn sid tool task st \<longleftrightarrow>
     0 < select_count (spawn_ids_match tool task) (fst (snd (snd (snd (session_rows sid st)))))"
  "fork_completed_since sid name since st \<longleftrightarrow>
     0 < select_count
           (\<lambda>r. p_fork_name r = Some name
              \<and> p_status r \<in> set [''completed'', ''failed'', ''stopped'']
              \<and> (case p_terminal_at r of Some t \<Rightarrow> since \<le> t | None \<Rightarrow> False))
           (fst (snd (snd (snd (session_rows sid st)))))"
  "list_pending_deps sid st =
     map row_to_dep (sort_key (\<lambda>r. (d_created_at r, d_fork_name r))
       (snd (snd (snd (snd (session_rows sid st))))))"
  by (simp_all only: session_rows_def get_session_def roster_def is_latched_def is_fork_spawn_def
      fork_completed_since_def list_pending_deps_def select_count_rows fst_conv snd_conv)
    (simp_all only: rows_of_def find_filter)

lemma sessions_frame:
  "op_session op \<noteq> sid \<Longrightarrow>
   rows_of s_session_id sid (sessions (apply_op op st)) = rows_of s_session_id sid (sessions st)"
  by (cases op)
    (auto simp: session_ops table_ops Let_def new_session_def case_prod_unfold intro!: sess.frame)

lemma roster_frame:
  "op_session op \<noteq> sid \<Longrightarrow>
   rows_of r_session_id sid (fork_roster (apply_op op st)) = rows_of r_session_id sid (fork_roster st)"
  by (cases op) (auto simp: session_ops table_ops Let_def case_prod_unfold intro!: rost.frame)

lemma fires_frame:
  "op_session op \<noteq> sid \<Longrightarrow>
   rows_of f_session_id sid (fork_fires (apply_op op st)) = rows_of f_session_id sid (fork_fires st)"
  by (cases op) (auto simp: session_ops table_ops Let_def case_prod_unfold intro!: fire.frame)

lemma spawns_frame:
  "op_session op \<noteq> sid \<Longrightarrow>
   rows_of p_session_id sid (fork_spawns (apply_op op st)) = rows_of p_session_id sid (fork_spawns st)"
  by (cases op) (auto simp: session_ops table_ops Let_def case_prod_unfold intro!: spwn.frame)

lemma deps_frame:
  "op_session op \<noteq> sid \<Longrightarrow>
   rows_of d_session_id sid (pending_deps (apply_op op st)) = rows_of d_session_id sid (pending_deps st)"
  by (cases op) (auto simp: session_ops table_ops Let_def case_prod_unfold intro!: deps.frame)

lemma session_rows_frame:
  "op_session op \<noteq> sid \<Longrightarrow> session_rows sid (apply_op op st) = session_rows sid st"
  by (simp add: session_rows_def sessions_frame roster_frame fires_frame spawns_frame deps_frame)

lemma session_rows_frames:
  "list_all (\<lambda>op. op_session op \<noteq> sid) ops \<Longrightarrow> session_rows sid (apply_ops ops st) = session_rows sid st"
  by (induction ops arbitrary: st) (simp_all add: apply_ops_def session_rows_frame)

text \<open>An operation of the session itself acts on these rows alone.\<close>

lemma session_rows_local:
  assumes "op_session op = sid" and "session_rows sid st = session_rows sid st'"
  shows "session_rows sid (apply_op op st) = session_rows sid (apply_op op st')"
proof -
  from assms(2) have rows: "rows_of s_session_id sid (sessions st) = rows_of s_session_id sid (sessions st')"
    "rows_of r_session_id sid (fork_roster st) = rows_of r_session_id sid (fork_roster st')"
    "rows_of f_session_id sid (fork_fires st) = rows_of f_session_id sid (fork_fires st')"
    "rows_of p_session_id sid (fork_spawns st) = rows_of p_session_id sid (fork_spawns st')"
    "rows_of d_session_id sid (pending_deps st) = rows_of d_session_id sid (pending_deps st')"
    by (simp_all add: session_rows_def)
  have spawn: "is_fork_spawn sid tool task st = is_fork_spawn sid tool task st'" for tool task
    by (simp only: reads_of_rows assms(2))
  show ?thesis
    using assms(1)
    by (cases op) (simp_all add: session_rows_def session_ops table_ops Let_def new_session_def case_prod_unfold
        sess.locals rost.locals fire.locals spwn.locals deps.locals rows spawn)
qed

text \<open>Among the operations of many sessions, a session sees its own only.\<close>

lemma session_rows_own:
  "session_rows sid (apply_ops ops st) = session_rows sid (apply_ops (filter (\<lambda>op. op_session op = sid) ops) st)"
proof (induction ops rule: rev_induct)
  case (snoc op ops)
  show ?case
  proof (cases "op_session op = sid")
    case True
    with session_rows_local [OF True snoc] show ?thesis by (simp add: apply_ops_def)
  next
    case False
    with snoc show ?thesis by (simp add: apply_ops_def session_rows_frame)
  qed
qed simp

section \<open>Facts that only closing the session undoes\<close>

text \<open>\<open>holds\<close> is a fact about the store, \<open>resets\<close> the operations that may undo it.\<close>

locale sticky =
  fixes step :: "'o \<Rightarrow> 's \<Rightarrow> 's" and holds :: "'s \<Rightarrow> bool" and resets :: "'o \<Rightarrow> bool"
  assumes keeps: "\<not> resets op \<Longrightarrow> holds s \<Longrightarrow> holds (step op s)"
begin

lemma keeps_all: "list_all (\<lambda>op. \<not> resets op) ops \<Longrightarrow> holds s \<Longrightarrow> holds (fold step ops s)"
  by (induction ops arbitrary: s) (simp_all add: keeps)

end

text \<open>A latch: taking it succeeds when it is free, and then it is taken.\<close>

locale once_latch = sticky step latched resets
  for step :: "'o \<Rightarrow> 's \<Rightarrow> 's" and latched :: "'s \<Rightarrow> bool" and resets :: "'o \<Rightarrow> bool" +
  fixes latch :: "i64 \<Rightarrow> 's \<Rightarrow> 's \<times> bool"
  assumes latch_result: "snd (latch t s) \<longleftrightarrow> \<not> latched s"
    and latch_sets: "latched (fst (latch t s))"
begin

lemma latch_again:
  "list_all (\<lambda>op. \<not> resets op) ops \<Longrightarrow> \<not> snd (latch t' (fold step ops (fst (latch t s))))"
  using keeps_all latch_sets by (simp add: latch_result)

end

lemma is_latched_iff:
  "is_latched sid name lbl st \<longleftrightarrow> (\<exists>r \<in> set (fork_fires st). fires_key r = (sid, name, lbl))"
  by (auto simp: is_latched_def tbl_simps)

lemma try_latch_fire_result: "snd (try_latch_fire sid name lbl t st) \<longleftrightarrow> \<not> is_latched sid name lbl st"
  by (simp add: try_latch_fire_def is_latched_iff case_prod_unfold tbl_simps)

lemma is_latched_try:
  "is_latched sid' name' lbl' (fst (try_latch_fire sid name lbl t st)) \<longleftrightarrow>
     is_latched sid' name' lbl' st \<or> (sid', name', lbl') = (sid, name, lbl)"
  by (auto simp: try_latch_fire_def is_latched_iff case_prod_unfold tbl_simps)

lemma is_latched_op:
  assumes "op \<noteq> CloseSession sid" and "is_latched sid name lbl st"
  shows "is_latched sid name lbl (apply_op op st)"
proof (cases op)
  case (CloseSession sid')
  with assms show ?thesis by (auto simp: is_latched_iff close_session_def update_session_def Let_def tbl_simps)
next
  case (TryLatchFire sid' name' lbl' t)
  with assms show ?thesis by (simp add: is_latched_try)
qed (use assms in \<open>simp_all add: is_latched_iff session_ops table_ops Let_def case_prod_unfold\<close>)

interpretation latch: once_latch apply_op "is_latched sid name lbl" "\<lambda>op. op = CloseSession sid"
    "\<lambda>t st. try_latch_fire sid name lbl t st" for sid name lbl
  by unfold_locales (simp_all add: is_latched_op try_latch_fire_result is_latched_try)

text \<open>A spawn that reached a terminal status keeps its name, that status and its time.\<close>

definition spawn_ended :: "string \<Rightarrow> string \<Rightarrow> string option \<Rightarrow> string \<Rightarrow> i64 \<Rightarrow> store \<Rightarrow> bool" where
  "spawn_ended sid tool name stat t st \<longleftrightarrow>
     (\<exists>r \<in> set (fork_spawns st). spawns_key r = (sid, tool) \<and> p_fork_name r = name
        \<and> p_status r = stat \<and> p_terminal_at r = Some t)"

lemma spawn_ended_op:
  assumes "op \<noteq> CloseSession sid" and "spawn_ended sid tool name stat t st" and "stat \<noteq> ''spawned''"
  shows "spawn_ended sid tool name stat t (apply_op op st)"
proof (cases op)
  case (SetSpawnTaskId sid' tool' task')
  then have eq: "fork_spawns (apply_op op st) =
      update_where (\<lambda>r. p_session_id r = sid' \<and> p_tool_use_id r = tool')
        (\<lambda>r. r\<lparr>p_task_id := coalesce (p_task_id r) (Some task')\<rparr>) (fork_spawns st)"
    by (simp add: set_spawn_task_id_def)
  show ?thesis
    using assms(2) unfolding spawn_ended_def eq by (rule update_where_keeps) simp
next
  case (MarkSpawnTerminal sid' tool' task' stat' t')
  have "\<exists>r \<in> set (update_where
      (\<lambda>r. p_session_id r = sid' \<and> p_status r = ''spawned'' \<and> spawn_ids_match tool' task' r)
      (\<lambda>r. r\<lparr>p_status := stat', p_terminal_at := Some t'\<rparr>) (fork_spawns st)).
    spawns_key r = (sid, tool) \<and> p_fork_name r = name \<and> p_status r = stat \<and> p_terminal_at r = Some t"
    using assms(2) unfolding spawn_ended_def by (rule update_where_keeps) (use assms(3) in simp)
  with assms(2) MarkSpawnTerminal show ?thesis by (simp add: spawn_ended_def mark_spawn_terminal_def)
qed (use assms in \<open>auto simp: spawn_ended_def session_ops table_ops Let_def case_prod_unfold tbl_simps\<close>)

interpretation ended: sticky apply_op
    "\<lambda>st. stat \<noteq> ''spawned'' \<and> spawn_ended sid tool name stat t st" "\<lambda>op. op = CloseSession sid"
    for sid tool name stat t
  by unfold_locales (simp add: spawn_ended_op)

text \<open>A queued fork keeps its place: path and queue time are those of its first queueing.\<close>

definition queued :: "string \<Rightarrow> string \<Rightarrow> path \<Rightarrow> i64 \<Rightarrow> store \<Rightarrow> bool" where
  "queued sid name p t st \<longleftrightarrow>
     (\<exists>r \<in> set (fork_roster st). roster_key r = (sid, name) \<and> r_fork_path r = p \<and> r_queued_at r = t)"

lemma queued_op:
  assumes "op \<noteq> CloseSession sid" and "queued sid name p t st"
  shows "queued sid name p t (apply_op op st)"
proof (cases op)
  case (TouchForkRan sid' name' t')
  then have eq: "fork_roster (apply_op op st) =
      update_where (\<lambda>r. r_session_id r = sid' \<and> r_fork_name r = name') (\<lambda>r. r\<lparr>r_ran_at := Some t'\<rparr>)
        (fork_roster st)"
    by (simp add: touch_fork_ran_def)
  show ?thesis
    using assms(2) unfolding queued_def eq by (rule update_where_keeps) simp
qed (use assms in \<open>auto simp: queued_def session_ops table_ops Let_def case_prod_unfold tbl_simps\<close>)

interpretation queue: sticky apply_op "queued sid name p t" "\<lambda>op. op = CloseSession sid"
    for sid name p t
  by unfold_locales (simp add: queued_op)

section \<open>Throttling by tag\<close>

text \<open>The start times of the project's runs that carry one of the tags.\<close>

definition tag_hits :: "path \<Rightarrow> string list \<Rightarrow> store \<Rightarrow> i64 set" where
  "tag_hits root tgs st =
     {n_started_at r | r s row_tags. r \<in> set (fork_runs st) \<and> s \<in> set (sessions st)
        \<and> s_session_id s = n_session_id r \<and> s_project_root s = root
        \<and> n_tags r = Some row_tags \<and> set (split_list row_tags) \<inter> set tgs \<noteq> {}}"

lemma set_map_filter: "set (List.map_filter f xs) = {y. \<exists>x \<in> set xs. f x = Some y}"
  by (induction xs) (auto simp: List.map_filter_simps split: option.split)

lemma set_tagged_runs:
  "(a, rt) \<in> set (tagged_runs root st) \<longleftrightarrow>
     (\<exists>r \<in> set (fork_runs st). \<exists>s \<in> set (sessions st). s_session_id s = n_session_id r
        \<and> s_project_root s = root \<and> n_tags r = Some rt \<and> n_started_at r = a)"
  by (auto simp: tagged_runs_def set_map_filter list_ex_iff split: if_splits)

lemma tag_hits_eq:
  "tag_hits root tgs st =
     fst ` {x \<in> set (tagged_runs root st). list_ex (\<lambda>rt. rt \<in> set tgs) (split_list (snd x))}"
  by (force simp: tag_hits_def set_tagged_runs list_ex_iff image_iff)

lemma find_sorted_Max:
  assumes "sorted (map (\<lambda>x. - fst x) xs)" and "find P xs = Some (x :: i64 \<times> 'b)"
  shows "fst x = Max (fst ` {y \<in> set xs. P y})"
proof -
  from assms(2) obtain i where i: "i < length xs" "x = xs ! i" "P x" "\<forall>j < i. \<not> P (xs ! j)"
    by (auto simp: find_Some_iff)
  have "fst y \<le> fst x" if "y \<in> set xs" "P y" for y
  proof -
    from that obtain j where j: "j < length xs" "y = xs ! j" by (auto simp: in_set_conv_nth)
    with that i have "i \<le> j" by (meson not_le)
    then show ?thesis
      using sorted_nth_mono [OF assms(1), of i j] i j by simp
  qed
  moreover have "x \<in> set xs" using i by simp
  ultimately show ?thesis
    using \<open>P x\<close> by (intro Max_eqI [symmetric]) auto
qed

text \<open>A per-tag throttle looks at the right run: \<open>last_run_for_tags\<close> returns the latest start
  among the recorded wakes of the project's forks that carry one of the tags, and nothing when there
  is none.\<close>

theorem last_run_for_tags_latest:
  "last_run_for_tags root tgs st =
     (if tag_hits root tgs st = {} then None else Some (Max (tag_hits root tgs st)))"
proof -
  let ?P = "\<lambda>x :: i64 \<times> string. list_ex (\<lambda>rt. rt \<in> set tgs) (split_list (snd x))"
  let ?xs = "sort_key (\<lambda>(started, _). - started) (tagged_runs root st)"
  have hits: "tag_hits root tgs st = fst ` {x \<in> set ?xs. ?P x}"
    by (simp add: tag_hits_eq)
  have sorted: "sorted (map (\<lambda>x. - fst x) ?xs)"
    using sorted_sort_key [of "\<lambda>x. - fst x" "tagged_runs root st"] by (simp add: case_prod_unfold)
  have eq: "last_run_for_tags root tgs st = (if tgs = [] then None else map_option fst (find ?P ?xs))"
    by (simp only: last_run_for_tags_def case_prod_unfold)
  have empty: "tgs = [] \<Longrightarrow> tag_hits root tgs st = {}"
    by (auto simp: tag_hits_def)
  show ?thesis
  proof (cases "find ?P ?xs")
    case None
    then have "tag_hits root tgs st = {}" unfolding hits by (auto simp: find_None_iff)
    then show ?thesis by (simp add: eq None)
  next
    case (Some x)
    then have "fst x = Max (tag_hits root tgs st)" unfolding hits by (rule find_sorted_Max [OF sorted])
    moreover have "fst x \<in> tag_hits root tgs st"
      using find_Some_elem [OF Some] unfolding hits by blast
    ultimately show ?thesis using empty by (auto simp: eq Some)
  qed
qed

section \<open>Properties\<close>

text \<open>After any history of store operations every table has at most one row per primary
  key, and the ids of the recorded runs are distinct.\<close>

theorem store_keys_unique: "store_ok (apply_ops ops empty_store)"
  by (rule store_ok_ops [OF store_ok_empty])

text \<open>C24. Sessions do not interfere: however the operations of many sessions are interleaved, what the
  store reports of a session (its row, roster, latches, fork spawns, completions and held dependents) is
  what its own operations alone, in their order, would have made it.\<close>

theorem session_isolation:
  "let all = apply_ops ops st; own = apply_ops (filter (\<lambda>op. op_session op = sid) ops) st
   in get_session sid all = get_session sid own \<and> roster sid all = roster sid own
    \<and> is_latched sid name lbl all = is_latched sid name lbl own
    \<and> is_fork_spawn sid tool task all = is_fork_spawn sid tool task own
    \<and> fork_completed_since sid name since all = fork_completed_since sid name since own
    \<and> list_pending_deps sid all = list_pending_deps sid own"
  unfolding Let_def by (simp only: reads_of_rows session_rows_own [of sid ops])

text \<open>A latch fires once: \<open>try_latch_fire\<close> succeeds exactly when the trigger is not latched
  yet, and after that no attempt succeeds, whatever operations run in between, until the session
  is closed.\<close>

theorem latch_fires_once:
  assumes "list_all (\<lambda>op. op \<noteq> CloseSession sid) ops"
  shows "snd (try_latch_fire sid name lbl t st) = (\<not> is_latched sid name lbl st)
    \<and> \<not> snd (try_latch_fire sid name lbl t'
           (apply_ops ops (fst (try_latch_fire sid name lbl t st))))"
  unfolding apply_ops_def using latch.latch_again [OF assms] by (simp add: try_latch_fire_result)

theorem latch_fires_once_witness:
  "\<not> snd (try_latch_fire ''s'' ''f'' ''idle@0'' 9
       (apply_ops [BumpPauseEpoch ''s'', CloseSession ''t'']
          (fst (try_latch_fire ''s'' ''f'' ''idle@0'' 5 empty_store))))"
  using latch_fires_once [of "''s''" "[BumpPauseEpoch ''s'', CloseSession ''t'']" "''f''" "''idle@0''"
      5 empty_store 9]
  by simp

text \<open>A fork is queued once per session: the first queueing puts it on the roster, and it
  keeps that path and queue time under every later operation (queueing it again included) until the
  session is closed.\<close>

theorem queue_fork_once:
  assumes "list_all (\<lambda>op. op \<noteq> CloseSession sid) ops" and "snd (queue_fork sid name p t st)"
  shows "queued sid name p t (apply_ops ops (fst (queue_fork sid name p t st)))
    \<and> \<not> snd (queue_fork sid name p' t' (apply_ops ops (fst (queue_fork sid name p t st))))"
proof -
  have "queued sid name p t (fst (queue_fork sid name p t st))"
    using assms(2) by (auto simp: queue_fork_def queued_def case_prod_unfold tbl_simps)
  from queue.keeps_all [OF assms(1) this] show ?thesis
    by (auto simp: apply_ops_def queue_fork_def queued_def case_prod_unfold tbl_simps)
qed

theorem queue_fork_once_witness:
  "queued ''s'' ''f'' ''/a/f.md'' 1
     (apply_ops [QueueFork ''s'' ''f'' ''/b/f.md'' 2, TouchForkRan ''s'' ''f'' 3]
        (fst (queue_fork ''s'' ''f'' ''/a/f.md'' 1 empty_store)))"
  using queue_fork_once [of "''s''" "[QueueFork ''s'' ''f'' ''/b/f.md'' 2, TouchForkRan ''s'' ''f'' 3]"
      "''f''" "''/a/f.md''" 1 empty_store]
  by (simp add: queue_fork_def insert_or_ignore_def empty_store_def)


lemma find_update_where:
  "(\<And>r. key (f r) = key r) \<Longrightarrow>
   find (\<lambda>r. key r = k) (update_where (\<lambda>r. key r = k) f tbl) = map_option f (find (\<lambda>r. key r = k) tbl)"
  by (induction tbl) (auto simp: update_where_def)

lemma find_append: "find P (xs @ ys) = (case find P xs of Some x \<Rightarrow> Some x | None \<Rightarrow> find P ys)"
  by (induction xs) auto

lemma get_update_session:
  assumes "\<And>r. s_session_id (f r) = s_session_id r"
  shows "get_session sid (update_session sid f st) =
    map_option (\<lambda>r. row_to_session (f r)) (find (\<lambda>r. s_session_id r = sid) (sessions st))"
  using find_update_where [of s_session_id f sid] assms
  by (simp add: get_session_def update_session_def option.map_comp comp_def)

lemma row_to_session_status [simp]: "session_status (row_to_session r) = s_status r"
  by (cases "s_status r") (simp_all add: row_to_session_def)

lemma session_id_row [simp]: "session_id (row_to_session r) = s_session_id r"
  by (simp add: row_to_session_def)

lemma set_list_open_sessions:
  "set (list_open_sessions st) = row_to_session ` {r \<in> set (sessions st). s_status r = Open}"
  by (auto simp: list_open_sessions_def)

lemma closed_rows:
  "list_all (\<lambda>r. s_session_id r = sid \<longrightarrow> s_status r = Closed) (sessions (close_session sid st))"
  by (simp add: close_session_def update_session_def update_where_def Let_def list_all_iff ball_Un)

text \<open>Closing a session marks it closed, takes it off the list of open sessions and clears its
  roster, latches, spawns and held dependents.\<close>

theorem close_session_clears:
  "get_session sid (close_session sid st) =
     map_option (\<lambda>r. r\<lparr>session_status := Closed\<rparr>) (get_session sid st)
   \<and> sid \<notin> session_id ` set (list_open_sessions (close_session sid st))
   \<and> roster sid (close_session sid st) = [] \<and> list_pending_deps sid (close_session sid st) = []
   \<and> \<not> is_latched sid name lbl (close_session sid st)
   \<and> \<not> is_fork_spawn sid tool task (close_session sid st)
   \<and> \<not> fork_completed_since sid name since (close_session sid st)"
proof -
  let ?u = "update_session sid (\<lambda>r. r\<lparr>s_status := Closed\<rparr>) st"
  have "get_session sid (close_session sid st) = get_session sid ?u"
    by (simp add: close_session_def get_session_def Let_def)
  also have "\<dots> = map_option (\<lambda>r. r\<lparr>session_status := Closed\<rparr>) (get_session sid st)"
    by (subst get_update_session)
      (simp_all add: get_session_def option.map_comp comp_def row_to_session_def)
  finally have 1: "get_session sid (close_session sid st) =
      map_option (\<lambda>r. r\<lparr>session_status := Closed\<rparr>) (get_session sid st)" .
  have 2: "sid \<notin> session_id ` set (list_open_sessions (close_session sid st))"
    using closed_rows [of sid st] by (fastforce simp: set_list_open_sessions list_all_iff)
  have "rows_of r_session_id sid (fork_roster (close_session sid st)) = []"
    "rows_of f_session_id sid (fork_fires (close_session sid st)) = []"
    "rows_of p_session_id sid (fork_spawns (close_session sid st)) = []"
    "rows_of d_session_id sid (pending_deps (close_session sid st)) = []"
    by (simp_all add: close_session_def Let_def rost.clear_session fire.clear_session
        spwn.clear_session deps.clear_session)
  then have "session_rows sid (close_session sid st) =
      (rows_of s_session_id sid (sessions (close_session sid st)), [], [], [], [])"
    by (simp add: session_rows_def)
  with 1 2 show ?thesis
    by (simp add: reads_of_rows(2-) select_count_def)
qed

lemma get_upsert_session:
  "get_session sid (upsert_session sid root dir tr mdl en dis t st) =
     Some (case get_session sid st of
             None \<Rightarrow> row_to_session (new_session sid root dir tr mdl en dis t)
           | Some r \<Rightarrow> r\<lparr>project_root := root, transcript_path := coalesce tr (transcript_path r),
                          session_status := Open, last_activity := t, model := coalesce mdl (model r),
                          enable_tags := split_tags en, disable_tags := split_tags dis\<rparr>)"
proof (cases "find (\<lambda>r. s_session_id r = sid) (sessions st)")
  case None
  then have "\<not> list_ex (\<lambda>r. s_session_id r = sid) (sessions st)"
    by (auto simp: find_None_iff list_ex_iff)
  then show ?thesis
    using None by (simp add: get_session_def upsert_session_def upsert_def new_session_def find_append)
next
  case (Some r)
  then have "list_ex (\<lambda>r. s_session_id r = sid) (sessions st)" "s_session_id r = sid"
    by (auto simp: list_ex_iff dest: find_Some_elem)
  then show ?thesis
    using Some
    by (simp add: get_session_def upsert_session_def upsert_def new_session_def find_update_where
        row_to_session_def)
qed

text \<open>The first event pins a session: touching a known session again keeps its working
  directory, creation time, pause epoch, pause baseline and transcript gauge, keeps the transcript
  path and model unless the event brings them, and takes the project root, the tag filters and the
  activity time from the event; an unknown session gets a fresh row.\<close>

theorem upsert_session_pins:
  "get_session sid (upsert_session sid root dir tr mdl en dis t st) =
     Some (case get_session sid st of
             None \<Rightarrow> row_to_session (new_session sid root dir tr mdl en dis t)
           | Some r \<Rightarrow> r\<lparr>project_root := root, transcript_path := coalesce tr (transcript_path r),
                          session_status := Open, last_activity := t, model := coalesce mdl (model r),
                          enable_tags := split_tags en, disable_tags := split_tags dis\<rparr>)"
  by (rule get_upsert_session)

text \<open>C26. Completions are final: a spawn that reached a terminal status keeps its first status and
  time under every later operation (later notifications included) until the session is closed, so
  a predecessor that has finished stays finished.\<close>

theorem completion_is_final:
  assumes "list_all (\<lambda>op. op \<noteq> CloseSession sid) ops"
    and "spawn_ended sid tool (Some name) stat t st" and "stat \<in> set [''completed'', ''failed'', ''stopped'']"
    and "since \<le> t"
  shows "spawn_ended sid tool (Some name) stat t (apply_ops ops st)
    \<and> fork_completed_since sid name since (apply_ops ops st)"
proof -
  have "stat \<noteq> ''spawned''" using assms(3) by auto
  with ended.keeps_all [OF assms(1)] assms(2)
  have ended: "spawn_ended sid tool (Some name) stat t (apply_ops ops st)"
    by (simp add: apply_ops_def)
  then show ?thesis
    using assms(3,4) by (auto simp: spawn_ended_def fork_completed_since_def tbl_simps)
qed

definition sample_spawned :: store where
  "sample_spawned =
     apply_ops [RecordSpawn ''s'' ''toolu'' (Some ''f'') 3,
                MarkSpawnTerminal ''s'' (Some ''toolu'') None ''completed'' 7] empty_store"

theorem completion_is_final_witness:
  "fork_completed_since ''s'' ''f'' 5
     (apply_ops [MarkSpawnTerminal ''s'' (Some ''toolu'') None ''failed'' 9] sample_spawned)"
proof -
  have "spawn_ended ''s'' ''toolu'' (Some ''f'') ''completed'' 7 sample_spawned"
    by (simp add: sample_spawned_def apply_ops_def empty_store_def record_spawn_def insert_or_ignore_def
        mark_spawn_terminal_def is_fork_spawn_def select_count_def spawn_ids_match_def
        update_where_def spawn_ended_def)
  then show ?thesis
    using completion_is_final [of "''s''" "[MarkSpawnTerminal ''s'' (Some ''toolu'') None ''failed'' 9]"
        "''toolu''" "''f''" "''completed''" 7 sample_spawned 5]
    by simp
qed

text \<open>What the store keeps of a held dependent: its predecessors survive the comma-joined column
  when none of their names has a comma or outer white space.\<close>

lemma row_to_dep_preds:
  "list_all clean_tag preds \<Longrightarrow>
   row_to_dep \<lparr>d_session_id = sid, d_fork_name = name, d_fork_path = p, d_trigger_label = lbl,
     d_overlap = ovl, d_preds = join_with '','' preds, d_created_at = t\<rparr> =
   \<lparr>pd_fork_name = name, pd_fork_path = p, pd_trigger_label = lbl, pd_overlap = ovl,
    pd_preds = preds, pd_created_at = t\<rparr>"
  by (simp add: row_to_dep_def split_tags_def split_list_join list_all_iff)

lemma pd_name_row: "pd_fork_name (row_to_dep r) = d_fork_name r"
  by (simp add: row_to_dep_def)

lemma set_list_pending_deps:
  "set (list_pending_deps sid st) = row_to_dep ` {r \<in> set (pending_deps st). d_session_id r = sid}"
  by (simp add: list_pending_deps_def)

lemma set_list_pending_deps_insert:
  "set (list_pending_deps sid (insert_pending_dep sid name p lbl ovl preds t st)) =
     insert (row_to_dep \<lparr>d_session_id = sid, d_fork_name = name, d_fork_path = p,
               d_trigger_label = lbl, d_overlap = ovl, d_preds = join_with '','' preds,
               d_created_at = t\<rparr>)
       {d \<in> set (list_pending_deps sid st). pd_fork_name d \<noteq> name}"
proof -
  let ?row = "\<lparr>d_session_id = sid, d_fork_name = name, d_fork_path = p, d_trigger_label = lbl,
      d_overlap = ovl, d_preds = join_with '','' preds, d_created_at = t\<rparr>"
  let ?old = "{r \<in> set (pending_deps st). d_session_id r = sid}"
  have "{r \<in> set (pending_deps (insert_pending_dep sid name p lbl ovl preds t st)). d_session_id r = sid} =
      {r \<in> insert ?row {r \<in> set (pending_deps st). deps_key r \<noteq> (sid, name)}. d_session_id r = sid}"
    by (simp add: insert_pending_dep_def tbl_simps)
  also have "\<dots> = insert ?row {r \<in> ?old. d_fork_name r \<noteq> name}"
    by auto
  finally have "set (list_pending_deps sid (insert_pending_dep sid name p lbl ovl preds t st)) =
      insert (row_to_dep ?row) (row_to_dep ` {r \<in> ?old. d_fork_name r \<noteq> name})"
    by (simp only: set_list_pending_deps image_insert)
  also have "row_to_dep ` {r \<in> ?old. d_fork_name r \<noteq> name} =
      {d \<in> set (list_pending_deps sid st). pd_fork_name d \<noteq> name}"
    unfolding set_list_pending_deps by (auto simp only: pd_name_row image_iff mem_Collect_eq)
  finally show ?thesis .
qed

text \<open>C27. A held dependent comes back as it was stored: after \<open>insert_pending_dep\<close> the session's
  held dependents are the earlier ones under other names and the new one, with the predecessors it
  was given, provided their names have no comma and no outer white space.\<close>

theorem pending_dep_roundtrip:
  assumes "list_all clean_tag preds"
  shows "set (list_pending_deps sid (insert_pending_dep sid name p lbl ovl preds t st)) =
    insert \<lparr>pd_fork_name = name, pd_fork_path = p, pd_trigger_label = lbl, pd_overlap = ovl,
            pd_preds = preds, pd_created_at = t\<rparr>
      {d \<in> set (list_pending_deps sid st). pd_fork_name d \<noteq> name}"
  by (simp only: set_list_pending_deps_insert row_to_dep_preds [OF assms])

theorem pending_dep_roundtrip_witness:
  "map pd_preds (list_pending_deps ''s''
     (insert_pending_dep ''s'' ''c'' ''/c.md'' ''idle'' False [''a'', ''b''] 4 empty_store)) = [[''a'', ''b'']]
   \<and> set (list_pending_deps ''s''
     (insert_pending_dep ''s'' ''c'' ''/c.md'' ''idle'' False [''a'', ''b''] 4 empty_store)) =
     {\<lparr>pd_fork_name = ''c'', pd_fork_path = ''/c.md'', pd_trigger_label = ''idle'', pd_overlap = False,
       pd_preds = [''a'', ''b''], pd_created_at = 4\<rparr>}"
proof -
  have clean: "list_all clean_tag [''a'', ''b'']"
    by (simp add: clean_tag_def trim_graphic ascii_graphic_def)
  have "map pd_preds (list_pending_deps ''s''
     (insert_pending_dep ''s'' ''c'' ''/c.md'' ''idle'' False [''a'', ''b''] 4 empty_store)) = [[''a'', ''b'']]"
    using row_to_dep_preds [OF clean]
    by (simp add: list_pending_deps_def insert_pending_dep_def insert_or_replace_def empty_store_def)
  moreover have "list_pending_deps ''s'' empty_store = []"
    by (simp add: list_pending_deps_def empty_store_def)
  ultimately show ?thesis
    using pending_dep_roundtrip [OF clean] by simp
qed

text \<open>A predecessor whose name has a comma comes back as two names that never complete.\<close>

lemma comma_splits_name:
  "map pd_preds (list_pending_deps ''s'' (insert_pending_dep ''s'' ''b'' ''/b.md'' ''idle'' False [''x,y''] 1 empty_store)) =
     [[''x'', ''y'']]"
  by code_simp

end
