(* ===== verification/Protocol.thy ===== *)
theory Protocol
  imports Store
begin

text \<open>
  The wire protocol between the command line and the daemon,
  \<open>crates/autofork-core/src/protocol.rs\<close>: the request and response frames as types, and the framing
  of one frame per line. Their JSON form is derived by serde; it is a parameter of \<open>encode_frame\<close>.
\<close>

definition PROTO_VERSION :: "32 word" where
  "PROTO_VERSION = 1"

datatype event_kind = EvSessionStart | EvPromptSubmit | EvStop | EvSessionEnd

record event =
  ev_kind :: event_kind
  ev_session_id :: string
  ev_transcript_path :: "path option"
  ev_cwd :: path
  ev_project_root :: path
  ev_source :: "string option"
  ev_model :: "string option"
  ev_enable_tags :: "string list option"
  ev_disable_tags :: "string list option"
  ev_waking :: "bool option"
  ev_notif_tool_use_id :: "string option"
  ev_notif_task_id :: "string option"
  ev_notif_status :: "string option"

datatype request_body =
    Hello string
  | EventReq event
  | StopWait event
  | Status
  | ListForks path path
  | Prune
  | Shutdown bool

record request =
  req_proto :: "32 word"
  req_id :: u64
  req_body :: request_body

datatype error_code = ProtoMismatch | BadRequest | NotFound | Internal

record session_info =
  si_session_id :: string
  si_project_root :: path
  si_status :: string
  si_last_activity :: i64
  si_prompt_tokens :: "u64 option"
  si_stale :: bool

record run_info =
  ri_fork :: string
  ri_trigger :: string
  ri_session_id :: string
  ri_state :: string
  ri_started_at :: i64

record fork_info =
  fi_name :: string
  fi_path :: path
  fi_description :: "string option"
  fi_triggers :: "string list"
  fi_throttle_secs :: "u64 option"
  fi_after :: "string list"
  fi_overlap :: bool
  fi_tags :: "string list"
  fi_warnings :: "string list"

record status_info =
  st_version :: string
  st_daemon_proto :: "32 word"
  st_pid :: "32 word"
  st_sessions :: "session_info list"
  st_recent_runs :: "run_info list"

datatype response_body =
    RespAck
  | RespHelloInfo string
  | RespWake string
  | RespWaited
  | RespStatusInfo status_info
  | RespForkList "fork_info list"
  | RespPruned "session_info list"
  | RespError error_code string

record response =
  resp_proto :: "32 word"
  resp_id :: u64
  resp_body :: response_body

text \<open>One frame per line; \<open>to_json\<close> is serde's serialisation, or its error.\<close>

definition encode_frame :: "('a \<Rightarrow> string + string) \<Rightarrow> 'a \<Rightarrow> string + string" where
  "encode_frame to_json frame = (case to_json frame of Inl e \<Rightarrow> Inl e | Inr s \<Rightarrow> Inr (s @ [nl]))"

end
