(* ===== verification/Durations.thy ===== *)
theory Durations
  imports Rust_Prelude
begin

text \<open>
  Durations, \<open>crates/autofork-core/src/duration.rs\<close>: a bare number is seconds, a string may end
  in \<open>s\<close>, \<open>m\<close>, \<open>h\<close> or \<open>d\<close>. The multiplication \<open>n * mult\<close> is the
  wrapping one of the release profile (a debug build panics there instead). The YAML value type
  is the public enum of serde\_yaml; what its parser returns is a parameter of the theories that
  read files.
\<close>

section \<open>YAML values\<close>

datatype ynumber = PosInt u64 | NegInt i64 | YFloat u64

datatype yaml =
    YNull
  | YBool bool
  | YNumber ynumber
  | YString string
  | YSequence "yaml list"
  | YMapping "(yaml \<times> yaml) list"
  | YTagged string yaml

fun number_as_u64 :: "ynumber \<Rightarrow> u64 option" where
  "number_as_u64 (PosInt n) = Some n"
| "number_as_u64 _ = None"

section \<open>The model\<close>

definition duration_unit :: "string \<Rightarrow> (string \<times> u64) option" where
  "duration_unit s =
     (if s = [] then None
      else if last s = CHR ''s'' then Some (butlast s, 1)
      else if last s = CHR ''m'' then Some (butlast s, 60)
      else if last s = CHR ''h'' then Some (butlast s, 3600)
      else if last s = CHR ''d'' then Some (butlast s, 86400)
      else if is_ascii_digit (last s) then Some (s, 1)
      else None)"

definition parse_duration_str :: "string \<Rightarrow> u64 option" where
  "parse_duration_str s =
     (case duration_unit (trim s) of
        None \<Rightarrow> None
      | Some (num, mult) \<Rightarrow> map_option (\<lambda>n. n * mult) (parse_u64 (trim num)))"

fun parse_duration_yaml :: "yaml \<Rightarrow> u64 option" where
  "parse_duration_yaml (YNumber n) = number_as_u64 n"
| "parse_duration_yaml (YString s) = parse_duration_str s"
| "parse_duration_yaml _ = None"

section \<open>Parsing what is printed\<close>

lemma show_u64_ends_graphic:
  "show_u64 n \<noteq> []" "ascii_graphic (hd (show_u64 n))" "ascii_graphic (last (show_u64 n))"
  using show_nat_digits [of _ "unat n"]
  by (auto simp: show_u64_def intro!: is_ascii_digit_graphic)

lemma trim_show_u64 [simp]: "trim (show_u64 n) = show_u64 n"
  by (rule trim_graphic) (simp_all add: show_u64_ends_graphic)

lemma trim_show_u64_suffix: "ascii_graphic c \<Longrightarrow> trim (show_u64 n @ [c]) = show_u64 n @ [c]"
  by (rule trim_graphic) (simp_all add: show_u64_ends_graphic)

lemma parse_duration_suffix:
  assumes "(c, m) \<in> {(CHR ''s'', 1), (CHR ''m'', 60), (CHR ''h'', 3600), (CHR ''d'', 86400)}"
  shows "parse_duration_str (show_u64 n @ [c]) = Some (n * m)"
proof -
  have "ascii_graphic c" using assms by (auto simp: ascii_graphic_def)
  moreover have "duration_unit (show_u64 n @ [c]) = Some (show_u64 n, m)"
    using assms by (auto simp: duration_unit_def)
  ultimately show ?thesis by (simp add: parse_duration_str_def trim_show_u64_suffix)
qed

lemma parse_duration_bare: "parse_duration_str (show_u64 n) = Some n"
proof -
  have "is_ascii_digit (last (show_u64 n))"
    using show_nat_digits [of "last (show_u64 n)" "unat n"] by (simp add: show_u64_def)
  then have "duration_unit (show_u64 n) = Some (show_u64 n, 1)"
    by (auto simp: duration_unit_def show_u64_def is_ascii_digit_def)
  then show ?thesis by (simp add: parse_duration_str_def)
qed

section \<open>Properties\<close>

text \<open>A printed number with a unit, or without one, parses back to that many seconds.\<close>

theorem parse_duration_units:
  "parse_duration_str (show_u64 n) = Some n \<and>
   parse_duration_str (show_u64 n @ ''s'') = Some n \<and>
   parse_duration_str (show_u64 n @ ''m'') = Some (n * 60) \<and>
   parse_duration_str (show_u64 n @ ''h'') = Some (n * 3600) \<and>
   parse_duration_str (show_u64 n @ ''d'') = Some (n * 86400)"
  by (simp add: parse_duration_bare parse_duration_suffix)

text \<open>C40. The product is taken modulo \<open>2 ^ 64\<close>: a number of days is read exactly if and only if
  its seconds fit in 64 bits; a larger one is accepted with a wrong value, never refused.\<close>

theorem parse_duration_days_exact_iff:
  "\<exists>v. parse_duration_str (show_u64 n @ ''d'') = Some v \<and>
       (unat v = unat n * 86400 \<longleftrightarrow> unat n * 86400 < 2 ^ 64)"
proof -
  have "unat (n * 86400) = (unat n * 86400) mod 2 ^ 64"
    by (simp add: unat_word_ariths)
  then have "unat (n * 86400) = unat n * 86400 \<longleftrightarrow> unat n * 86400 < 2 ^ 64"
    using unat_less_2p64 [of "n * 86400"] by (metis mod_less)
  then show ?thesis by (simp add: parse_duration_suffix)
qed

end
