(* ===== verification/Paths.thy ===== *)
theory Paths
  imports Rust_Prelude
begin

text \<open>
  Paths as \<open>std::path\<close> treats them on Unix, over their bytes: joining, parents, comparison by
  components, file stems. The file system is a record of the calls the program makes; what they
  return is a parameter of everything that reads files.
\<close>

section \<open>Paths\<close>

definition is_absolute :: "path \<Rightarrow> bool" where
  "is_absolute p \<longleftrightarrow> starts_with p ''/''"

definition path_join :: "path \<Rightarrow> path \<Rightarrow> path" where
  "path_join p q =
     (if is_absolute q then q
      else if p = [] \<or> last p = CHR ''/'' then p @ q
      else p @ ''/'' @ q)"

text \<open>A path's end without trailing separators and \<open>.\<close> components, over the reversed bytes; the
  root and a leading \<open>.\<close> stay.\<close>

fun trim_rev :: "string \<Rightarrow> string" where
  "trim_rev [] = []"
| "trim_rev [c] = [c]"
| "trim_rev (c # d # r) =
     (if c = CHR ''/'' then trim_rev (d # r)
      else if c = CHR ''.'' \<and> d = CHR ''/'' then (if r = [] then [d] else trim_rev r)
      else c # d # r)"

definition trim_path :: "path \<Rightarrow> path" where
  "trim_path p = rev (trim_rev (rev p))"

definition parent :: "path \<Rightarrow> path option" where
  "parent p =
     (let t = trim_path p
      in if t = [] \<or> t = ''/'' then None
         else Some (trim_path (rev (dropWhile (\<lambda>c. c \<noteq> CHR ''/'') (rev t)))))"

text \<open>Paths are compared by their components.\<close>

definition components :: "path \<Rightarrow> bool \<times> string list" where
  "components p =
     (let segs = split_on CHR ''/'' p
      in (is_absolute p,
          filter (\<lambda>s. s = ''.'') (take 1 segs) @ filter (\<lambda>s. s \<noteq> [] \<and> s \<noteq> ''.'') segs))"

definition path_eq :: "path \<Rightarrow> path \<Rightarrow> bool" where
  "path_eq p q \<longleftrightarrow> components p = components q"

definition file_name :: "path \<Rightarrow> string option" where
  "file_name p =
     (let segs = filter (\<lambda>s. s \<noteq> [] \<and> s \<noteq> ''.'') (split_on CHR ''/'' p)
      in if segs = [] \<or> last segs = ''..'' then None else Some (last segs))"

text \<open>The name up to its last dot, unless that is its first byte.\<close>

definition stem_of :: "string \<Rightarrow> string" where
  "stem_of name =
     (let pre = rev (dropWhile (\<lambda>c. c \<noteq> CHR ''.'') (rev name))
      in if length pre \<le> 1 then name else butlast pre)"

definition file_stem :: "path \<Rightarrow> string option" where
  "file_stem p = map_option stem_of (file_name p)"

section \<open>The file system\<close>

text \<open>\<open>read_to_string\<close> returns the error's message or the content; \<open>read_bytes\<close> is an opened
  file's content; \<open>read_dir\<close> lists the names in a directory.\<close>

record fs =
  read_to_string :: "path \<Rightarrow> string + string"
  read_bytes :: "path \<Rightarrow> string option"
  is_dir :: "path \<Rightarrow> bool"
  is_file :: "path \<Rightarrow> bool"
  path_exists :: "path \<Rightarrow> bool"
  read_dir :: "path \<Rightarrow> string list option"
  canonicalize :: "path \<Rightarrow> path option"

definition canonical_or_self :: "fs \<Rightarrow> path \<Rightarrow> path" where
  "canonical_or_self fs p = (case canonicalize fs p of Some q \<Rightarrow> q | None \<Rightarrow> p)"

section \<open>Ancestors\<close>

lemma length_trim_rev: "length (trim_rev r) \<le> length r"
  by (induction r rule: trim_rev.induct) auto

lemma length_trim_path: "length (trim_path p) \<le> length p"
  using length_trim_rev [of "rev p"] by (simp add: trim_path_def)

lemma trim_rev_head: "trim_rev r = CHR ''/'' # s \<Longrightarrow> s = []"
  by (induction r rule: trim_rev.induct) (auto split: if_splits)

lemma parent_shorter: "parent p = Some q \<Longrightarrow> length q < length p"
proof -
  assume q: "parent p = Some q"
  define t where "t = trim_rev (rev p)"
  have t: "t \<noteq> []" "t \<noteq> ''/''" "q = trim_path (rev (dropWhile (\<lambda>c. c \<noteq> CHR ''/'') t))"
    using q by (auto simp: parent_def trim_path_def t_def Let_def split: if_splits)
  then obtain c u where cu: "t = c # u" "c \<noteq> CHR ''/''"
    using trim_rev_head [of "rev p"] by (cases t) (auto simp: t_def)
  have "length q \<le> length (dropWhile (\<lambda>c. c \<noteq> CHR ''/'') t)"
    unfolding t(3) using length_trim_path [of "rev (dropWhile (\<lambda>c. c \<noteq> CHR ''/'') t)"] by simp
  also have "\<dots> < length t"
    using cu length_dropWhile_le [of "\<lambda>c. c \<noteq> CHR ''/''" u] by simp
  also have "\<dots> \<le> length p"
    using length_trim_rev [of "rev p"] by (simp add: t_def)
  finally show ?thesis .
qed

text \<open>A path and its parents, nearest first.\<close>

function ancestors :: "path \<Rightarrow> path list" where
  "ancestors p = p # (case parent p of None \<Rightarrow> [] | Some q \<Rightarrow> ancestors q)"
  by pat_completeness auto
termination
  by (relation "measure length") (auto simp: parent_shorter)

declare ancestors.simps [simp del]

text \<open>The loop \<open>while let Some(d) = cur\<close> that returns the first directory with a property.\<close>

function find_up :: "(path \<Rightarrow> bool) \<Rightarrow> path \<Rightarrow> path option" where
  "find_up P d = (if P d then Some d else (case parent d of None \<Rightarrow> None | Some q \<Rightarrow> find_up P q))"
  by pat_completeness auto
termination
  by (relation "measure (\<lambda>(_, d). length d)") (auto simp: parent_shorter)

declare find_up.simps [simp del]

lemma find_up_ancestors: "find_up P d = find P (ancestors d)"
proof (induction P d rule: find_up.induct)
  case (1 P d)
  then show ?case
    by (subst find_up.simps, subst ancestors.simps) (auto split: option.split)
qed

text \<open>The ancestors of an ancestor are the tail of the list that starts with it.\<close>

lemma ancestors_suffix:
  assumes "q \<in> set (ancestors p)"
  shows "\<exists>as. ancestors p = as @ ancestors q"
  using assms
proof (induction p rule: ancestors.induct)
  case (1 p)
  show ?case
  proof (cases "q = p")
    case True
    then show ?thesis by (intro exI [of _ "[]"]) simp
  next
    case False
    then obtain r where r: "parent p = Some r" "q \<in> set (ancestors r)"
      using 1(2) ancestors.simps [of p] by (auto split: option.splits)
    then obtain as where "ancestors r = as @ ancestors q" using 1(1) by blast
    then show ?thesis
      using r(1) by (subst ancestors.simps) (auto intro!: exI [of _ "p # as"])
  qed
qed

lemma hd_ancestors [simp]: "ancestors p \<noteq> []" "hd (ancestors p) = p"
  by (subst ancestors.simps, simp)+

end
