(* ===== verification/Config.thy ===== *)
theory Config
  imports Durations Paths
begin

text \<open>
  Configuration, \<open>crates/autofork-core/src/config.rs\<close>: project over user over defaults. The TOML
  parser is the parameter \<open>from_toml\<close> (its error message or the deserialised layer), over the
  value type of the toml crate. Warnings are returned as the source collects them. A map that the
  source iterates over is an association list in key order.
\<close>

section \<open>The model\<close>

datatype toml =
    TString string
  | TInteger i64
  | TFloat u64
  | TBoolean bool
  | TDatetime string
  | TArray "toml list"
  | TTable "(string \<times> toml) list"

record config =
  default_idle_deadline_secs :: u64
  session_timeout_secs :: u64
  quiet_period_secs :: u64
  wake_debounce_secs :: u64
  cfg_enable_tags :: "string list option"
  cfg_disable_tags :: "string list option"
  tag_throttles :: "string \<Rightarrow> u64 option"

definition default_config :: config where
  "default_config = \<lparr>default_idle_deadline_secs = 600, session_timeout_secs = 12 * 3600,
     quiet_period_secs = 20 * 60, wake_debounce_secs = 5, cfg_enable_tags = None,
     cfg_disable_tags = None, tag_throttles = Map.empty\<rparr>"

record raw_config =
  raw_default_idle_deadline :: "toml option"
  raw_session_timeout :: "toml option"
  raw_quiet_period :: "toml option"
  raw_wake_debounce :: "toml option"
  raw_enable_tags :: "string list option"
  raw_disable_tags :: "string list option"
  raw_tag_throttles :: "(string \<times> toml) list"
  raw_concurrency :: "toml option"
  raw_fork_timeout :: "toml option"
  raw_run_timeout :: "toml option"
  raw_claude_bin :: "toml option"
  raw_context_window :: "toml option"
  raw_models :: "(string \<times> toml) list"
  raw_report_ttl :: "toml option"
  raw_poll_budget_chars :: "toml option"
  raw_permission_mode_key :: "toml option"
  raw_isolation :: "toml option"

definition empty_raw_config :: raw_config where
  "empty_raw_config = \<lparr>raw_default_idle_deadline = None, raw_session_timeout = None,
     raw_quiet_period = None, raw_wake_debounce = None, raw_enable_tags = None,
     raw_disable_tags = None, raw_tag_throttles = [], raw_concurrency = None,
     raw_fork_timeout = None, raw_run_timeout = None, raw_claude_bin = None,
     raw_context_window = None, raw_models = [], raw_report_ttl = None,
     raw_poll_budget_chars = None, raw_permission_mode_key = None, raw_isolation = None\<rparr>"

definition GLOBAL_ONLY :: "string list" where
  "GLOBAL_ONLY = [''quiet_period'']"

fun toml_duration :: "toml \<Rightarrow> u64 option" where
  "toml_duration (TInteger n) = (if 0 \<le> n then Some (i64_as_u64 n) else None)"
| "toml_duration (TString s) = parse_duration_str s"
| "toml_duration _ = None"

definition parse_toml_duration :: "toml \<Rightarrow> string \<Rightarrow> string list \<Rightarrow> u64 option \<times> string list" where
  "parse_toml_duration v key ws =
     (let parsed = toml_duration v
      in (parsed,
          if parsed = None then ws @ [''invalid duration for '' @ sq key @ '', ignoring''] else ws))"

text \<open>The closure \<open>dur\<close> of \<open>apply_layer\<close>.\<close>

definition dur :: "bool \<Rightarrow> toml option \<Rightarrow> string \<Rightarrow> string list \<Rightarrow> u64 option \<times> string list" where
  "dur project_level v key ws =
     (if project_level \<and> key \<in> set GLOBAL_ONLY \<and> v \<noteq> None
      then (None, ws @ [sq key @ '' is global-only; ignoring project value''])
      else (case v of None \<Rightarrow> (None, ws) | Some v \<Rightarrow> parse_toml_duration v key ws))"

fun apply_throttles ::
  "(string \<times> toml) list \<Rightarrow> (string \<Rightarrow> u64 option) \<Rightarrow> string list \<Rightarrow> (string \<Rightarrow> u64 option) \<times> string list" where
  "apply_throttles [] m ws = (m, ws)"
| "apply_throttles ((tag, v) # rest) m ws =
     (case parse_toml_duration v (''tag_throttles.'' @ tag) ws of
        (Some secs, ws) \<Rightarrow> apply_throttles rest (m(tag \<mapsto> secs)) ws
      | (None, ws) \<Rightarrow> apply_throttles rest m ws)"

definition deprecated_keys :: "raw_config \<Rightarrow> (bool \<times> string) list" where
  "deprecated_keys raw =
     [(raw_concurrency raw \<noteq> None, ''concurrency''), (raw_fork_timeout raw \<noteq> None, ''fork_timeout''),
      (raw_run_timeout raw \<noteq> None, ''run_timeout''), (raw_claude_bin raw \<noteq> None, ''claude_bin''),
      (raw_context_window raw \<noteq> None, ''context_window''), (raw_models raw \<noteq> [], ''models''),
      (raw_report_ttl raw \<noteq> None, ''report_ttl''),
      (raw_poll_budget_chars raw \<noteq> None, ''poll_budget_chars''),
      (raw_permission_mode_key raw \<noteq> None, ''permission_mode''),
      (raw_isolation raw \<noteq> None, ''isolation'')]"

definition deprecated_warnings :: "raw_config \<Rightarrow> string list" where
  "deprecated_warnings raw =
     map (\<lambda>(_, key). sq key @ '' is no longer used since v0.5 (forks run as fork subagents), ignoring'')
       (filter fst (deprecated_keys raw))"

definition or_keep :: "'a option \<Rightarrow> 'a \<Rightarrow> 'a" where
  "or_keep v old = (case v of Some x \<Rightarrow> x | None \<Rightarrow> old)"

definition apply_layer :: "config \<Rightarrow> raw_config \<Rightarrow> bool \<Rightarrow> string list \<Rightarrow> config \<times> string list" where
  "apply_layer cfg raw project_level ws =
     (let (idle, ws) = dur project_level (raw_default_idle_deadline raw) ''default_idle_deadline'' ws;
          (timeout, ws) = dur project_level (raw_session_timeout raw) ''session_timeout'' ws;
          (quiet, ws) = dur project_level (raw_quiet_period raw) ''quiet_period'' ws;
          (debounce, ws) = dur project_level (raw_wake_debounce raw) ''wake_debounce'' ws;
          (throttles, ws) = apply_throttles (raw_tag_throttles raw) (tag_throttles cfg) ws
      in (cfg\<lparr>default_idle_deadline_secs := or_keep idle (default_idle_deadline_secs cfg),
              session_timeout_secs := or_keep timeout (session_timeout_secs cfg),
              quiet_period_secs := or_keep quiet (quiet_period_secs cfg),
              wake_debounce_secs := or_keep debounce (wake_debounce_secs cfg),
              cfg_enable_tags := (case raw_enable_tags raw of Some v \<Rightarrow> Some v | None \<Rightarrow> cfg_enable_tags cfg),
              cfg_disable_tags := (case raw_disable_tags raw of Some v \<Rightarrow> Some v | None \<Rightarrow> cfg_disable_tags cfg),
              tag_throttles := throttles\<rparr>,
          ws @ deprecated_warnings raw))"

definition load_layer ::
  "(string \<Rightarrow> string + raw_config) \<Rightarrow> fs \<Rightarrow> path \<Rightarrow> string list \<Rightarrow> raw_config option \<times> string list" where
  "load_layer from_toml fs p ws =
     (case read_to_string fs p of
        Inl _ \<Rightarrow> (None, ws)
      | Inr content \<Rightarrow>
          (case from_toml content of
             Inr raw \<Rightarrow> (Some raw, ws)
           | Inl e \<Rightarrow> (None, ws @ [''invalid config at '' @ p @ '': '' @ e])))"

definition with_layer ::
  "(string \<Rightarrow> string + raw_config) \<Rightarrow> fs \<Rightarrow> path \<Rightarrow> bool \<Rightarrow> config \<times> string list \<Rightarrow> config \<times> string list" where
  "with_layer from_toml fs p project_level cw =
     (case load_layer from_toml fs p (snd cw) of
        (Some raw, ws) \<Rightarrow> apply_layer (fst cw) raw project_level ws
      | (None, ws) \<Rightarrow> (fst cw, ws))"

abbreviation config_file :: "path \<Rightarrow> path" where
  "config_file dir \<equiv> path_join dir ''.autofork/config.toml''"

definition load_config ::
  "(string \<Rightarrow> string + raw_config) \<Rightarrow> fs \<Rightarrow> path option \<Rightarrow> path option \<Rightarrow> config \<times> string list" where
  "load_config from_toml fs root home =
     (let cw = (default_config, []);
          cw = (case home of Some h \<Rightarrow> with_layer from_toml fs (config_file h) False cw | None \<Rightarrow> cw)
      in (case root of
            None \<Rightarrow> cw
          | Some r \<Rightarrow>
              if (case home of Some h \<Rightarrow> path_eq (config_file h) (config_file r) | None \<Rightarrow> False) then cw
              else with_layer from_toml fs (config_file r) True cw))"

definition load_config_at ::
  "(string \<Rightarrow> string + raw_config) \<Rightarrow> fs \<Rightarrow> path option \<Rightarrow> path \<Rightarrow> config \<times> string list" where
  "load_config_at from_toml fs root user_config =
     (let cw = with_layer from_toml fs user_config False (default_config, [])
      in (case root of
            None \<Rightarrow> cw
          | Some r \<Rightarrow>
              if path_eq (config_file r) user_config then cw
              else with_layer from_toml fs (config_file r) True cw))"

section \<open>Locations\<close>

text \<open>The environment is a parameter: \<open>env var\<close> is the variable's value.\<close>

definition autofork_home :: "path \<Rightarrow> path" where
  "autofork_home home = path_join home ''.autofork''"

definition autofork_home_from_env :: "(string \<Rightarrow> string option) \<Rightarrow> path option" where
  "autofork_home_from_env env =
     (case env ''AUTOFORK_HOME'' of
        Some dir \<Rightarrow>
          if is_absolute dir then Some dir
          else map_option (\<lambda>h. path_join h ''.autofork'') (env ''HOME'')
      | None \<Rightarrow> map_option (\<lambda>h. path_join h ''.autofork'') (env ''HOME''))"

record paths =
  base :: path

definition paths_from_env :: "(string \<Rightarrow> string option) \<Rightarrow> paths option" where
  "paths_from_env env = map_option (\<lambda>b. \<lparr>base = b\<rparr>) (autofork_home_from_env env)"

definition absolute_env :: "(string \<Rightarrow> string option) \<Rightarrow> string \<Rightarrow> path option" where
  "absolute_env env var =
     (case env var of Some p \<Rightarrow> if is_absolute p then Some p else None | None \<Rightarrow> None)"

definition socket :: "(string \<Rightarrow> string option) \<Rightarrow> paths \<Rightarrow> path" where
  "socket env ps =
     (case absolute_env env ''AUTOFORK_SOCKET'' of
        Some p \<Rightarrow> p
      | None \<Rightarrow>
          (case absolute_env env ''XDG_RUNTIME_DIR'' of
             Some dir \<Rightarrow> path_join dir ''autofork.sock''
           | None \<Rightarrow> path_join (base ps) ''run/daemon.sock''))"

definition daemon_lock :: "paths \<Rightarrow> path" where
  "daemon_lock ps = path_join (base ps) ''run/daemon.lock''"

definition spawn_lock :: "paths \<Rightarrow> path" where
  "spawn_lock ps = path_join (base ps) ''run/spawn.lock''"

definition db_file :: "paths \<Rightarrow> path" where
  "db_file ps = path_join (base ps) ''state.db''"

definition daemon_log :: "paths \<Rightarrow> path" where
  "daemon_log ps = path_join (base ps) ''logs/daemon.log''"

definition user_config :: "paths \<Rightarrow> path" where
  "user_config ps = path_join (base ps) ''config.toml''"

section \<open>Layering\<close>

text \<open>What a file contributes: the layer it holds, when it can be read and parsed, and a layer's
  duration for a key, when it has one and it is valid.\<close>

definition layer_at :: "(string \<Rightarrow> string + raw_config) \<Rightarrow> fs \<Rightarrow> path \<Rightarrow> raw_config option" where
  "layer_at from_toml fs p =
     (case read_to_string fs p of
        Inl _ \<Rightarrow> None
      | Inr content \<Rightarrow> (case from_toml content of Inr raw \<Rightarrow> Some raw | Inl _ \<Rightarrow> None))"

definition layer_secs :: "(raw_config \<Rightarrow> toml option) \<Rightarrow> raw_config option \<Rightarrow> u64 option" where
  "layer_secs key layer = Option.bind (Option.bind layer key) toml_duration"

definition layered :: "'a option \<Rightarrow> 'a option \<Rightarrow> 'a \<Rightarrow> 'a" where
  "layered project user dflt = or_keep project (or_keep user dflt)"

lemma fst_dur:
  "fst (dur pl v key ws) = (if pl \<and> key \<in> set GLOBAL_ONLY then None else Option.bind v toml_duration)"
  by (auto simp: dur_def parse_toml_duration_def Let_def split: option.split)

lemma apply_throttles_eq:
  "distinct (map fst kvs) \<Longrightarrow>
   fst (apply_throttles kvs m ws) tag =
     (case Option.bind (map_of kvs tag) toml_duration of Some s \<Rightarrow> Some s | None \<Rightarrow> m tag)"
proof (induction kvs arbitrary: m ws)
  case (Cons kv kvs)
  obtain tag' v where kv: "kv = (tag', v)" by (cases kv)
  have IH: "fst (apply_throttles kvs m' ws') tag =
      (case Option.bind (map_of kvs tag) toml_duration of Some s \<Rightarrow> Some s | None \<Rightarrow> m' tag)" for m' ws'
    using Cons by simp
  have "tag = tag' \<Longrightarrow> map_of kvs tag = None"
    using Cons(2) by (simp add: kv map_of_eq_None_iff)
  then show ?case
    unfolding kv by (cases "toml_duration v") (auto simp: parse_toml_duration_def Let_def IH split: option.split)
qed simp

lemma apply_layer_fields:
  "fst (apply_layer cfg raw pl ws) =
     cfg\<lparr>default_idle_deadline_secs :=
           or_keep (layer_secs raw_default_idle_deadline (Some raw)) (default_idle_deadline_secs cfg),
         session_timeout_secs :=
           or_keep (layer_secs raw_session_timeout (Some raw)) (session_timeout_secs cfg),
         quiet_period_secs :=
           (if pl then quiet_period_secs cfg
            else or_keep (layer_secs raw_quiet_period (Some raw)) (quiet_period_secs cfg)),
         wake_debounce_secs :=
           or_keep (layer_secs raw_wake_debounce (Some raw)) (wake_debounce_secs cfg),
         cfg_enable_tags :=
           (case raw_enable_tags raw of Some v \<Rightarrow> Some v | None \<Rightarrow> cfg_enable_tags cfg),
         cfg_disable_tags :=
           (case raw_disable_tags raw of Some v \<Rightarrow> Some v | None \<Rightarrow> cfg_disable_tags cfg),
         tag_throttles := fst (apply_throttles (raw_tag_throttles raw) (tag_throttles cfg) [])\<rparr>"
proof -
  have ws: "fst (apply_throttles kvs m ws) = fst (apply_throttles kvs m [])" for kvs m ws
  proof (induction kvs arbitrary: m ws)
    case (Cons kv kvs)
    obtain tag v where kv: "kv = (tag, v)" by (cases kv)
    have IH: "fst (apply_throttles kvs m' ws') = fst (apply_throttles kvs m' ws'')" for m' ws' ws''
      using Cons [of m' ws'] Cons [of m' ws''] by simp
    show ?case
      unfolding kv by (cases "toml_duration v") (auto simp: parse_toml_duration_def Let_def intro: IH)
  qed simp
  show ?thesis
    using ws by (simp add: apply_layer_def case_prod_unfold Let_def fst_dur GLOBAL_ONLY_def layer_secs_def
        or_keep_def)
qed

lemma with_layer_fst:
  "\<exists>ws. fst (with_layer from_toml fs p pl cw) =
     (case layer_at from_toml fs p of None \<Rightarrow> fst cw | Some raw \<Rightarrow> fst (apply_layer (fst cw) raw pl ws))"
  by (auto simp: with_layer_def load_layer_def layer_at_def split: sum.split)


text \<open>C35. Configuration layers: with a project whose config file is not the user's, each duration
  is the project's where it is valid there, else the user's, else the default, except the quiet
  period, which no project sets; tag filters layer as a whole and tag throttles tag by tag.\<close>

theorem config_layers:
  assumes "\<not> path_eq (config_file root) uc"
    and "\<And>raw. P = Some raw \<or> U = Some raw \<Longrightarrow> distinct (map fst (raw_tag_throttles raw))"
    and "P = layer_at from_toml fs (config_file root)" and "U = layer_at from_toml fs uc"
  shows "fst (load_config_at from_toml fs (Some root) uc) =
    \<lparr>default_idle_deadline_secs =
       layered (layer_secs raw_default_idle_deadline P) (layer_secs raw_default_idle_deadline U) 600,
     session_timeout_secs =
       layered (layer_secs raw_session_timeout P) (layer_secs raw_session_timeout U) 43200,
     quiet_period_secs = or_keep (layer_secs raw_quiet_period U) 1200,
     wake_debounce_secs = layered (layer_secs raw_wake_debounce P) (layer_secs raw_wake_debounce U) 5,
     cfg_enable_tags =
       layered (map_option Some (Option.bind P raw_enable_tags))
         (map_option Some (Option.bind U raw_enable_tags)) None,
     cfg_disable_tags =
       layered (map_option Some (Option.bind P raw_disable_tags))
         (map_option Some (Option.bind U raw_disable_tags)) None,
     tag_throttles = (\<lambda>tag.
       layered (map_option Some (layer_secs (\<lambda>raw. map_of (raw_tag_throttles raw) tag) P))
         (map_option Some (layer_secs (\<lambda>raw. map_of (raw_tag_throttles raw) tag) U)) None)\<rparr>"
proof -
  let ?cw = "with_layer from_toml fs uc False (default_config, [])"
  obtain ws where u: "fst ?cw = (case U of None \<Rightarrow> default_config
      | Some raw \<Rightarrow> fst (apply_layer default_config raw False ws))"
    using with_layer_fst [of from_toml fs uc False "(default_config, [])"] unfolding fst_conv assms(4)
    by blast
  obtain ws' where p: "fst (load_config_at from_toml fs (Some root) uc) =
      (case P of None \<Rightarrow> fst ?cw | Some raw \<Rightarrow> fst (apply_layer (fst ?cw) raw True ws'))"
    using with_layer_fst [of from_toml fs "config_file root" True ?cw] assms(1,3)
    by (auto simp: load_config_at_def Let_def)
  have throttles: "P = Some raw \<or> U = Some raw \<Longrightarrow> fst (apply_throttles (raw_tag_throttles raw) m []) =
      (\<lambda>tag. layered (map_option Some (layer_secs (\<lambda>raw. map_of (raw_tag_throttles raw) tag) (Some raw)))
        None (m tag))" for raw m
    using assms(2) [of raw]
    by (auto simp: apply_throttles_eq layered_def or_keep_def layer_secs_def split: option.split)
  show ?thesis
    unfolding p u
    by (cases P; cases U)
      (simp_all add: apply_layer_fields throttles layered_def or_keep_def layer_secs_def
        default_config_def fun_eq_iff split: option.split)
qed

text \<open>A user file and a project file.\<close>

definition sample_config_fs :: fs where
  "sample_config_fs = \<lparr>read_to_string = (\<lambda>p. if p = ''/h/config.toml'' then Inr ''user''
       else if p = ''/p/.autofork/config.toml'' then Inr ''project'' else Inl ''not found''),
     read_bytes = (\<lambda>p. None), is_dir = (\<lambda>p. False), is_file = (\<lambda>p. False),
     path_exists = (\<lambda>p. False), read_dir = (\<lambda>p. None), canonicalize = (\<lambda>p. Some p)\<rparr>"

definition sample_toml :: "string \<Rightarrow> string + raw_config" where
  "sample_toml content =
     (if content = ''user''
      then Inr (empty_raw_config\<lparr>raw_quiet_period := Some (TInteger 60),
                  raw_tag_throttles := [(''a'', TInteger 1), (''b'', TInteger 2)]\<rparr>)
      else Inr (empty_raw_config\<lparr>raw_quiet_period := Some (TInteger 9),
                  raw_wake_debounce := Some (TInteger 0),
                  raw_tag_throttles := [(''b'', TInteger 7)]\<rparr>))"

theorem config_layers_witness:
  "let cfg = fst (load_config_at sample_toml sample_config_fs (Some ''/p'') ''/h/config.toml'')
   in quiet_period_secs cfg = 60 \<and> wake_debounce_secs cfg = 0 \<and> default_idle_deadline_secs cfg = 600
    \<and> tag_throttles cfg ''a'' = Some 1 \<and> tag_throttles cfg ''b'' = Some 7"
proof -
  have neq: "\<not> path_eq (config_file ''/p'') ''/h/config.toml''" by code_simp
  have cfile: "config_file ''/p'' = ''/p/.autofork/config.toml''" by code_simp
  let ?P = "empty_raw_config\<lparr>raw_quiet_period := Some (TInteger 9),
      raw_wake_debounce := Some (TInteger 0), raw_tag_throttles := [(''b'', TInteger 7)]\<rparr>"
  let ?U = "empty_raw_config\<lparr>raw_quiet_period := Some (TInteger 60),
      raw_tag_throttles := [(''a'', TInteger 1), (''b'', TInteger 2)]\<rparr>"
  have "layer_at sample_toml sample_config_fs (config_file ''/p'') = Some ?P"
    "layer_at sample_toml sample_config_fs ''/h/config.toml'' = Some ?U"
    unfolding cfile by (simp_all add: layer_at_def sample_config_fs_def sample_toml_def)
  note layers = config_layers [OF neq _ this [symmetric]]
  show ?thesis
    by (subst layers) (auto simp: layered_def or_keep_def layer_secs_def empty_raw_config_def i64_as_u64_def Let_def)
qed

definition live_keys :: "raw_config \<Rightarrow> raw_config" where
  "live_keys raw = empty_raw_config\<lparr>raw_default_idle_deadline := raw_default_idle_deadline raw,
     raw_session_timeout := raw_session_timeout raw, raw_quiet_period := raw_quiet_period raw,
     raw_wake_debounce := raw_wake_debounce raw, raw_enable_tags := raw_enable_tags raw,
     raw_disable_tags := raw_disable_tags raw, raw_tag_throttles := raw_tag_throttles raw\<rparr>"

text \<open>The keys that version 0.5 retired have no effect: a layer configures what the same layer
  without them does, and each one present is warned about.\<close>

theorem deprecated_keys_ignored:
  "fst (apply_layer cfg raw pl ws) = fst (apply_layer cfg (live_keys raw) pl ws)
   \<and> snd (apply_layer cfg raw pl ws) = snd (apply_layer cfg (live_keys raw) pl ws) @ deprecated_warnings raw
   \<and> length (deprecated_warnings raw) = length (filter fst (deprecated_keys raw))"
proof -
  have "deprecated_warnings (live_keys raw) = []"
    by (simp add: deprecated_warnings_def deprecated_keys_def live_keys_def empty_raw_config_def)
  then have "snd (apply_layer cfg raw pl ws) =
      snd (apply_layer cfg (live_keys raw) pl ws) @ deprecated_warnings raw"
    by (simp add: apply_layer_def case_prod_unfold Let_def) (simp add: live_keys_def)
  moreover have "fst (apply_layer cfg raw pl ws) = fst (apply_layer cfg (live_keys raw) pl ws)"
    by (simp add: apply_layer_fields layer_secs_def live_keys_def)
  ultimately show ?thesis
    by (simp add: deprecated_warnings_def)
qed

end
