(* ===== verification/Frontmatter.thy ===== *)
theory Frontmatter
  imports Durations Tags
begin

text \<open>
  The fork definition format, \<open>crates/autofork-core/src/frontmatter.rs\<close>: splitting a markdown
  file at its frontmatter and turning the deserialised frontmatter into a \<open>fork_def\<close> with
  warnings. \<open>serde_yaml::from_str\<close> is not part of the repository: it is the argument
  \<open>from_yaml\<close>, which returns the deserialised \<open>RawFork\<close> or fails. Warnings are threaded as
  the list the source mutates.
\<close>

section \<open>Data\<close>

datatype fork_run_on =
    Idle "u64 option"
  | ContextTokens u64
  | ContextUsedPct u8
  | ContextLeft u64
  | Compact
  | SessionStart
  | SessionEnd
  | ManualStop
  | Boot

record fork_def =
  description :: "string option"
  run_on :: "fork_run_on list"
  throttle_secs :: "u64 option"
  after :: "string list"
  overlap :: bool
  tags :: "string list"

definition default_run_on :: "fork_run_on list" where
  "default_run_on = [Idle None]"

definition default_fork_def :: fork_def where
  "default_fork_def = \<lparr>description = None, run_on = default_run_on, throttle_secs = None,
     after = [], overlap = False, tags = []\<rparr>"

fun label :: "fork_run_on \<Rightarrow> string" where
  "label (Idle None) = ''idle''"
| "label (Idle (Some s)) = ''idle:'' @ show_u64 s"
| "label (ContextTokens n) = ''context_tokens:'' @ show_u64 n"
| "label (ContextUsedPct p) = ''context_used:'' @ show_nat (unat p) @ ''%''"
| "label (ContextLeft n) = ''context_left:'' @ show_u64 n"
| "label Compact = ''compact''"
| "label SessionStart = ''session_start''"
| "label SessionEnd = ''session_end''"
| "label ManualStop = ''manual_stop''"
| "label Boot = ''boot''"

fun is_supported :: "fork_run_on \<Rightarrow> bool" where
  "is_supported (Idle _) = True"
| "is_supported (ContextTokens _) = True"
| "is_supported (ContextUsedPct _) = True"
| "is_supported (ContextLeft _) = True"
| "is_supported _ = False"

record raw_fork =
  raw_marker :: "yaml option"
  raw_description :: "string option"
  raw_run_on :: "yaml list option"
  raw_throttle :: "yaml option"
  raw_after :: "yaml option"
  raw_overlap :: "yaml option"
  raw_tags :: "yaml option"
  raw_delivery :: "yaml option"
  raw_model :: "yaml option"
  raw_allowed_tools :: "yaml option"
  raw_permission_mode :: "yaml option"
  raw_rag :: "yaml option"
  raw_triggers :: "yaml option"

definition empty_raw_fork :: raw_fork where
  "empty_raw_fork = \<lparr>raw_marker = None, raw_description = None, raw_run_on = None,
     raw_throttle = None, raw_after = None, raw_overlap = None, raw_tags = None,
     raw_delivery = None, raw_model = None, raw_allowed_tools = None,
     raw_permission_mode = None, raw_rag = None, raw_triggers = None\<rparr>"

record parsed_fork =
  def :: fork_def
  body :: string
  warnings :: "string list"

datatype fork_parse = Fork parsed_fork | NotFork bool | Invalid

section \<open>Values\<close>

text \<open>\<open>trim_end_matches('%')\<close>\<close>

definition trim_end_percent :: "string \<Rightarrow> string" where
  "trim_end_percent s = rev (dropWhile (\<lambda>c. c = CHR ''%'') (rev s))"

definition percent_in_range :: "u64 \<Rightarrow> u8 option" where
  "percent_in_range n = (if 1 \<le> n \<and> n \<le> 100 then Some (ucast n) else None)"

fun parse_percent :: "yaml \<Rightarrow> u8 option" where
  "parse_percent (YNumber n) = Option.bind (number_as_u64 n) percent_in_range"
| "parse_percent (YString s) =
     Option.bind (parse_u64 (trim (trim_end_percent (trim s)))) percent_in_range"
| "parse_percent _ = None"

fun parse_token_count :: "yaml \<Rightarrow> u64 option" where
  "parse_token_count (YNumber n) = number_as_u64 n"
| "parse_token_count (YString s) = parse_u64 (trim s)"
| "parse_token_count _ = None"

definition unknown_trigger :: "string \<Rightarrow> string" where
  "unknown_trigger other = ''unknown run_on trigger '' @ sq other @ '', skipping''"

definition parse_run_on_name :: "string \<Rightarrow> fork_run_on option" where
  "parse_run_on_name s =
     (if s = ''idle'' then Some (Idle None)
      else if s = ''compact'' \<or> s = ''compaction'' then Some Compact
      else if s = ''session_start'' then Some SessionStart
      else if s = ''session_end'' then Some SessionEnd
      else if s = ''manual_stop'' then Some ManualStop
      else if s = ''boot'' then Some Boot
      else None)"

text \<open>The value of a one-key map; \<open>None\<close> when the key is unknown.\<close>

definition parse_run_on_value :: "string \<Rightarrow> yaml \<Rightarrow> fork_run_on option option" where
  "parse_run_on_value key val =
     (if key = ''idle'' then Some (map_option (\<lambda>s. Idle (Some s)) (parse_duration_yaml val))
      else if key = ''context_tokens'' then Some (map_option ContextTokens (parse_token_count val))
      else if key = ''context_used'' then Some (map_option ContextUsedPct (parse_percent val))
      else if key = ''context_left'' then Some (map_option ContextLeft (parse_token_count val))
      else None)"

fun parse_run_on_entry :: "yaml \<Rightarrow> string list \<Rightarrow> fork_run_on option \<times> string list" where
  "parse_run_on_entry (YString s) ws =
     (case parse_run_on_name s of
        Some t \<Rightarrow> (Some t, ws)
      | None \<Rightarrow> (None, ws @ [unknown_trigger s]))"
| "parse_run_on_entry (YMapping [(YString key, val)]) ws =
     (case parse_run_on_value key val of
        None \<Rightarrow> (None, ws @ [unknown_trigger key])
      | Some None \<Rightarrow> (None, ws @ [''invalid run_on value for '' @ sq key @ '', skipping''])
      | Some (Some t) \<Rightarrow> (Some t, ws))"
| "parse_run_on_entry _ ws = (None, ws @ [''malformed run_on entry, skipping''])"

section \<open>The \<open>after\<close> list and the tags\<close>

text \<open>\<open>Value::as_str\<close> looks through tags.\<close>

fun as_str :: "yaml \<Rightarrow> string option" where
  "as_str (YString s) = Some s"
| "as_str (YTagged _ v) = as_str v"
| "as_str _ = None"

definition mapping_str :: "(yaml \<times> yaml) list \<Rightarrow> string \<Rightarrow> string option" where
  "mapping_str m k = Option.bind (map_of m (YString k)) as_str"

definition fork_msg :: "string \<Rightarrow> string \<Rightarrow> string" where
  "fork_msg name msg = ''fork '' @ sq name @ '': '' @ msg"

fun parse_after_entry :: "string \<Rightarrow> yaml \<Rightarrow> string list \<Rightarrow> string option \<times> string list" where
  "parse_after_entry name (YString s) ws =
     (if trim s \<noteq> [] then (Some (trim s), ws)
      else (None, ws @ [fork_msg name ''malformed after value, ignoring'']))"
| "parse_after_entry name (YMapping m) ws =
     (let ws1 = (if mapping_str m ''context'' \<noteq> None
                 then ws @ [fork_msg name (''after '' @ sq ''context'' @
                        '' is ignored since v0.5 (dependents inherit the parent session)'')]
                 else ws);
          dep = (case mapping_str m ''fork'' of Some s \<Rightarrow> Some s | None \<Rightarrow> mapping_str m ''skill'');
          dep1 = (case map_option trim dep of
                    Some s \<Rightarrow> if s \<noteq> [] then Some s else None
                  | None \<Rightarrow> None)
      in (dep1, if dep1 = None
                then ws1 @ [fork_msg name (''after entry is missing '' @ sq ''fork'' @ '', ignoring'')]
                else ws1))"
| "parse_after_entry name _ ws =
     (None, ws @ [fork_msg name ''malformed after value, ignoring''])"

fun after_loop :: "string \<Rightarrow> string list \<Rightarrow> string list \<Rightarrow> string list \<Rightarrow> string list \<times> string list" where
  "after_loop name [] out ws = (out, ws)"
| "after_loop name (dep # deps) out ws =
     (if dep = name
      then after_loop name deps out (ws @ [fork_msg name ''after references itself, ignoring''])
      else if list_ex (\<lambda>e. e = dep) out
      then after_loop name deps out
             (ws @ [fork_msg name (''duplicate after entry '' @ sq dep @ '', ignoring'')])
      else after_loop name deps (out @ [dep]) ws)"

text \<open>One entry, or a list of entries.\<close>

definition after_values :: "yaml \<Rightarrow> yaml list" where
  "after_values v = (case v of YSequence seq \<Rightarrow> seq | _ \<Rightarrow> [v])"

definition parse_after :: "string \<Rightarrow> yaml \<Rightarrow> string list \<Rightarrow> string list \<times> string list" where
  "parse_after name v ws =
     (case filter_map_st (parse_after_entry name) (after_values v) ws of
        (entries, ws1) \<Rightarrow> after_loop name entries [] ws1)"

fun tag_entries :: "string \<Rightarrow> yaml list \<Rightarrow> string list \<Rightarrow> string list \<Rightarrow> string list \<times> string list" where
  "tag_entries name [] out ws = (out, ws)"
| "tag_entries name (YString s # es) out ws = tag_entries name es (push_split s out) ws"
| "tag_entries name (_ # es) out ws =
     tag_entries name es out (ws @ [fork_msg name ''tags entry is not a string, skipping''])"

fun parse_tags :: "string \<Rightarrow> yaml \<Rightarrow> string list \<Rightarrow> string list \<times> string list" where
  "parse_tags name (YString s) ws = (push_split s [], ws)"
| "parse_tags name (YSequence seq) ws = tag_entries name seq [] ws"
| "parse_tags name YNull ws = ([], ws)"
| "parse_tags name _ ws =
     ([], ws @ [fork_msg name ''tags must be a string or a list of strings, ignoring''])"

section \<open>Splitting the file\<close>

lemma find_sub_bound: "find_sub p (drop k s) = Some i \<Longrightarrow> p \<noteq> [] \<Longrightarrow> k + i + length p \<le> length s"
  using find_sub_Some [of p "drop k s" i] by (cases "k \<le> length s") auto

text \<open>The search for the closing line, from the offset \<open>search_from\<close>.\<close>

function close_search :: "string \<Rightarrow> nat \<Rightarrow> (string \<times> string) option" where
  "close_search rest search_from =
     (case find_sub (nl # ''---'') (drop search_from rest) of
        None \<Rightarrow> None
      | Some pos \<Rightarrow>
          (let end_at = search_from + pos;
               front0 = take end_at rest;
               front = (case strip_suffix front0 [cr] of Some f \<Rightarrow> f | None \<Rightarrow> front0);
               tail0 = drop (end_at + 4) rest;
               tail = (case strip_prefix tail0 [cr] of Some t \<Rightarrow> t | None \<Rightarrow> tail0)
           in if tail = [] then Some (front, [])
              else (case strip_prefix tail [nl] of
                      Some rest_body \<Rightarrow> Some (front, rest_body)
                    | None \<Rightarrow> close_search rest (end_at + 4))))"
  by pat_completeness auto
termination
  by (relation "measure (\<lambda>(rest, from). length rest - from)")
    (auto dest!: find_sub_bound)

declare close_search.simps [simp del]

definition split_frontmatter :: "string \<Rightarrow> string option \<times> string" where
  "split_frontmatter content =
     (case strip_prefix content ''---'' of
        None \<Rightarrow> (None, content)
      | Some rest0 \<Rightarrow>
          (case (case strip_prefix rest0 [cr, nl] of
                   Some r \<Rightarrow> Some r
                 | None \<Rightarrow> strip_prefix rest0 [nl]) of
             None \<Rightarrow> (None, content)
           | Some rest \<Rightarrow>
               (case close_search rest 0 of
                  Some (front, rest_body) \<Rightarrow> (Some front, rest_body)
                | None \<Rightarrow> (None, content))))"

section \<open>The whole file\<close>

definition is_marked :: "raw_fork \<Rightarrow> bool" where
  "is_marked raw \<longleftrightarrow> raw_marker raw = Some (YBool True)"

definition has_fork_like_keys :: "raw_fork \<Rightarrow> bool" where
  "has_fork_like_keys raw \<longleftrightarrow>
     raw_description raw \<noteq> None \<or> raw_run_on raw \<noteq> None \<or> raw_throttle raw \<noteq> None \<or>
     raw_after raw \<noteq> None \<or> raw_overlap raw \<noteq> None \<or> raw_tags raw \<noteq> None \<or>
     raw_delivery raw \<noteq> None \<or> raw_model raw \<noteq> None \<or> raw_allowed_tools raw \<noteq> None \<or>
     raw_permission_mode raw \<noteq> None"

definition ignored_key_warnings :: "string \<Rightarrow> raw_fork \<Rightarrow> string list" where
  "ignored_key_warnings name raw =
     (if raw_rag raw \<noteq> None \<or> raw_triggers raw \<noteq> None
      then [fork_msg name ''RAG keys are not part of the fork format, ignoring''] else []) @
     (if raw_delivery raw \<noteq> None \<or> raw_model raw \<noteq> None
      then [fork_msg name (''v0.5 ignores '' @ sq ''delivery'' @ '' and '' @ sq ''model'' @ '' '' @
              em_dash @ '' delivery is native and the fork inherits the session'' @ [CHR 0x27] @
              ''s model'')] else []) @
     (if raw_allowed_tools raw \<noteq> None \<or> raw_permission_mode raw \<noteq> None
      then [fork_msg name (''v0.5 ignores '' @ sq ''allowed_tools'' @ '' and '' @
              sq ''permission_mode'' @ '' '' @ em_dash @
              '' a fork inherits the session'' @ [CHR 0x27] @ ''s permissions'')] else [])"

definition parse_throttle :: "string \<Rightarrow> yaml option \<Rightarrow> string list \<Rightarrow> u64 option \<times> string list" where
  "parse_throttle name v ws =
     (case v of
        None \<Rightarrow> (None, ws)
      | Some y \<Rightarrow>
          (case parse_duration_yaml y of
             Some n \<Rightarrow>
               if 0 < n then (Some n, ws)
               else (None, ws @ [fork_msg name ''invalid throttle value, ignoring''])
           | None \<Rightarrow> (None, ws @ [fork_msg name ''invalid throttle value, ignoring''])))"

definition parse_run_on ::
    "string \<Rightarrow> yaml list option \<Rightarrow> string list \<Rightarrow> fork_run_on list \<times> string list" where
  "parse_run_on name v ws =
     (case v of
        None \<Rightarrow> (default_run_on, ws)
      | Some entries \<Rightarrow>
          (case filter_map_st parse_run_on_entry entries ws of
             (parsed, ws1) \<Rightarrow>
               if parsed = []
               then (default_run_on,
                     ws1 @ [fork_msg name ''run_on has no valid triggers; using the defaults''])
               else (parsed, ws1)))"

fun warn_unsupported :: "string \<Rightarrow> fork_run_on list \<Rightarrow> string list \<Rightarrow> string list \<Rightarrow> string list" where
  "warn_unsupported name [] seen ws = ws"
| "warn_unsupported name (t # ts) seen ws =
     (if \<not> is_supported t \<and> \<not> list_ex (\<lambda>l. l = label t) seen
      then warn_unsupported name ts (seen @ [label t])
             (ws @ [fork_msg name (''run_on '' @ sq (label t) @
                      '' is not supported since v0.5, ignoring'')])
      else warn_unsupported name ts seen ws)"

definition never_fires_warning :: "string \<Rightarrow> string" where
  "never_fires_warning name =
     fork_msg name ''no supported run_on moments (idle / context_*); it will never fire''"

definition parse_overlap :: "string \<Rightarrow> yaml option \<Rightarrow> string list \<Rightarrow> bool \<times> string list" where
  "parse_overlap name v ws =
     (case v of
        None \<Rightarrow> (False, ws)
      | Some (YBool b) \<Rightarrow> (b, ws)
      | Some _ \<Rightarrow> (False, ws @ [fork_msg name ''overlap must be true or false; using false'']))"

definition parse_marked :: "string \<Rightarrow> raw_fork \<Rightarrow> string \<Rightarrow> parsed_fork" where
  "parse_marked name raw file_body =
     (let ws0 = ignored_key_warnings name raw;
          (throttle, ws1) = parse_throttle name (raw_throttle raw) ws0;
          (triggers, ws2) = parse_run_on name (raw_run_on raw) ws1;
          ws3 = warn_unsupported name triggers [] ws2;
          ws4 = (if list_ex is_supported triggers then ws3 else ws3 @ [never_fires_warning name]);
          (deps, ws5) = (case raw_after raw of None \<Rightarrow> ([], ws4) | Some v \<Rightarrow> parse_after name v ws4);
          (ovl, ws6) = parse_overlap name (raw_overlap raw) ws5;
          (tgs, ws7) = (case raw_tags raw of None \<Rightarrow> ([], ws6) | Some v \<Rightarrow> parse_tags name v ws6)
      in \<lparr>def = \<lparr>description = (case raw_description raw of
                                Some d \<Rightarrow> if trim d \<noteq> [] then Some d else None
                              | None \<Rightarrow> None),
               run_on = triggers, throttle_secs = throttle, after = deps,
               overlap = ovl, tags = tgs\<rparr>,
          body = file_body, warnings = ws7\<rparr>)"

definition parse_fork_file :: "(string \<Rightarrow> raw_fork option) \<Rightarrow> string \<Rightarrow> string \<Rightarrow> fork_parse" where
  "parse_fork_file from_yaml name content =
     (case split_frontmatter content of
        (None, _) \<Rightarrow> NotFork False
      | (Some front, file_body) \<Rightarrow>
          (case from_yaml front of
             None \<Rightarrow> Invalid
           | Some raw \<Rightarrow>
               if \<not> is_marked raw
               then NotFork (raw_marker raw \<noteq> Some (YBool False) \<and> has_fork_like_keys raw)
               else Fork (parse_marked name raw file_body)))"

section \<open>Lemmas\<close>

lemma label_inj [simp]: "label t = label u \<longleftrightarrow> t = u"
proof
  assume "label t = label u"
  then show "t = u"
    by (cases t rule: label.cases; cases u rule: label.cases) (auto simp: word_unat_eq_iff)
qed simp

lemma percent_in_range_bounds:
  "percent_in_range n = Some p \<Longrightarrow> 1 \<le> unat p \<and> unat p \<le> 100 \<and> unat p = unat n"
proof -
  assume "percent_in_range n = Some p"
  then have p: "p = ucast n" and "1 \<le> unat n" and hi: "unat n \<le> 100"
    by (auto simp: percent_in_range_def word_le_nat_alt split: if_splits)
  moreover have "unat p = unat n"
    using hi unfolding p by (simp add: unsigned_ucast_eq unsigned_take_bit_eq take_bit_nat_eq_self)
  ultimately show ?thesis by simp
qed

lemma parse_percent_bounds: "parse_percent v = Some p \<Longrightarrow> 1 \<le> unat p \<and> unat p \<le> 100"
  by (cases v) (auto simp: bind_eq_Some_conv dest: percent_in_range_bounds)

lemma parse_run_on_entry_pct:
  "fst (parse_run_on_entry v ws) = Some (ContextUsedPct p) \<Longrightarrow> 1 \<le> unat p \<and> unat p \<le> 100"
  by (cases "(v, ws)" rule: parse_run_on_entry.cases)
    (auto simp: parse_run_on_name_def parse_run_on_value_def dest: parse_percent_bounds
      split: option.splits if_splits)

lemma parse_run_on_ok:
  assumes "parse_run_on name v ws = (ts, ws1)"
  shows "ts \<noteq> []" and "ContextUsedPct p \<in> set ts \<Longrightarrow> 1 \<le> unat p \<and> unat p \<le> 100"
proof -
  from assms show "ts \<noteq> []"
    by (auto simp: parse_run_on_def default_run_on_def split: option.splits prod.splits if_splits)
  assume "ContextUsedPct p \<in> set ts"
  with assms have "ContextUsedPct p \<in> set (fst (filter_map_st parse_run_on_entry (the v) ws))"
    by (auto simp: parse_run_on_def default_run_on_def
        split: option.splits prod.splits if_splits)
  from filter_map_st_elem [OF this] show "1 \<le> unat p \<and> unat p \<le> 100"
    by (auto dest: parse_run_on_entry_pct)
qed

lemma parse_throttle_ok: "parse_throttle name v ws = (r, ws1) \<Longrightarrow> r \<noteq> Some 0"
  by (auto simp: parse_throttle_def split: option.splits if_splits)

lemma parse_after_entry_clean:
  "fst (parse_after_entry name v ws) = Some a \<Longrightarrow> a \<noteq> [] \<and> trim a = a"
  by (cases "(name, v, ws)" rule: parse_after_entry.cases)
    (auto simp: Let_def split: option.splits if_splits)

lemma after_loop_props:
  assumes "after_loop name deps out ws = (r, ws1)" and "distinct out" and "name \<notin> set out"
  shows "distinct r" and "name \<notin> set r" and "set r = set out \<union> (set deps - {name})"
  using assms
  by (induction name deps out ws rule: after_loop.induct) (auto simp: list_ex_iff split: if_splits)

lemma parse_after_ok:
  assumes "parse_after name v ws = (r, ws1)"
  shows "distinct r" and "name \<notin> set r" and "a \<in> set r \<Longrightarrow> a \<noteq> [] \<and> trim a = a"
proof -
  from assms obtain es entries ws0 where
    e: "filter_map_st (parse_after_entry name) es ws = (entries, ws0)"
    and l: "after_loop name entries [] ws0 = (r, ws1)"
    by (auto simp: parse_after_def split: prod.splits)
  from after_loop_props [OF l] show "distinct r" and "name \<notin> set r" by simp_all
  assume "a \<in> set r"
  with after_loop_props(3) [OF l] have "a \<in> set (fst (filter_map_st (parse_after_entry name) es ws))"
    by (simp add: e)
  from filter_map_st_elem [OF this] show "a \<noteq> [] \<and> trim a = a"
    by (auto dest: parse_after_entry_clean)
qed

lemma tag_entries_ok:
  assumes "tag_entries name es out ws = (r, ws1)" and "distinct out" and "\<forall>t \<in> set out. clean_tag t"
  shows "distinct r \<and> (\<forall>t \<in> set r. clean_tag t)"
  using assms
  by (induction name es out ws rule: tag_entries.induct)
    (simp_all add: push_split_props(1) push_split_clean)

lemma parse_tags_ok:
  assumes "parse_tags name v ws = (r, ws1)"
  shows "distinct r" and "\<forall>t \<in> set r. clean_tag t"
  using assms push_split_clean [of "[]"] tag_entries_ok [where out = "[]", OF sym]
  by (auto simp: push_split_props(1) elim!: parse_tags.elims)

text \<open>What the planner may assume of a parsed definition.\<close>

definition fork_def_ok :: "string \<Rightarrow> fork_def \<Rightarrow> bool" where
  "fork_def_ok name d \<longleftrightarrow>
     run_on d \<noteq> [] \<and> (\<forall>p. ContextUsedPct p \<in> set (run_on d) \<longrightarrow> 1 \<le> unat p \<and> unat p \<le> 100) \<and>
     throttle_secs d \<noteq> Some 0 \<and>
     distinct (after d) \<and> name \<notin> set (after d) \<and> (\<forall>a \<in> set (after d). a \<noteq> [] \<and> trim a = a) \<and>
     distinct (tags d) \<and> (\<forall>t \<in> set (tags d). clean_tag t) \<and>
     (\<forall>s. description d = Some s \<longrightarrow> trim s \<noteq> [])"

lemma parse_marked_ok: "fork_def_ok name (def (parse_marked name raw b))"
proof -
  let ?p = "parse_marked name raw b"
  have r: "\<exists>v w w1. parse_run_on name v w = (run_on (def ?p), w1)"
    and t: "\<exists>v w w1. parse_throttle name v w = (throttle_secs (def ?p), w1)"
    and a: "after (def ?p) = [] \<or> (\<exists>v w w1. parse_after name v w = (after (def ?p), w1))"
    and g: "tags (def ?p) = [] \<or> (\<exists>v w w1. parse_tags name v w = (tags (def ?p), w1))"
    and d: "description (def ?p) = Some s \<Longrightarrow> trim s \<noteq> []" for s
    by (auto simp: parse_marked_def Let_def split: prod.splits option.splits if_splits)
  have "run_on (def ?p) \<noteq> []"
    and "ContextUsedPct q \<in> set (run_on (def ?p)) \<Longrightarrow> 1 \<le> unat q \<and> unat q \<le> 100" for q
    using r parse_run_on_ok by blast+
  moreover have "throttle_secs (def ?p) \<noteq> Some 0" using t parse_throttle_ok by blast
  moreover have "distinct (after (def ?p))" and "name \<notin> set (after (def ?p))"
    using a parse_after_ok(1,2) by fastforce+
  moreover have "x \<noteq> [] \<and> trim x = x" if "x \<in> set (after (def ?p))" for x
    using a parse_after_ok(3) that by fastforce
  moreover have "distinct (tags (def ?p))" and "\<forall>t \<in> set (tags (def ?p)). clean_tag t"
    using g parse_tags_ok by fastforce+
  ultimately show ?thesis using d by (simp add: fork_def_ok_def)
qed

lemma close_search_here:
  assumes "\<not> contains front (nl # ''---'')" and "\<not> ends_with front [cr]"
  shows "close_search (front @ nl # ''---'' @ nl # b) 0 = Some (front, b)"
proof -
  have "find_sub (nl # ''---'') (front @ (nl # ''---'') @ nl # b) = Some (length front)"
  proof (rule find_sub_here)
    fix i
    assume i: "i < length front"
    show "\<not> starts_with (drop i front @ (nl # ''---'') @ nl # b) (nl # ''---'')"
    proof
      assume s: "starts_with (drop i front @ (nl # ''---'') @ nl # b) (nl # ''---'')"
      show False
      proof (cases "i + 4 \<le> length front")
        case True
        with s have "starts_with (drop i front) (nl # ''---'')"
          by (simp add: starts_with_def)
        then obtain t where "drop i front = (nl # ''---'') @ t" by (auto simp: starts_with_iff)
        then have "front = take i front @ (nl # ''---'') @ t" by (metis append_take_drop_id)
        with assms(1) show False by (metis contains_append)
      next
        case False
        then obtain k where k: "length (drop i front) = Suc k" "Suc k \<le> 3"
          using i by (cases "length (drop i front)") auto
        have "(drop i front @ (nl # ''---'') @ nl # b) ! Suc k = nl"
          using k(1) by (simp add: nth_append)
        moreover have "(drop i front @ (nl # ''---'') @ nl # b) ! Suc k = (nl # ''---'') ! Suc k"
          using k(2) by (intro starts_with_nth [OF s]) simp
        moreover have "(nl # ''---'') ! Suc k = CHR ''-''"
          using k(2) by (auto simp: le_Suc_eq numeral_3_eq_3)
        ultimately show False by simp
      qed
    qed
  qed
  then show ?thesis
    using assms(2)
    by (auto simp: close_search.simps [of _ 0] Let_def strip_suffix_def strip_prefix_def)
qed

section \<open>Properties\<close>

text \<open>A file is a fork if and only if it has a frontmatter block that deserialises and carries
  \<open>fork: true\<close>; a plain note and a \<open>fork: false\<close> file are skipped silently.\<close>

theorem parse_fork_file_marker:
  "((\<exists>p. parse_fork_file from_yaml name content = Fork p) \<longleftrightarrow>
     (\<exists>front raw. fst (split_frontmatter content) = Some front \<and> from_yaml front = Some raw \<and>
        raw_marker raw = Some (YBool True))) \<and>
   (parse_fork_file from_yaml name content = NotFork True \<longleftrightarrow>
     (\<exists>front raw. fst (split_frontmatter content) = Some front \<and> from_yaml front = Some raw \<and>
        raw_marker raw \<notin> {Some (YBool True), Some (YBool False)} \<and> has_fork_like_keys raw))"
  by (auto simp: parse_fork_file_def is_marked_def
      split: prod.splits option.splits if_splits)

text \<open>A parser that returns one fixed frontmatter, for the witnesses.\<close>

definition sample_raw :: raw_fork where
  "sample_raw = empty_raw_fork\<lparr>raw_marker := Some (YBool True),
     raw_run_on := Some [YString ''idle'', YMapping [(YString ''context_used'', YString ''80%'')]],
     raw_throttle := Some (YString ''30m''), raw_after := Some (YSequence [YString ''a'', YString ''b'']),
     raw_tags := Some (YString ''ci, docs'')\<rparr>"

definition sample_fork_file :: string where
  "sample_fork_file = ''---'' @ [nl] @ ''fork: true'' @ [nl] @ ''---'' @ [nl] @ ''do it''"

lemma sample_splits: "split_frontmatter sample_fork_file = (Some ''fork: true'', ''do it'')"
  by code_simp

text \<open>C36. Whatever the frontmatter holds, a parsed fork is well formed: at least one trigger,
  percentages between 1 and 100, no zero throttle, an \<open>after\<close> list of distinct trimmed names
  without the fork itself, and distinct trimmed tags without a comma.\<close>

theorem parse_fork_file_ok:
  "parse_fork_file from_yaml name content = Fork p \<Longrightarrow> fork_def_ok name (def p)"
  by (auto simp: parse_fork_file_def parse_marked_ok split: prod.splits option.splits if_splits)

theorem parse_fork_file_ok_witness:
  "parse_fork_file (\<lambda>_. Some sample_raw) ''j'' sample_fork_file =
     Fork (parse_marked ''j'' sample_raw ''do it'') \<and>
   fork_def_ok ''j'' (def (parse_marked ''j'' sample_raw ''do it''))"
proof -
  have p: "parse_fork_file (\<lambda>_. Some sample_raw) ''j'' sample_fork_file =
      Fork (parse_marked ''j'' sample_raw ''do it'')"
    by (simp add: parse_fork_file_def sample_splits is_marked_def sample_raw_def)
  show ?thesis using p parse_fork_file_ok [OF p] by simp
qed

text \<open>Frontmatter written between \<open>---\<close> lines is split off exactly, the rest being the
  body, unless the block itself holds a line starting with \<open>---\<close> or ends in a carriage
  return.\<close>

theorem split_frontmatter_roundtrip:
  assumes "\<not> contains front (nl # ''---'')" and "\<not> ends_with front [cr]"
  shows "split_frontmatter (''---'' @ [nl] @ front @ [nl] @ ''---'' @ [nl] @ b) = (Some front, b)"
  using close_search_here [OF assms, of b]
  by (simp add: split_frontmatter_def strip_prefix_def)

theorem split_frontmatter_roundtrip_witness:
  "\<not> contains ''fork: true'' (nl # ''---'') \<and> \<not> ends_with ''fork: true'' [cr] \<and>
   split_frontmatter sample_fork_file = (Some ''fork: true'', ''do it'')"
proof -
  have h: "\<not> contains ''fork: true'' (nl # ''---'')" "\<not> ends_with ''fork: true'' [cr]"
    by code_simp+
  show ?thesis
    using h split_frontmatter_roundtrip [OF h, of "''do it''"] by (simp add: sample_fork_file_def)
qed

end
