(* ===== verification/Project.thy ===== *)
theory Project
  imports Paths
begin

text \<open>
  Project roots, \<open>crates/autofork-core/src/project.rs\<close>: the nearest ancestor with an \<open>.autofork\<close>
  directory, else the nearest with \<open>.git\<close>, else the directory itself.
\<close>

definition project_root_of :: "fs \<Rightarrow> path \<Rightarrow> path" where
  "project_root_of fs dir =
     (let start = canonical_or_self fs dir
      in (case find_up (\<lambda>d. is_dir fs (path_join d ''.autofork'')) start of
            Some d \<Rightarrow> d
          | None \<Rightarrow>
              (case find_up (\<lambda>d. path_exists fs (path_join d ''.git'')) start of
                 Some d \<Rightarrow> d
               | None \<Rightarrow> start)))"

lemma find_up_found:
  assumes "find_up P d = Some r"
  shows "r \<in> set (ancestors d)" and "P r" and "find_up P r = Some r"
proof -
  show "r \<in> set (ancestors d)" "P r"
    using assms by (auto simp: find_up_ancestors dest: find_Some_elem)
  then show "find_up P r = Some r" by (simp add: find_up.simps)
qed

lemma find_up_None_suffix:
  "find_up P d = None \<Longrightarrow> r \<in> set (ancestors d) \<Longrightarrow> find_up P r = None"
  using ancestors_suffix [of r d] by (auto simp: find_up_ancestors find_None_iff)

text \<open>A project root is an ancestor of the working directory and is its own project root: the
  sessions of all directories that share it are grouped under one path, and looking it up again from
  there (the canonical path of a root being itself) changes nothing.\<close>

theorem project_root_stable:
  assumes "canonicalize fs (project_root_of fs dir) = Some (project_root_of fs dir)"
  shows "project_root_of fs (project_root_of fs dir) = project_root_of fs dir
    \<and> project_root_of fs dir \<in> set (ancestors (canonical_or_self fs dir))"
proof -
  let ?A = "\<lambda>d. is_dir fs (path_join d ''.autofork'')" and ?G = "\<lambda>d. path_exists fs (path_join d ''.git'')"
  let ?s = "canonical_or_self fs dir" and ?r = "project_root_of fs dir"
  have can: "canonical_or_self fs ?r = ?r" using assms by (simp add: canonical_or_self_def)
  consider (a) "find_up ?A ?s = Some ?r"
    | (g) "find_up ?A ?s = None" "find_up ?G ?s = Some ?r"
    | (n) "find_up ?A ?s = None" "find_up ?G ?s = None" "?r = ?s"
    by (cases "find_up ?A ?s"; cases "find_up ?G ?s") (auto simp: project_root_of_def Let_def)
  then show ?thesis
  proof cases
    case a
    note found = find_up_found [OF a]
    have "project_root_of fs ?r = ?r"
      by (subst project_root_of_def) (simp add: can found(3) Let_def)
    with found show ?thesis by simp
  next
    case g
    note found = find_up_found [OF g(2)]
    have "project_root_of fs ?r = ?r"
      by (subst project_root_of_def)
        (simp add: can found(3) find_up_None_suffix [OF g(1) found(1)] Let_def)
    with found show ?thesis by simp
  next
    case n
    have "project_root_of fs ?r = ?r"
      by (subst project_root_of_def) (use n can in \<open>simp add: Let_def\<close>)
    moreover have "?s \<in> set (ancestors ?s)" by (subst ancestors.simps) simp
    ultimately show ?thesis using n(3) by simp
  qed
qed

text \<open>A file system in which \<open>/w/p\<close> has an \<open>.autofork\<close> directory.\<close>

definition sample_fs :: fs where
  "sample_fs = \<lparr>read_to_string = (\<lambda>p. Inl ''not found''), read_bytes = (\<lambda>p. None),
     is_dir = (\<lambda>p. p = ''/w/p/.autofork''), is_file = (\<lambda>p. False), path_exists = (\<lambda>p. p = ''/w/p/sub/.git''),
     read_dir = (\<lambda>p. None), canonicalize = (\<lambda>p. Some p)\<rparr>"

theorem project_root_stable_witness:
  "project_root_of sample_fs ''/w/p/sub'' = ''/w/p''
   \<and> project_root_of sample_fs (project_root_of sample_fs ''/w/p/sub'') = project_root_of sample_fs ''/w/p/sub''"
proof -
  have "project_root_of sample_fs ''/w/p/sub'' = ''/w/p''" by code_simp
  then show ?thesis
    using project_root_stable [of sample_fs "''/w/p/sub''"] by (simp add: sample_fs_def)
qed

end
