(* ===== verification/Discovery.thy ===== *)
theory Discovery
  imports Frontmatter Project
begin

text \<open>
  Fork discovery, \<open>crates/autofork-core/src/discovery.rs\<close>: the fork roots of a directory, the scan
  of one root with its nesting cap, and the collection in which the first definition of a name wins.
\<close>

section \<open>The model\<close>

definition MAX_FORK_NESTING_DEPTH :: nat where
  "MAX_FORK_NESTING_DEPTH = 8"

record fork_entry =
  entry_name :: string
  entry_path :: path
  entry_root :: path
  entry_parsed :: parsed_fork

text \<open>The loop over the ancestors that collects their fork directories.\<close>

function roots_up :: "fs \<Rightarrow> path \<Rightarrow> path list \<Rightarrow> path list" where
  "roots_up fs d out =
     (let candidate = path_join (path_join d ''.autofork'') ''forks'';
          out = (if is_dir fs candidate then out @ [candidate] else out)
      in (case parent d of None \<Rightarrow> out | Some q \<Rightarrow> roots_up fs q out))"
  by pat_completeness auto
termination
  by (relation "measure (\<lambda>(_, d, _). length d)") (auto simp: parent_shorter)

declare roots_up.simps [simp del]

definition fork_roots :: "fs \<Rightarrow> path \<Rightarrow> path option \<Rightarrow> path list" where
  "fork_roots fs dir user_forks_root =
     (let out = roots_up fs (canonical_or_self fs dir) []
      in (case user_forks_root of
            None \<Rightarrow> out
          | Some user \<Rightarrow>
              (let user = canonical_or_self fs user
               in if is_dir fs user \<and> \<not> list_ex (\<lambda>r. path_eq r user) out then out @ [user] else out)))"

type_synonym found = "fork_entry list \<times> string list"

definition insert_entry ::
  "(string \<Rightarrow> raw_fork option) \<Rightarrow> fs \<Rightarrow> string \<Rightarrow> path \<Rightarrow> path \<Rightarrow> found \<Rightarrow> found" where
  "insert_entry from_yaml fs name p root acc =
     (let (es, ws) = acc
      in (case read_to_string fs p of
            Inl e \<Rightarrow> (es, ws @ [''failed to read '' @ p @ '': '' @ e])
          | Inr content \<Rightarrow>
              (case parse_fork_file from_yaml name content of
                 NotFork True \<Rightarrow>
                   (es, ws @ [p @ '' has fork-like frontmatter but no `fork: true` '' @ em_dash @
                              '' not treated as a fork''])
               | NotFork False \<Rightarrow> (es, ws)
               | Invalid \<Rightarrow>
                   (es, ws @ [''fork '' @ sq name @ '' at '' @ p @ '' has invalid frontmatter YAML, skipped''])
               | Fork parsed \<Rightarrow>
                   (case find (\<lambda>e. entry_name e = name) es of
                      Some existing \<Rightarrow>
                        (es, if \<not> path_eq (entry_path existing) p
                             then ws @ [''fork '' @ sq name @ '' at '' @ p @ '' shadowed by '' @
                                        entry_path existing]
                             else ws)
                    | None \<Rightarrow>
                        (es @ [\<lparr>entry_name = name, entry_path = p, entry_root = root,
                                entry_parsed = parsed\<rparr>], ws)))))"

text \<open>\<open>scan_items\<close> is the loop over a directory's sorted names.\<close>

function scan_forks_dir ::
    "(string \<Rightarrow> raw_fork option) \<Rightarrow> fs \<Rightarrow> path \<Rightarrow> path \<Rightarrow> nat \<Rightarrow> found \<Rightarrow> found"
  and scan_items ::
    "(string \<Rightarrow> raw_fork option) \<Rightarrow> fs \<Rightarrow> path \<Rightarrow> path \<Rightarrow> nat \<Rightarrow> string list \<Rightarrow> found \<Rightarrow> found" where
  "scan_forks_dir from_yaml fs dir root depth acc =
     (if MAX_FORK_NESTING_DEPTH < depth then acc
      else (case read_dir fs dir of
              None \<Rightarrow> acc
            | Some names \<Rightarrow> scan_items from_yaml fs dir root depth (sort names) acc))"
| "scan_items from_yaml fs dir root depth [] acc = acc"
| "scan_items from_yaml fs dir root depth (name # rest) acc =
     (let p = path_join dir name
      in scan_items from_yaml fs dir root depth rest
           (if \<not> utf8_valid name \<or> starts_with name ''.'' then acc
            else if is_dir fs p then
              (let fork_md = path_join p ''FORK.md''
               in if is_file fs fork_md then insert_entry from_yaml fs name fork_md root acc
                  else scan_forks_dir from_yaml fs p root (depth + 1) acc)
            else (case strip_suffix name ''.md'' of
                    Some stem \<Rightarrow>
                      if stem \<noteq> [] then insert_entry from_yaml fs stem p root acc else acc
                  | None \<Rightarrow> acc)))"
  by pat_completeness auto


text \<open>The nesting depth grows with every subfolder, and past the cap the scan returns at once.\<close>

termination
  by (relation "measures [\<lambda>x. (case x of Inl (_, _, _, _, d, _) \<Rightarrow> 9 - d | Inr (_, _, _, _, d, _, _) \<Rightarrow> 9 - d),
      \<lambda>x. (case x of Inl (_, _, _, _, d, _) \<Rightarrow> if d \<le> 8 then 2 else 0 | Inr _ \<Rightarrow> 1),
      \<lambda>x. (case x of Inl _ \<Rightarrow> 0 | Inr (_, _, _, _, _, ns, _) \<Rightarrow> length ns)]")
    (auto simp: MAX_FORK_NESTING_DEPTH_def)

declare scan_forks_dir.simps [simp del]

definition discover_forks ::
  "(string \<Rightarrow> raw_fork option) \<Rightarrow> fs \<Rightarrow> path \<Rightarrow> path option \<Rightarrow> found" where
  "discover_forks from_yaml fs dir user_forks_root =
     fold (\<lambda>root acc. scan_forks_dir from_yaml fs root root 0 acc)
       (fork_roots fs dir user_forks_root) ([], [])"

section \<open>What a scan adds\<close>

text \<open>An entry is sound when its file holds a fork under its name.\<close>

definition entry_sound :: "(string \<Rightarrow> raw_fork option) \<Rightarrow> fs \<Rightarrow> fork_entry \<Rightarrow> bool" where
  "entry_sound from_yaml fs e \<longleftrightarrow>
     (\<exists>content. read_to_string fs (entry_path e) = Inr content
        \<and> parse_fork_file from_yaml (entry_name e) content = Fork (entry_parsed e))"

text \<open>One step of a scan: the entries found before are kept in front, names stay distinct, new
  entries are sound.\<close>

definition extends :: "(string \<Rightarrow> raw_fork option) \<Rightarrow> fs \<Rightarrow> path \<Rightarrow> found \<Rightarrow> found \<Rightarrow> bool" where
  "extends from_yaml fs root acc acc' \<longleftrightarrow>
     (\<exists>new. fst acc' = fst acc @ new
        \<and> (distinct (map entry_name (fst acc)) \<longrightarrow> distinct (map entry_name (fst acc')))
        \<and> list_all (\<lambda>e. entry_sound from_yaml fs e \<and> entry_root e = root) new)"

lemma extends_refl: "extends fy fs root acc acc"
  by (simp add: extends_def)

lemma extends_trans:
  "extends fy fs root a b \<Longrightarrow> extends fy fs root b c \<Longrightarrow> extends fy fs root a c"
  by (fastforce simp: extends_def)

lemma extends_insert: "extends fy fs root acc (insert_entry fy fs name p root acc)"
proof -
  obtain es ws where acc: "acc = (es, ws)" by (cases acc)
  have "find (\<lambda>e. entry_name e = name) es = None \<Longrightarrow> name \<notin> entry_name ` set es"
    by (auto simp: find_None_iff)
  then show ?thesis
    by (auto simp: acc insert_entry_def extends_def entry_sound_def
        split: sum.split fork_parse.split bool.split option.split)
qed

lemma extends_scan:
  "extends fy fs root acc (scan_forks_dir fy fs dir root depth acc)"
  "extends fy fs root acc (scan_items fy fs dir root depth names acc)"
proof (induction fy fs dir root depth acc and fy fs dir root depth names acc
    rule: scan_forks_dir_scan_items.induct)
  case (1 fy fs dir root depth acc)
  then show ?case
    by (subst scan_forks_dir.simps) (auto simp: extends_refl split: option.split)
next
  case (2 fy fs dir root depth acc)
  then show ?case by (simp add: scan_forks_dir.simps extends_refl)
next
  case (3 fy fs dir root depth name rest acc)
  let ?p = "path_join dir name"
  let ?acc1 = "if \<not> utf8_valid name \<or> starts_with name ''.'' then acc
    else if is_dir fs ?p then
      (let fork_md = path_join ?p ''FORK.md''
       in if is_file fs fork_md then insert_entry fy fs name fork_md root acc
          else scan_forks_dir fy fs ?p root (depth + 1) acc)
    else (case strip_suffix name ''.md'' of
            Some stem \<Rightarrow> if stem \<noteq> [] then insert_entry fy fs stem ?p root acc else acc
          | None \<Rightarrow> acc)"
  have one: "extends fy fs root acc ?acc1"
    using 3(1) by (simp add: Let_def extends_refl extends_insert split: option.split)
  have two: "extends fy fs root ?acc1 (scan_items fy fs dir root depth rest ?acc1)"
    by (rule 3(2)) (rule refl)
  have "scan_items fy fs dir root depth (name # rest) acc = scan_items fy fs dir root depth rest ?acc1"
    by (simp add: Let_def)
  then show ?case
    using extends_trans [OF one two] by (simp only:)
qed

text \<open>The roots are the fork directories of the ancestors, nearest first, then the user's.\<close>

lemma roots_up_eq:
  "roots_up fs d out =
     out @ filter (is_dir fs) (map (\<lambda>a. path_join (path_join a ''.autofork'') ''forks'') (ancestors d))"
proof (induction fs d out rule: roots_up.induct)
  case (1 fs d out)
  then show ?case
    by (subst roots_up.simps, subst ancestors.simps) (auto simp: Let_def split: option.split)
qed

text \<open>The scans of several roots, one after the other.\<close>

lemma scan_roots_extend:
  "\<exists>new. fst (fold (\<lambda>root acc. scan_forks_dir fy fs root root 0 acc) rs acc) = fst acc @ new
     \<and> list_all (\<lambda>e. entry_sound fy fs e \<and> entry_root e \<in> set rs) new
     \<and> (distinct (map entry_name (fst acc)) \<longrightarrow>
        distinct (map entry_name (fst (fold (\<lambda>root acc. scan_forks_dir fy fs root root 0 acc) rs acc))))"
proof (induction rs arbitrary: acc)
  case Nil
  then show ?case by simp
next
  case (Cons r rs)
  let ?acc = "scan_forks_dir fy fs r r 0 acc"
  from extends_scan(1) [of fy fs r acc r 0]
  obtain new where 1: "fst ?acc = fst acc @ new"
    "distinct (map entry_name (fst acc)) \<longrightarrow> distinct (map entry_name (fst ?acc))"
    "list_all (\<lambda>e. entry_sound fy fs e \<and> entry_root e = r) new"
    unfolding extends_def by blast
  from Cons [of ?acc] 1 show ?case
    by (fastforce simp: list_all_iff)
qed

text \<open>Discovery yields one sound definition per name: the names are distinct, every entry's file
  holds a marked fork that parses under that name, and comes from one of the roots.\<close>

theorem discover_forks_sound:
  "distinct (map entry_name (fst (discover_forks from_yaml fs dir user)))
   \<and> list_all (\<lambda>e. entry_sound from_yaml fs e \<and> entry_root e \<in> set (fork_roots fs dir user))
       (fst (discover_forks from_yaml fs dir user))"
  using scan_roots_extend [of from_yaml fs "fork_roots fs dir user" "([], [])"]
  by (auto simp: discover_forks_def)

section \<open>Discovery without accumulators\<close>

text \<open>The files a root offers as forks, with the names they would have, in the order of the scan.\<close>

function dir_offers :: "fs \<Rightarrow> path \<Rightarrow> nat \<Rightarrow> (string \<times> path) list"
  and item_offers :: "fs \<Rightarrow> path \<Rightarrow> nat \<Rightarrow> string list \<Rightarrow> (string \<times> path) list" where
  "dir_offers fs dir depth =
     (if MAX_FORK_NESTING_DEPTH < depth then []
      else (case read_dir fs dir of None \<Rightarrow> [] | Some names \<Rightarrow> item_offers fs dir depth (sort names)))"
| "item_offers fs dir depth [] = []"
| "item_offers fs dir depth (name # rest) =
     (let p = path_join dir name; md = path_join p ''FORK.md''
      in (if \<not> utf8_valid name \<or> starts_with name ''.'' then []
          else if is_dir fs p then (if is_file fs md then [(name, md)] else dir_offers fs p (depth + 1))
          else (case strip_suffix name ''.md'' of
                  Some stem \<Rightarrow> if stem \<noteq> [] then [(stem, p)] else []
                | None \<Rightarrow> []))
         @ item_offers fs dir depth rest)"
  by pat_completeness auto

termination
  by (relation "measures [\<lambda>x. (case x of Inl (_, _, d) \<Rightarrow> 9 - d | Inr (_, _, d, _) \<Rightarrow> 9 - d),
      \<lambda>x. (case x of Inl (_, _, d) \<Rightarrow> if d \<le> 8 then 2 else 0 | Inr _ \<Rightarrow> 1),
      \<lambda>x. (case x of Inl _ \<Rightarrow> 0 | Inr (_, _, _, ns) \<Rightarrow> length ns)]")
    (auto simp: MAX_FORK_NESTING_DEPTH_def)

declare dir_offers.simps [simp del]

text \<open>The forks among them, and the first of each name.\<close>

definition fork_at :: "(string \<Rightarrow> raw_fork option) \<Rightarrow> fs \<Rightarrow> path \<Rightarrow> string \<times> path \<Rightarrow> fork_entry option" where
  "fork_at from_yaml fs root np =
     (case read_to_string fs (snd np) of
        Inl _ \<Rightarrow> None
      | Inr content \<Rightarrow>
          (case parse_fork_file from_yaml (fst np) content of
             Fork parsed \<Rightarrow> Some \<lparr>entry_name = fst np, entry_path = snd np, entry_root = root, entry_parsed = parsed\<rparr>
           | _ \<Rightarrow> None))"

definition root_forks :: "(string \<Rightarrow> raw_fork option) \<Rightarrow> fs \<Rightarrow> path \<Rightarrow> fork_entry list" where
  "root_forks from_yaml fs root = List.map_filter (fork_at from_yaml fs root) (dir_offers fs root 0)"

fun first_of_name :: "fork_entry list \<Rightarrow> fork_entry list" where
  "first_of_name [] = []"
| "first_of_name (e # es) = e # filter (\<lambda>x. entry_name x \<noteq> entry_name e) (first_of_name es)"

text \<open>The roots, nearest first: the fork directories of the directory and its ancestors, then the user's.\<close>

definition own_roots :: "fs \<Rightarrow> path \<Rightarrow> path list" where
  "own_roots fs dir =
     filter (is_dir fs) (map (\<lambda>a. path_join (path_join a ''.autofork'') ''forks'') (ancestors (canonical_or_self fs dir)))"

definition user_roots :: "fs \<Rightarrow> path \<Rightarrow> path option \<Rightarrow> path list" where
  "user_roots fs dir user =
     (case user of
        None \<Rightarrow> []
      | Some u \<Rightarrow> filter (\<lambda>u. is_dir fs u \<and> \<not> list_ex (\<lambda>r. path_eq r u) (own_roots fs dir)) [canonical_or_self fs u])"

lemma fork_roots_eq: "fork_roots fs dir user = own_roots fs dir @ user_roots fs dir user"
  by (simp add: fork_roots_def roots_up_eq own_roots_def user_roots_def Let_def split: option.split)

lemma scan_offers:
  "scan_forks_dir fy fs dir root depth acc =
     fold (\<lambda>(n, p). insert_entry fy fs n p root) (dir_offers fs dir depth) acc"
  "scan_items fy fs dir root depth names acc =
     fold (\<lambda>(n, p). insert_entry fy fs n p root) (item_offers fs dir depth names) acc"
proof (induction fy fs dir root depth acc and fy fs dir root depth names acc
    rule: scan_forks_dir_scan_items.induct)
  case (1 fy fs dir root depth acc)
  then show ?case
    by (subst scan_forks_dir.simps, subst dir_offers.simps) (auto split: option.split)
next
  case (3 fy fs dir root depth name rest acc)
  then show ?case by (auto simp: Let_def split: option.split)
qed simp

text \<open>Adding a fork behind the ones found, unless its name is taken.\<close>

definition add_fork :: "fork_entry \<Rightarrow> fork_entry list \<Rightarrow> fork_entry list" where
  "add_fork e es = (if entry_name e \<in> entry_name ` set es then es else es @ [e])"

lemma insert_entry_fst:
  "fst (insert_entry fy fs n p root acc) =
     (case fork_at fy fs root (n, p) of Some e \<Rightarrow> add_fork e (fst acc) | None \<Rightarrow> fst acc)"
proof -
  have found: "find (\<lambda>e. entry_name e = n) es = None \<longleftrightarrow> n \<notin> entry_name ` set es" for es
    by (auto simp: find_None_iff)
  obtain es ws where acc: "acc = (es, ws)" by (cases acc)
  show ?thesis
  proof (cases "find (\<lambda>e. entry_name e = n) es")
    case None
    moreover have "n \<notin> entry_name ` set es" by (rule iffD1 [OF found None])
    ultimately show ?thesis
      by (auto simp: acc insert_entry_def fork_at_def add_fork_def split: sum.split fork_parse.split bool.split)
  next
    case (Some x)
    moreover have "n \<in> entry_name ` set es" using found [of es] Some by auto
    ultimately show ?thesis
      by (simp add: acc insert_entry_def fork_at_def add_fork_def split: sum.split fork_parse.split bool.split)
  qed
qed

lemma fold_insert_fst:
  "fst (fold (\<lambda>(n, p). insert_entry fy fs n p root) nps acc) =
     fold add_fork (List.map_filter (fork_at fy fs root) nps) (fst acc)"
  by (induction nps arbitrary: acc) (auto simp: insert_entry_fst List.map_filter_simps split: option.split)

lemma fold_add_fork:
  "fold add_fork xs es = es @ filter (\<lambda>e. entry_name e \<notin> entry_name ` set es) (first_of_name xs)"
proof (induction xs arbitrary: es)
  case (Cons x xs)
  show ?case
  proof (cases "entry_name x \<in> entry_name ` set es")
    case True
    have "filter (\<lambda>e. entry_name e \<notin> entry_name ` set es) (filter (\<lambda>e. entry_name e \<noteq> entry_name x) zs) =
        filter (\<lambda>e. entry_name e \<notin> entry_name ` set es) zs" for zs :: "fork_entry list"
      using True by (induction zs) auto
    moreover have "add_fork x es = es" using True by (simp add: add_fork_def)
    ultimately show ?thesis using True by (simp add: Cons del: filter_filter)
  next
    case False
    then have "add_fork x es = es @ [x]" by (simp add: add_fork_def)
    with False show ?thesis by (simp add: Cons conj_commute)
  qed
qed simp

text \<open>C34. The nearest definition wins. The fork roots are those of the directory and its ancestors, nearest
  first, and then the user's, unless it is one of them; discovery yields, in this order and within a root in the
  order of the scan, the first fork of each name among the files that parse as forks, and nothing else.\<close>

theorem discover_forks_nearest_wins:
  "fork_roots fs dir user = own_roots fs dir @ user_roots fs dir user
   \<and> fst (discover_forks from_yaml fs dir user) =
       first_of_name (concat (map (root_forks from_yaml fs) (own_roots fs dir @ user_roots fs dir user)))"
proof -
  have "fst (fold (\<lambda>root acc. scan_forks_dir from_yaml fs root root 0 acc) rs acc) =
      fold add_fork (concat (map (root_forks from_yaml fs) rs)) (fst acc)" for rs acc
    by (induction rs arbitrary: acc) (simp_all add: scan_offers fold_insert_fst root_forks_def)
  then have "fst (discover_forks from_yaml fs dir user) =
      fold add_fork (concat (map (root_forks from_yaml fs) (fork_roots fs dir user))) []"
    by (simp only: discover_forks_def fst_conv)
  then show ?thesis by (simp only: fork_roots_eq fold_add_fork) simp
qed

text \<open>The same fork in the project and at user level.\<close>

definition sample_forks_fs :: fs where
  "sample_forks_fs = \<lparr>read_to_string = (\<lambda>p. Inr (''---'' @ [nl] @ ''f'' @ [nl] @ ''---'' @ [nl] @ p)),
     read_bytes = (\<lambda>p. None), is_dir = (\<lambda>p. p = ''/p/.autofork/forks'' \<or> p = ''/h/forks''),
     is_file = (\<lambda>p. True), path_exists = (\<lambda>p. False), read_dir = (\<lambda>p. Some [''a.md'']),
     canonicalize = (\<lambda>p. Some p)\<rparr>"

definition sample_marked :: "string \<Rightarrow> raw_fork option" where
  "sample_marked s = Some (empty_raw_fork\<lparr>raw_marker := Some (YBool True)\<rparr>)"

definition sample_entry :: "path \<Rightarrow> path \<Rightarrow> fork_entry" where
  "sample_entry p root = \<lparr>entry_name = ''a'', entry_path = p, entry_root = root,
     entry_parsed = \<lparr>def = default_fork_def, body = p, warnings = []\<rparr>\<rparr>"

end
