(* ===== verification/Notification.thy ===== *)
theory Notification
  imports Rust_Prelude
begin

text \<open>
  Task notifications, \<open>crates/autofork-core/src/notification.rs\<close>: recognising the envelope of a
  background-task completion and reading its ids and status.
\<close>

section \<open>The model\<close>

definition TASK_NOTIFICATION_PREFIX :: string where
  "TASK_NOTIFICATION_PREFIX = ''<task-notification>''"

record task_notification =
  tool_use_id :: "string option"
  task_id :: "string option"
  status :: "string option"

definition tag_value :: "string \<Rightarrow> string \<Rightarrow> string option" where
  "tag_value text name =
     (let open_tag = ''<'' @ name @ ''>''; close_tag = ''</'' @ name @ ''>''
      in (case find_sub open_tag text of
            None \<Rightarrow> None
          | Some i \<Rightarrow>
              (let rest = drop (i + length open_tag) text
               in (case find_sub close_tag rest of
                     None \<Rightarrow> None
                   | Some j \<Rightarrow>
                       (let v = trim (take j rest) in if v = [] then None else Some v)))))"

definition parse_task_notification :: "string \<Rightarrow> task_notification option" where
  "parse_task_notification text =
     (let trimmed = trim_start text
      in if \<not> starts_with trimmed TASK_NOTIFICATION_PREFIX then None
         else Some \<lparr>tool_use_id = tag_value trimmed ''tool-use-id'',
                    task_id = tag_value trimmed ''task-id'',
                    status = tag_value trimmed ''status''\<rparr>)"

definition is_terminal_status :: "string \<Rightarrow> bool" where
  "is_terminal_status s \<longleftrightarrow> s = ''completed'' \<or> s = ''failed'' \<or> s = ''stopped''"

section \<open>The envelope\<close>

text \<open>The envelope as the module's documentation shows it, with the fields of one completion.\<close>

definition envelope :: "string \<Rightarrow> string \<Rightarrow> string \<Rightarrow> string \<Rightarrow> string \<Rightarrow> string" where
  "envelope task tool file st payload =
     TASK_NOTIFICATION_PREFIX @ [nl] @ ''<task-id>'' @ task @ ''</task-id>'' @ [nl] @
     ''<tool-use-id>'' @ tool @ ''</tool-use-id>'' @ [nl] @
     ''<output-file>'' @ file @ ''</output-file>'' @ [nl] @
     ''<status>'' @ st @ ''</status>'' @ payload"

text \<open>A field value: visible text without a tag, surrounded by no white space.\<close>

definition field_ok :: "string \<Rightarrow> bool" where
  "field_ok v \<longleftrightarrow> v \<noteq> [] \<and> trim v = v \<and> CHR ''<'' \<notin> set v"

lemma find_tag_skip:
  "CHR ''<'' \<notin> set v \<Longrightarrow>
   find_sub (CHR ''<'' # p) (v @ s) = map_option (\<lambda>i. length v + i) (find_sub (CHR ''<'' # p) s)"
  by (rule find_sub_skip) simp_all

lemma tag_value_at:
  assumes "find_sub (''<'' @ name @ ''>'') text = Some (length a)"
    and "text = a @ ''<'' @ name @ ''>'' @ v @ ''</'' @ name @ ''>'' @ b" and "field_ok v"
  shows "tag_value text name = Some v"
proof -
  have "drop (length a + length (''<'' @ name @ ''>'')) text = v @ ''</'' @ name @ ''>'' @ b"
    by (simp add: assms(2))
  moreover have "find_sub (''</'' @ name @ ''>'') (v @ (''</'' @ name @ ''>'') @ b) = Some (length v)"
    by (rule find_sub_absent_head) (use assms(3) in \<open>simp_all add: field_ok_def\<close>)
  ultimately show ?thesis
    using assms(1,3) by (simp add: tag_value_def Let_def field_ok_def)
qed

lemma envelope_task:
  "field_ok task \<Longrightarrow> tag_value (envelope task tool file st payload) ''task-id'' = Some task"
  by (rule tag_value_at [where a = "TASK_NOTIFICATION_PREFIX @ [nl]"
        and b = "[nl] @ ''<tool-use-id>'' @ tool @ ''</tool-use-id>'' @ [nl] @ ''<output-file>'' @
          file @ ''</output-file>'' @ [nl] @ ''<status>'' @ st @ ''</status>'' @ payload"])
    (simp_all add: envelope_def TASK_NOTIFICATION_PREFIX_def)

lemma envelope_tool:
  "field_ok task \<Longrightarrow> field_ok tool \<Longrightarrow>
   tag_value (envelope task tool file st payload) ''tool-use-id'' = Some tool"
  by (rule tag_value_at [where a = "TASK_NOTIFICATION_PREFIX @ [nl] @ ''<task-id>'' @ task @
          ''</task-id>'' @ [nl]"
        and b = "[nl] @ ''<output-file>'' @
          file @ ''</output-file>'' @ [nl] @ ''<status>'' @ st @ ''</status>'' @ payload"])
    (simp_all add: envelope_def TASK_NOTIFICATION_PREFIX_def find_tag_skip field_ok_def)

lemma envelope_status:
  "field_ok task \<Longrightarrow> field_ok tool \<Longrightarrow> CHR ''<'' \<notin> set file \<Longrightarrow> field_ok st \<Longrightarrow>
   tag_value (envelope task tool file st payload) ''status'' = Some st"
  by (rule tag_value_at [where a = "TASK_NOTIFICATION_PREFIX @ [nl] @ ''<task-id>'' @ task @
          ''</task-id>'' @ [nl] @ ''<tool-use-id>'' @ tool @ ''</tool-use-id>'' @ [nl] @
          ''<output-file>'' @ file @ ''</output-file>'' @ [nl]" and b = payload])
    (simp_all add: envelope_def TASK_NOTIFICATION_PREFIX_def find_tag_skip field_ok_def)

lemma trim_start_envelope: "trim_start (CHR ''<'' # s) = CHR ''<'' # s"
  by (rule trim_start_graphic) (simp add: ascii_graphic_def)

section \<open>Properties\<close>

text \<open>A completion notification in the documented form is recognised, and its two ids and its
  status are read back exactly, whatever payload follows the status.\<close>

lemma parse_envelope:
  assumes "field_ok task" and "field_ok tool" and "CHR ''<'' \<notin> set file" and "field_ok st"
  shows "parse_task_notification (envelope task tool file st payload) =
    Some \<lparr>tool_use_id = Some tool, task_id = Some task, status = Some st\<rparr>"
proof -
  have "trim_start (envelope task tool file st payload) = envelope task tool file st payload"
    and "starts_with (envelope task tool file st payload) TASK_NOTIFICATION_PREFIX"
    by (simp_all add: envelope_def TASK_NOTIFICATION_PREFIX_def trim_start_envelope)
  then show ?thesis
    using assms by (simp add: parse_task_notification_def Let_def envelope_task envelope_tool
        envelope_status)
qed

text \<open>A notification without a tool-use id whose result quotes one.\<close>

definition no_record :: "string \<Rightarrow> string \<Rightarrow> string" where
  "no_record task quoted =
     TASK_NOTIFICATION_PREFIX @ ''<task-id>'' @ task @ ''</task-id><status>stopped</status>'' @
     ''<result>earlier: <tool-use-id>'' @ quoted @ ''</tool-use-id></result>''"

text \<open>The search is not confined to the envelope: when the envelope has no tool-use id (a
  task that left no completion record), the first \<open>tool-use-id\<close> quoted in the payload is
  taken as the notification's own.\<close>

lemma parse_reads_payload:
  assumes "field_ok task" and "field_ok quoted"
  shows "map_option tool_use_id (parse_task_notification (no_record task quoted)) =
    Some (Some quoted)"
proof -
  have "tag_value (no_record task quoted) ''tool-use-id'' = Some quoted"
    by (rule tag_value_at [where a = "TASK_NOTIFICATION_PREFIX @ ''<task-id>'' @ task @
          ''</task-id><status>stopped</status><result>earlier: ''" and b = "''</result>''"])
      (use assms in \<open>simp_all add: no_record_def TASK_NOTIFICATION_PREFIX_def find_tag_skip
        field_ok_def\<close>)
  moreover have "trim_start (no_record task quoted) = no_record task quoted"
    and "starts_with (no_record task quoted) TASK_NOTIFICATION_PREFIX"
    by (simp_all add: no_record_def TASK_NOTIFICATION_PREFIX_def trim_start_envelope)
  ultimately show ?thesis by (simp add: parse_task_notification_def Let_def)
qed

end
