(* ===== verification/Wake.thy ===== *)
theory Wake
  imports Notification
begin

text \<open>
  Wake payloads, \<open>crates/autofork-core/src/wake.rs\<close>: the text with which a due Stop hook wakes the
  session, the spawn prompt with its fingerprint, and the sniffer that recognises the payload when
  it comes back as a submitted prompt. The texts are those of the source, byte for byte.
\<close>

section \<open>The model\<close>

definition WAKE_MARKER :: string where
  "WAKE_MARKER = ''source: autofork''"

definition SPAWN_CTX_PREFIX :: string where
  "SPAWN_CTX_PREFIX = ''Context for this run: fork '' @ [CHR 0x27]"

definition looks_like_continuation :: "string \<Rightarrow> bool" where
  "looks_like_continuation prompt \<longleftrightarrow>
     starts_with (trim_start prompt) TASK_NOTIFICATION_PREFIX \<or> contains prompt WAKE_MARKER"

record due_fork =
  due_name :: string
  due_path :: string
  due_trigger :: string
  due_overlap :: bool
  due_after :: "string list"

record held_fork =
  held_name :: string
  held_after :: "string list"

definition quoted_names :: "string list \<Rightarrow> string" where
  "quoted_names names = join_with '', '' (map (\<lambda>p. [CHR 0x27] @ p @ [CHR 0x27]) names)"

definition spawn_prompt :: "due_fork \<Rightarrow> string \<Rightarrow> string \<Rightarrow> string \<Rightarrow> string" where
  "spawn_prompt fork session_id conversation_id proj_root =
     ''Read the file '' @ due_path fork @ '' and follow the instructions in its body. '' @
     SPAWN_CTX_PREFIX @ due_name fork @ [CHR 0x27] @ '', trigger '' @ [CHR 0x27] @
     due_trigger fork @ [CHR 0x27] @ '', parent session '' @ session_id @ '', conversation '' @
     conversation_id @ '', project root '' @ proj_root @
     ''. The conversation id is stable when a session is resumed (a resumed session gets a '' @
     ''fresh session id); key any per-conversation artifacts on it. Your final message is '' @
     ''your report.''"

definition overlap_line :: "due_fork \<Rightarrow> string" where
  "overlap_line fork =
     (if due_overlap fork then []
      else
          '' If a previous run of this fork is still among your running background tasks, skip '' @
          ''spawning it.'')"

definition root_block :: "due_fork \<Rightarrow> string \<Rightarrow> string \<Rightarrow> string \<Rightarrow> string" where
  "root_block fork session_id conversation_id proj_root =
     ''---'' @ [nl] @ ''source: autofork'' @ [nl] @ ''due: '' @ due_name fork @ '' (trigger: '' @
     due_trigger fork @ '')'' @ [nl] @ ''---'' @ [nl] @
     ''Spawn a background fork subagent now: use the Agent tool with subagent_type '' @
     [CHR 0x22] @ ''fork'' @ [CHR 0x22] @ '' and this prompt: '' @ [CHR 0x22] @
     spawn_prompt fork session_id conversation_id proj_root @ [CHR 0x22] @
     '' Do not read that file yourself '' @ em_dash @ '' only the fork reads it.'' @
     overlap_line fork"

definition release_block :: "due_fork \<Rightarrow> string \<Rightarrow> string \<Rightarrow> string \<Rightarrow> string" where
  "release_block fork session_id conversation_id proj_root =
     (let preds = quoted_names (due_after fork);
          prompt = spawn_prompt fork session_id conversation_id proj_root
      in
       ''---'' @ [nl] @ ''source: autofork'' @ [nl] @ ''due: '' @ due_name fork @ '' (trigger: '' @
       due_trigger fork @ '') '' @ em_dash @ '' released, '' @ preds @ '' finished'' @ [nl] @
       ''---'' @ [nl] @ ''Fork '' @ preds @
       '' has finished; its completion notification (with its report) is earlier in this '' @
       ''conversation. Spawn a background fork subagent now: use the Agent tool with '' @
       ''subagent_type '' @ [CHR 0x22] @ ''fork'' @ [CHR 0x22] @ '' and this prompt: '' @
       [CHR 0x22] @ prompt @ '' This fork runs after '' @ preds @ ''; append the report(s) '' @
       preds @
       '' returned in their completion notifications to this prompt, so the fork can build on '' @
       ''them.'' @ [CHR 0x22] @ '' Do not read that file yourself '' @ em_dash @
       '' only the fork reads it.'' @ overlap_line fork)"

definition CONTINGENCY :: string where
  "CONTINGENCY =
     '' If the Agent tool reports '' @ [CHR 0x22] @ ''Agent type 'fork' not found'' @ [CHR 0x22] @
     '' (or that the 'fork' agent type is unavailable), first retry the exact same Agent '' @
     ''call once. If it still fails, do NOT substitute another agent type (other agents '' @
     ''don't inherit this conversation and cannot do a fork's job). Never create, install, '' @
     ''or edit any agent definition (e.g. a file named fork.md under .claude/agents/) to '' @
     ''work around a missing fork type '' @ em_dash @
     '' a custom agent cannot inherit this conversation and cannot do a fork's job, and a '' @
     ''custom agent named 'fork' shadows the real built-in type. Instead reply with one '' @
     ''line telling the user the fork agent type isn't loaded in this turn and that sending '' @
     ''any next message will let the forks spawn. When the user next messages, spawn the '' @
     ''due forks listed above before doing anything else.''"

definition closer :: "nat \<Rightarrow> string" where
  "closer n_blocks =
     (let noun = (if n_blocks = 1 then ''the fork above'' else ''all forks above'')
      in
     ''After spawning '' @ noun @
     '', reply with one short line acknowledging the background work and stop.'' @ CONTINGENCY)"

definition held_entry :: "held_fork \<Rightarrow> string" where
  "held_entry h =
     [CHR 0x27] @ held_name h @ [CHR 0x27] @ '' (after '' @ quoted_names (held_after h) @ '')''"

definition held_note :: "held_fork list \<Rightarrow> string" where
  "held_note held =
     (if held = [] then []
      else
        (let listed = join_with '', '' (map held_entry held)
         in
            [nl] @ [nl] @
            ''Also due but held back by autofork until their predecessors finish: '' @ listed @
            ''. Do not spawn these now '' @ em_dash @
            '' you will receive their spawn instructions in a later wake once the predecessors' '' @
            ''completion notifications arrive.''))"

definition build_wake_payload ::
  "string \<Rightarrow> string \<Rightarrow> string \<Rightarrow> due_fork list \<Rightarrow> held_fork list \<Rightarrow> string" where
  "build_wake_payload session_id conversation_id proj_root forks held =
     (let blocks = map (\<lambda>f. root_block f session_id conversation_id proj_root) forks
      in join_with [nl, nl] blocks @ held_note held @ [nl, nl] @ closer (length blocks))"

definition build_release_payload ::
  "string \<Rightarrow> string \<Rightarrow> string \<Rightarrow> due_fork list \<Rightarrow> string" where
  "build_release_payload session_id conversation_id proj_root forks =
     (let blocks = map (\<lambda>f. release_block f session_id conversation_id proj_root) forks
      in join_with [nl, nl] blocks @ [nl, nl] @ closer (length blocks))"

section \<open>What the payload carries\<close>

lemma sublist_here: "sublist x (x @ b)"
  by simp

lemma sublist_skip: "sublist x b \<Longrightarrow> sublist x (a @ b)"
  by (meson sublist_append_leftI sublist_order.order_trans)

lemma sublist_join_with: "x \<in> set xs \<Longrightarrow> sublist x (join_with sep xs)"
proof (induction sep xs rule: join_with.induct)
  case (3 sep y z zs)
  then show ?case
    by (cases "x = y") (auto intro: sublist_here intro!: sublist_skip)
qed simp_all

lemma root_block_prompt: "sublist (spawn_prompt f sid cid root) (root_block f sid cid root)"
  unfolding root_block_def by (rule sublist_here | rule sublist_skip)+

lemma release_block_prompt: "sublist (spawn_prompt f sid cid root) (release_block f sid cid root)"
  unfolding release_block_def Let_def by (rule sublist_here | rule sublist_skip)+

lemma root_block_marker: "sublist WAKE_MARKER (root_block f sid cid root)"
  unfolding root_block_def WAKE_MARKER_def by (rule sublist_here | rule sublist_skip)+

lemma release_block_marker: "sublist WAKE_MARKER (release_block f sid cid root)"
  unfolding release_block_def WAKE_MARKER_def Let_def by (rule sublist_here | rule sublist_skip)+

lemma block_in_payload: "f \<in> set forks \<Longrightarrow> sublist (g f) (join_with sep (map g forks) @ b)"
  by (rule sublist_order.order_trans [OF sublist_join_with sublist_here]) simp

lemma wake_payload_block:
  "f \<in> set forks \<Longrightarrow>
   sublist (root_block f sid cid root) (build_wake_payload sid cid root forks held)"
  unfolding build_wake_payload_def Let_def
  by (rule block_in_payload)

lemma release_payload_block:
  "f \<in> set forks \<Longrightarrow>
   sublist (release_block f sid cid root) (build_release_payload sid cid root forks)"
  unfolding build_release_payload_def Let_def
  by (rule block_in_payload)

lemma marker_is_continuation: "sublist WAKE_MARKER p \<Longrightarrow> looks_like_continuation (a @ p @ b)"
  using contains_mono [of p WAKE_MARKER a b]
  by (simp add: looks_like_continuation_def contains_iff_sublist)

lemmas payload_trans = sublist_order.order_trans

text \<open>Every wake and every release payload with at least one fork is recognised as a
  continuation when it comes back as a prompt, whatever text Claude Code wraps around it, and it
  carries the complete spawn prompt of each of its forks.\<close>

theorem payload_recognised:
  assumes "forks \<noteq> []"
  shows "looks_like_continuation (pre @ build_wake_payload sid cid root forks held @ post)
    \<and> looks_like_continuation (pre @ build_release_payload sid cid root forks @ post)
    \<and> (\<forall>f \<in> set forks.
          sublist (spawn_prompt f sid cid root) (build_wake_payload sid cid root forks held)
        \<and> sublist (spawn_prompt f sid cid root) (build_release_payload sid cid root forks))"
proof -
  from assms obtain f where f: "f \<in> set forks" by (cases forks) auto
  have "looks_like_continuation (pre @ build_wake_payload sid cid root forks held @ post)"
    by (rule marker_is_continuation, rule payload_trans [OF root_block_marker wake_payload_block [OF f]])
  moreover have "looks_like_continuation (pre @ build_release_payload sid cid root forks @ post)"
    by (rule marker_is_continuation,
        rule payload_trans [OF release_block_marker release_payload_block [OF f]])
  ultimately show ?thesis
    using payload_trans [OF root_block_prompt wake_payload_block]
      payload_trans [OF release_block_prompt release_payload_block]
    by blast
qed

definition sample_due :: due_fork where
  "sample_due = \<lparr>due_name = ''journal'', due_path = ''/x/journal.md'', due_trigger = ''idle'',
                 due_overlap = False, due_after = []\<rparr>"

theorem payload_recognised_witness:
  "looks_like_continuation
     (''<system-reminder>'' @ build_wake_payload ''s'' ''c'' ''/p'' [sample_due] [] @ ''</system-reminder>'')"
  using payload_recognised [of "[sample_due]" "''<system-reminder>''" "''s''" "''c''" "''/p''" "[]"
      "''</system-reminder>''"]
  by simp

end
