(* ===== verification/Transcript.thy ===== *)
theory Transcript
  imports Wake
begin

text \<open>
  The transcript watcher, \<open>crates/autofork-daemon/src/transcript.rs\<close>: one pass over the complete
  lines that a session transcript gained since a byte offset. A file's content is its bytes; the
  JSON parser is the parameter \<open>from_json\<close> of the functions that read lines, over the public
  value type of serde\_json (an object is the list of its members, with distinct keys).
\<close>

section \<open>JSON values\<close>

datatype jnumber = JPosInt u64 | JNegInt i64 | JFloat u64

datatype json =
    JNull
  | JBool bool
  | JNumber jnumber
  | JString string
  | JArray "json list"
  | JObject "(string \<times> json) list"

fun jget :: "json \<Rightarrow> string \<Rightarrow> json option" where
  "jget (JObject kvs) k = map_of kvs k"
| "jget _ k = None"

fun json_str :: "json \<Rightarrow> string option" where
  "json_str (JString s) = Some s"
| "json_str _ = None"

fun json_u64 :: "json \<Rightarrow> u64 option" where
  "json_u64 (JNumber (JPosInt n)) = Some n"
| "json_u64 _ = None"

fun json_array :: "json \<Rightarrow> json list option" where
  "json_array (JArray xs) = Some xs"
| "json_array _ = None"

definition jget_str :: "json \<Rightarrow> string \<Rightarrow> string option" where
  "jget_str v k = Option.bind (jget v k) json_str"

section \<open>The model\<close>

record delta =
  new_offset :: u64
  prompt_tokens :: "u64 option"
  delta_model :: "string option"
  spawns :: "(string \<times> string option) list"
  task_ids :: "(string \<times> string) list"
  notifications :: "task_notification list"

definition empty_delta :: delta where
  "empty_delta = \<lparr>new_offset = 0, prompt_tokens = None, delta_model = None, spawns = [],
                  task_ids = [], notifications = []\<rparr>"

definition fork_name_from_prompt :: "string \<Rightarrow> string option" where
  "fork_name_from_prompt prompt =
     (case find_sub SPAWN_CTX_PREFIX prompt of
        None \<Rightarrow> None
      | Some i \<Rightarrow>
          (let rest = drop (i + length SPAWN_CTX_PREFIX) prompt
           in (case find_sub [CHR 0x27] rest of
                 None \<Rightarrow> None
               | Some j \<Rightarrow> (let name = take j rest in if name = [] then None else Some name))))"

definition is_agent_char :: "char \<Rightarrow> bool" where
  "is_agent_char c \<longleftrightarrow>
     byte_in 0x30 0x39 c \<or> byte_in 0x41 0x5A c \<or> byte_in 0x61 0x7A c \<or> c = CHR ''-'' \<or> c = CHR ''_''"

definition agent_id_from_result :: "string \<Rightarrow> string option" where
  "agent_id_from_result text =
     (case find_sub ''agentId: '' text of
        None \<Rightarrow> None
      | Some i \<Rightarrow>
          (let ident = takeWhile is_agent_char (drop (i + length ''agentId: '') text)
           in if ident = [] then None else Some ident))"

definition result_texts :: "json \<Rightarrow> string list" where
  "result_texts block =
     (case jget block ''content'' of
        Some (JString s) \<Rightarrow> [s]
      | Some (JArray items) \<Rightarrow>
          List.map_filter (\<lambda>i. jget_str i ''text'') (filter (\<lambda>i. jget_str i ''type'' = Some ''text'') items)
      | _ \<Rightarrow> [])"

text \<open>An \<open>Agent\<close> call with the fork subagent type, its id and the name in its fingerprint.\<close>

definition spawn_of_block :: "json \<Rightarrow> (string \<times> string option) option" where
  "spawn_of_block block =
     (if jget_str block ''type'' \<noteq> Some ''tool_use'' \<or> jget_str block ''name'' \<noteq> Some ''Agent'' then None
      else (case jget_str block ''id'' of
              None \<Rightarrow> None
            | Some ident \<Rightarrow>
                (case jget block ''input'' of
                   None \<Rightarrow> None
                 | Some input \<Rightarrow>
                     if jget_str input ''subagent_type'' \<noteq> Some ''fork'' then None
                     else Some (ident, Option.bind (jget_str input ''prompt'') fork_name_from_prompt))))"

definition usage_field :: "json \<Rightarrow> string \<Rightarrow> u64" where
  "usage_field usage k = (case Option.bind (jget usage k) json_u64 of Some n \<Rightarrow> n | None \<Rightarrow> 0)"

definition usage_total :: "json \<Rightarrow> u64" where
  "usage_total usage =
     usage_field usage ''input_tokens'' + usage_field usage ''cache_read_input_tokens'' +
     usage_field usage ''cache_creation_input_tokens''"

definition scan_assistant :: "json \<Rightarrow> delta \<Rightarrow> delta" where
  "scan_assistant value d =
     (case jget value ''message'' of
        None \<Rightarrow> d
      | Some message \<Rightarrow>
          (let d1 = (case jget_str message ''model'' of
                       Some m \<Rightarrow> d\<lparr>delta_model := Some m\<rparr>
                     | None \<Rightarrow> d);
               d2 = (case jget message ''usage'' of
                       Some usage \<Rightarrow>
                         (let total = usage_total usage
                          in if 0 < total then d1\<lparr>prompt_tokens := Some total\<rparr> else d1)
                     | None \<Rightarrow> d1)
           in (case Option.bind (jget message ''content'') json_array of
                 None \<Rightarrow> d2
               | Some blocks \<Rightarrow> d2\<lparr>spawns := spawns d2 @ List.map_filter spawn_of_block blocks\<rparr>)))"

definition note_text :: "string \<Rightarrow> delta \<Rightarrow> delta" where
  "note_text text d =
     (case parse_task_notification text of
        Some n \<Rightarrow> d\<lparr>notifications := notifications d @ [n]\<rparr>
      | None \<Rightarrow> d)"

definition scan_user_block :: "json \<Rightarrow> delta \<Rightarrow> delta" where
  "scan_user_block block d =
     (if jget_str block ''type'' = Some ''tool_result'' then
        (case jget_str block ''tool_use_id'' of
           None \<Rightarrow> d
         | Some tool \<Rightarrow>
             d\<lparr>task_ids := task_ids d @
                  map (Pair tool) (List.map_filter agent_id_from_result (result_texts block))\<rparr>)
      else if jget_str block ''type'' = Some ''text'' then
        (case jget_str block ''text'' of Some text \<Rightarrow> note_text text d | None \<Rightarrow> d)
      else d)"

definition scan_user :: "json \<Rightarrow> delta \<Rightarrow> delta" where
  "scan_user value d =
     (case Option.bind (jget value ''message'') (\<lambda>m. jget m ''content'') of
        Some (JString text) \<Rightarrow> note_text text d
      | Some (JArray blocks) \<Rightarrow> fold scan_user_block blocks d
      | _ \<Rightarrow> d)"

definition scan_value :: "json \<Rightarrow> delta \<Rightarrow> delta" where
  "scan_value value d =
     (if jget_str value ''type'' = Some ''assistant'' then scan_assistant value d
      else if jget_str value ''type'' = Some ''user'' then scan_user value d
      else d)"

text \<open>\<open>read_line\<close>: up to and including the next newline, or to the end of the file.\<close>

definition read_line :: "string \<Rightarrow> string" where
  "read_line rest = takeWhile (\<lambda>c. c \<noteq> nl) rest @ take 1 (dropWhile (\<lambda>c. c \<noteq> nl) rest)"

lemma read_line_length: "rest \<noteq> [] \<Longrightarrow> 0 < length (read_line rest)"
  by (cases rest) (auto simp: read_line_def)

function scan_lines :: "(string \<Rightarrow> json option) \<Rightarrow> string \<Rightarrow> delta \<Rightarrow> delta option" where
  "scan_lines from_json rest d =
     (if rest = [] then Some d
      else (let line = read_line rest
            in if \<not> utf8_valid line then None
               else if last line \<noteq> nl then Some d
               else (let d1 = d\<lparr>new_offset := new_offset d + of_nat (length line)\<rparr>
                     in scan_lines from_json (drop (length line) rest)
                          (case from_json line of None \<Rightarrow> d1 | Some v \<Rightarrow> scan_value v d1))))"
  by pat_completeness auto
termination
  by (relation "measure (\<lambda>(_, rest, _). length rest)")
    (auto intro!: diff_less read_line_length)

declare scan_lines.simps [simp del]

text \<open>The read itself: \<open>read_file path\<close> is the file's content, \<open>None\<close> when it cannot be opened.\<close>

definition read_delta ::
  "(string \<Rightarrow> json option) \<Rightarrow> (path \<Rightarrow> string option) \<Rightarrow> path \<Rightarrow> u64 \<Rightarrow> delta option" where
  "read_delta from_json read_file p offset =
     (case read_file p of
        None \<Rightarrow> None
      | Some content \<Rightarrow>
          (let start = (if of_nat (length content) < offset then 0 else offset)
           in scan_lines from_json (drop (unat start) content) (empty_delta\<lparr>new_offset := start\<rparr>)))"

section \<open>Reading in pieces\<close>

text \<open>What a second read adds to the first: later gauges win, lists are appended.\<close>

definition delta_then :: "delta \<Rightarrow> delta \<Rightarrow> delta" where
  "delta_then d e = \<lparr>new_offset = new_offset e,
     prompt_tokens = (case prompt_tokens e of Some n \<Rightarrow> Some n | None \<Rightarrow> prompt_tokens d),
     delta_model = (case delta_model e of Some m \<Rightarrow> Some m | None \<Rightarrow> delta_model d),
     spawns = spawns d @ spawns e, task_ids = task_ids d @ task_ids e,
     notifications = notifications d @ notifications e\<rparr>"

lemma note_text_then: "note_text t (delta_then d e) = delta_then d (note_text t e)"
  by (simp add: note_text_def delta_then_def split: option.split)

lemma task_ids_then:
  "(delta_then d e)\<lparr>task_ids := task_ids (delta_then d e) @ xs\<rparr> =
   delta_then d (e\<lparr>task_ids := task_ids e @ xs\<rparr>)"
  by (simp add: delta_then_def)

lemma scan_user_block_then: "scan_user_block b (delta_then d e) = delta_then d (scan_user_block b e)"
  by (simp add: scan_user_block_def note_text_then task_ids_then split: option.split)

lemma scan_user_blocks_then:
  "fold scan_user_block bs (delta_then d e) = delta_then d (fold scan_user_block bs e)"
  by (induction bs arbitrary: e) (simp_all add: scan_user_block_then)

lemma scan_user_then: "scan_user v (delta_then d e) = delta_then d (scan_user v e)"
  by (simp add: scan_user_def note_text_then scan_user_blocks_then split: option.split json.split)

lemma scan_assistant_then: "scan_assistant v (delta_then d e) = delta_then d (scan_assistant v e)"
  by (simp add: scan_assistant_def delta_then_def Let_def split: option.split)

lemma scan_value_then: "scan_value v (delta_then d e) = delta_then d (scan_value v e)"
  by (simp add: scan_value_def scan_user_then scan_assistant_then)

lemma new_offset_then: "(delta_then d e)\<lparr>new_offset := n\<rparr> = delta_then d (e\<lparr>new_offset := n\<rparr>)"
  "new_offset (delta_then d e) = new_offset e"
  by (simp_all add: delta_then_def)

lemma delta_then_empty: "delta_then d (empty_delta\<lparr>new_offset := new_offset d\<rparr>) = d"
  by (simp add: delta_then_def empty_delta_def)

lemma scan_user_block_offset [simp]: "new_offset (scan_user_block b d) = new_offset d"
  by (simp add: scan_user_block_def note_text_def split: option.split)

lemma scan_user_blocks_offset [simp]: "new_offset (fold scan_user_block bs d) = new_offset d"
  by (induction bs arbitrary: d) simp_all

lemma scan_value_offset [simp]: "new_offset (scan_value v d) = new_offset d"
  by (simp add: scan_value_def scan_user_def scan_assistant_def note_text_def Let_def
      split: option.split json.split)

text \<open>One complete line, as a step.\<close>

definition take_line :: "(string \<Rightarrow> json option) \<Rightarrow> string \<Rightarrow> delta \<Rightarrow> delta" where
  "take_line from_json line d =
     (let d1 = d\<lparr>new_offset := new_offset d + of_nat (length line)\<rparr>
      in case from_json line of None \<Rightarrow> d1 | Some v \<Rightarrow> scan_value v d1)"

lemma scan_lines_unfold:
  "scan_lines fj rest d =
     (if rest = [] then Some d
      else if \<not> utf8_valid (read_line rest) then None
      else if last (read_line rest) \<noteq> nl then Some d
      else scan_lines fj (drop (length (read_line rest)) rest) (take_line fj (read_line rest) d))"
  by (subst scan_lines.simps) (simp add: take_line_def Let_def)

lemma scan_lines_Nil [simp]: "scan_lines fj [] d = Some d"
  by (simp add: scan_lines_unfold)

lemma take_line_then: "take_line fj line (delta_then d e) = delta_then d (take_line fj line e)"
  by (simp add: take_line_def Let_def new_offset_then scan_value_then split: option.split)

lemma take_line_offset [simp]: "new_offset (take_line fj line d) = new_offset d + of_nat (length line)"
  by (simp add: take_line_def Let_def split: option.split)

lemma drop_read_line_less: "rest \<noteq> [] \<Longrightarrow> length (drop (length (read_line rest)) rest) < length rest"
  by (auto intro!: diff_less read_line_length)

lemma scan_lines_then:
  "scan_lines fj rest (delta_then d e) = map_option (delta_then d) (scan_lines fj rest e)"
proof (induction rest arbitrary: e rule: length_induct)
  case (1 rest)
  then have "rest \<noteq> [] \<Longrightarrow>
      scan_lines fj (drop (length (read_line rest)) rest) (delta_then d x) =
      map_option (delta_then d) (scan_lines fj (drop (length (read_line rest)) rest) x)" for x
    using drop_read_line_less by blast
  then show ?case
    by (simp add: scan_lines_unfold [of fj rest] take_line_then)
qed

text \<open>The newline-terminated part of a text, and what follows it.\<close>

definition complete_part :: "string \<Rightarrow> string" where
  "complete_part s = rev (dropWhile (\<lambda>c. c \<noteq> nl) (rev s))"

definition partial_line :: "string \<Rightarrow> string" where
  "partial_line s = rev (takeWhile (\<lambda>c. c \<noteq> nl) (rev s))"

lemma complete_partial: "complete_part s @ partial_line s = s"
  by (simp add: complete_part_def partial_line_def flip: rev_append)

lemma nl_partial_line: "nl \<notin> set (partial_line s)"
  by (auto simp: partial_line_def dest: set_takeWhileD)

lemma complete_part_ends: "complete_part s = [] \<or> last (complete_part s) = nl"
  using hd_dropWhile [of "\<lambda>c. c \<noteq> nl" "rev s"] by (auto simp: complete_part_def last_rev)

lemma read_line_complete:
  assumes "a \<noteq> []" and "last a = nl"
  shows "read_line (a @ b) = read_line a" and "last (read_line a) = nl"
    and "\<exists>a'. a = read_line a @ a' \<and> (a' = [] \<or> last a' = nl)"
proof -
  have "nl \<in> set a" using assms last_in_set by metis
  then obtain x y where a: "a = x @ nl # y" and x: "nl \<notin> set x"
    by (meson split_list_first)
  then have *: "read_line (a @ c) = x @ [nl]" for c
    by (simp add: read_line_def takeWhile_append dropWhile_append)
  from * [of b] * [of "[]"] show "read_line (a @ b) = read_line a" "last (read_line a) = nl"
    by simp_all
  show "\<exists>a'. a = read_line a @ a' \<and> (a' = [] \<or> last a' = nl)"
    using * [of "[]"] assms a by (intro exI [of _ y]) (auto split: if_splits)
qed

lemma read_line_partial: "nl \<notin> set s \<Longrightarrow> read_line s = s"
proof -
  assume "nl \<notin> set s"
  then have *: "takeWhile (\<lambda>c. c \<noteq> nl) s = s" "dropWhile (\<lambda>c. c \<noteq> nl) s = []"
    by (auto simp: takeWhile_eq_all_conv dropWhile_eq_Nil_conv)
  show ?thesis by (simp only: read_line_def * take_Nil append_Nil2)
qed

lemma scan_lines_append:
  "a = [] \<or> last a = nl \<Longrightarrow>
   scan_lines fj (a @ b) d = Option.bind (scan_lines fj a d) (scan_lines fj b)"
proof (induction a arbitrary: d rule: length_induct)
  case (1 a)
  show ?case
  proof (cases "a = []")
    case True
    then show ?thesis by (simp add: scan_lines_unfold [of fj "[]"])
  next
    case False
    with 1 have nl: "last a = nl" by simp
    note rl = read_line_complete [OF False nl]
    then obtain a' where a': "a = read_line a @ a'" "a' = [] \<or> last a' = nl" by blast
    then have dr: "drop (length (read_line a)) (a @ b) = a' @ b"
      "drop (length (read_line a)) a = a'"
      by (metis append_assoc append_eq_conv_conj)+
    have "length a' < length a"
      using a'(1) read_line_length [OF False] by (metis length_append less_add_same_cancel2)
    then have "scan_lines fj (a' @ b) x = Option.bind (scan_lines fj a' x) (scan_lines fj b)" for x
      using 1 a'(2) by blast
    then show ?thesis
      using False rl dr by (simp add: scan_lines_unfold [of fj "a @ b"] scan_lines_unfold [of fj a])
  qed
qed

lemma scan_lines_partial:
  "nl \<notin> set s \<Longrightarrow> scan_lines fj s d = (if utf8_valid s then Some d else None)"
proof -
  assume s: "nl \<notin> set s"
  then have "s \<noteq> [] \<Longrightarrow> last s \<noteq> nl" by (metis last_in_set)
  with s show ?thesis
    by (cases "s = []") (simp_all add: scan_lines_unfold [of fj s] read_line_partial)
qed

lemma scan_lines_offset:
  "a = [] \<or> last a = nl \<Longrightarrow> scan_lines fj a d = Some e \<Longrightarrow>
   new_offset e = new_offset d + of_nat (length a)"
proof (induction a arbitrary: d rule: length_induct)
  case (1 a)
  show ?case
  proof (cases "a = []")
    case True
    with 1 show ?thesis by (simp add: scan_lines_unfold [of fj "[]"])
  next
    case False
    with 1 have nl: "last a = nl" by simp
    obtain a' where a': "a = read_line a @ a'" "a' = [] \<or> last a' = nl"
      using read_line_complete(3) [OF False nl] by blast
    have less: "length a' < length a"
      using a'(1) read_line_length [OF False] by (metis length_append less_add_same_cancel2)
    have dr: "drop (length (read_line a)) a = a'"
      using a'(1) by (metis append_eq_conv_conj)
    have "scan_lines fj a' (take_line fj (read_line a) d) = Some e"
      using 1(3) False dr read_line_complete(2) [OF False nl]
      by (simp add: scan_lines_unfold [of fj a] split: if_splits)
    with 1(1) less a'(2) have "new_offset e = new_offset (take_line fj (read_line a) d) + of_nat (length a')"
      by blast
    then show ?thesis
      using arg_cong [OF a'(1), of length] by simp
  qed
qed


lemma scan_lines_split:
  "scan_lines fj s d =
     (if utf8_valid (partial_line s) then scan_lines fj (complete_part s) d else None)"
proof -
  have "scan_lines fj (complete_part s @ partial_line s) d =
      Option.bind (scan_lines fj (complete_part s) d) (scan_lines fj (partial_line s))"
    by (rule scan_lines_append [OF complete_part_ends])
  then show ?thesis
    by (cases "scan_lines fj (complete_part s) d")
      (simp_all add: complete_partial scan_lines_partial [OF nl_partial_line])
qed

lemma length_complete_part: "length (complete_part s) \<le> length s"
  using arg_cong [OF complete_partial [of s], of length] by simp

lemma scan_lines_resume:
  assumes "scan_lines fj c (empty_delta\<lparr>new_offset := k\<rparr>) = Some d"
  shows "new_offset d = k + of_nat (length (complete_part c))"
    and "scan_lines fj (c @ added) (empty_delta\<lparr>new_offset := k\<rparr>) =
      map_option (delta_then d)
        (scan_lines fj (partial_line c @ added) (empty_delta\<lparr>new_offset := new_offset d\<rparr>))"
proof -
  let ?e = "empty_delta\<lparr>new_offset := k\<rparr>"
  have d: "scan_lines fj (complete_part c) ?e = Some d"
    using assms by (simp add: scan_lines_split [of fj c] split: if_splits)
  show "new_offset d = k + of_nat (length (complete_part c))"
    using scan_lines_offset [OF complete_part_ends d] by simp
  have "scan_lines fj (c @ added) ?e = scan_lines fj (complete_part c @ partial_line c @ added) ?e"
    by (metis append.assoc complete_partial)
  also have "\<dots> = scan_lines fj (partial_line c @ added) d"
    using scan_lines_append [OF complete_part_ends, of fj c "partial_line c @ added" ?e] d by simp
  also have "\<dots> = map_option (delta_then d)
      (scan_lines fj (partial_line c @ added) (empty_delta\<lparr>new_offset := new_offset d\<rparr>))"
    using scan_lines_then [of fj "partial_line c @ added" d] by (metis delta_then_empty)
  finally show "scan_lines fj (c @ added) ?e =
      map_option (delta_then d)
        (scan_lines fj (partial_line c @ added) (empty_delta\<lparr>new_offset := new_offset d\<rparr>))" .
qed

text \<open>C23. Reading a growing transcript in two passes, the second from the offset the first one
  reported, finds what one pass over the whole file finds: nothing is read twice, a partially
  written last line is not lost, and the second pass fails exactly when the single pass does.\<close>

theorem read_delta_incremental:
  assumes "old p = Some c" and "new p = Some (c @ added)" and "length (c @ added) < 2 ^ 64"
    and "read_delta fj old p 0 = Some d"
  shows "read_delta fj new p 0 = map_option (delta_then d) (read_delta fj new p (new_offset d))"
proof -
  have "scan_lines fj c (empty_delta\<lparr>new_offset := 0\<rparr>) = Some d"
    using assms(1,4) by (simp add: read_delta_def Let_def)
  note r = scan_lines_resume [OF this]
  have le: "length (complete_part c) \<le> length (c @ added)"
    using length_complete_part [of c] by simp
  then have off: "unat (new_offset d) = length (complete_part c)"
    using r(1) assms(3) by (simp add: unat_of_nat_u64)
  have "\<not> of_nat (length (c @ added)) < new_offset d"
    using le off by (simp only: word_less_nat_alt unat_of_nat_u64 [OF assms(3)] not_less)
  moreover have "drop (unat (new_offset d)) (c @ added) = partial_line c @ added"
    unfolding off by (metis append.assoc append_eq_conv_conj complete_partial)
  ultimately show ?thesis
    using assms(2) r(2) [of added] by (simp add: read_delta_def Let_def)
qed


definition sample_line_json :: "string \<Rightarrow> json option" where
  "sample_line_json line =
     (if line = ''u'' @ [nl]
      then Some (JObject [(''type'', JString ''user''),
                          (''message'', JObject [(''content'', JString TASK_NOTIFICATION_PREFIX)])])
      else None)"

definition sample_delta :: delta where
  "sample_delta = empty_delta\<lparr>new_offset := 2,
     notifications := [\<lparr>tool_use_id = None, task_id = None, status = None\<rparr>]\<rparr>"

theorem read_delta_incremental_witness:
  "read_delta sample_line_json (\<lambda>_. Some (''u'' @ [nl] @ ''u'' @ [nl])) ''t'' 0 =
   map_option (delta_then sample_delta)
     (read_delta sample_line_json (\<lambda>_. Some (''u'' @ [nl] @ ''u'' @ [nl])) ''t'' 2)"
proof -
  have "read_delta sample_line_json (\<lambda>_. Some (''u'' @ [nl] @ ''u'')) ''t'' 0 = Some sample_delta"
    by code_simp
  then show ?thesis
    using read_delta_incremental [of "\<lambda>_. Some (''u'' @ [nl] @ ''u'')" "''t''" "''u'' @ [nl] @ ''u''"
        "\<lambda>_. Some (''u'' @ [nl] @ ''u'' @ [nl])" "[nl]" sample_line_json sample_delta]
    by (simp add: sample_delta_def)
qed

section \<open>The fingerprint\<close>

lemma find_fingerprint:
  assumes "\<not> contains pth SPAWN_CTX_PREFIX"
  shows "find_sub SPAWN_CTX_PREFIX
      (''Read the file '' @ pth @ '' and follow the instructions in its body. '' @ SPAWN_CTX_PREFIX @ s) =
    Some (14 + length pth + 42)"
proof -
  let ?mid = "'' and follow the instructions in its body. ''"
  have "find_sub SPAWN_CTX_PREFIX (?mid @ SPAWN_CTX_PREFIX @ s) = Some (length ?mid)"
    by (rule find_sub_absent_head) (simp_all add: SPAWN_CTX_PREFIX_def)
  moreover have "list_all (\<lambda>k. \<not> starts_with (?mid @ SPAWN_CTX_PREFIX @ s) (drop k SPAWN_CTX_PREFIX))
      [1..<length SPAWN_CTX_PREFIX]"
    by (simp add: SPAWN_CTX_PREFIX_def upt_rec)
  ultimately have "find_sub SPAWN_CTX_PREFIX (pth @ ?mid @ SPAWN_CTX_PREFIX @ s) = Some (length pth + 42)"
    using find_sub_after_field [OF _ assms] by (simp add: SPAWN_CTX_PREFIX_def)
  then show ?thesis
    by (subst find_sub_skip) (simp_all add: SPAWN_CTX_PREFIX_def)
qed


lemma find_quote: "find_sub [CHR 0x27] (x @ CHR 0x27 # s) = Some (length (takeWhile (\<lambda>c. c \<noteq> CHR 0x27) x))"
proof (induction x)
  case Nil
  then show ?case by simp
next
  case (Cons c x)
  then show ?case by simp
qed

lemma take_takeWhile: "take (length (takeWhile P x)) (x @ y) = takeWhile P x"
  by (induction x) auto

lemma drop_two: "drop (length a + length b) (a @ b @ c) = c"
  by simp

lemma fork_name_at:
  "find_sub SPAWN_CTX_PREFIX prompt = Some i \<Longrightarrow>
   drop (i + length SPAWN_CTX_PREFIX) prompt = x @ CHR 0x27 # s \<Longrightarrow>
   fork_name_from_prompt prompt =
     (let n = takeWhile (\<lambda>c. c \<noteq> CHR 0x27) x in if n = [] then None else Some n)"
  by (simp add: fork_name_from_prompt_def find_quote take_takeWhile Let_def del: take_append)

text \<open>C37. The spawn prompt's fingerprint and its reader agree: from the spawn prompt of a fork,
  with any text after it, \<open>fork_name_from_prompt\<close> reads the fork's name up to its first
  apostrophe. A name without apostrophes comes back whole; one that has an apostrophe does not.\<close>

theorem fork_name_roundtrip:
  assumes "\<not> contains (due_path f) SPAWN_CTX_PREFIX"
  shows "fork_name_from_prompt (spawn_prompt f sid cid root @ post) =
    (let n = takeWhile (\<lambda>c. c \<noteq> CHR 0x27) (due_name f) in if n = [] then None else Some n)"
proof -
  let ?pre = "''Read the file '' @ due_path f @ '' and follow the instructions in its body. ''"
  obtain s where s: "spawn_prompt f sid cid root @ post =
      ?pre @ SPAWN_CTX_PREFIX @ due_name f @ CHR 0x27 # s"
    by (simp add: spawn_prompt_def)
  have "find_sub SPAWN_CTX_PREFIX (spawn_prompt f sid cid root @ post) = Some (length ?pre)"
    using find_fingerprint [OF assms, of "due_name f @ CHR 0x27 # s"] unfolding s by simp
  moreover have "drop (length ?pre + length SPAWN_CTX_PREFIX) (spawn_prompt f sid cid root @ post) =
      due_name f @ CHR 0x27 # s"
    unfolding s by (rule drop_two)
  ultimately show ?thesis
    by (rule fork_name_at)
qed

theorem fork_name_roundtrip_witness:
  "fork_name_from_prompt (spawn_prompt sample_due ''s'' ''c'' ''/p'' @ []) = Some ''journal''
   \<and> fork_name_from_prompt (spawn_prompt (sample_due\<lparr>due_name := ''it's''\<rparr>) ''s'' ''c'' ''/p'' @ [])
     = Some ''it''"
  using fork_name_roundtrip [of sample_due "''s''" "''c''" "''/p''" "[]"]
    fork_name_roundtrip [of "sample_due\<lparr>due_name := ''it's''\<rparr>" "''s''" "''c''" "''/p''" "[]"]
  by (simp add: sample_due_def SPAWN_CTX_PREFIX_def contains_def)

end
