(* ===== verification/Daemon_State.thy ===== *)
theory Daemon_State
  imports Protocol Config Discovery Transcript
begin

text \<open>
  The daemon's shared state, the struct \<open>Daemon\<close> of \<open>crates/autofork-daemon/src/daemon.rs\<close>, with
  the helper methods that touch one field. What the daemon reads of its surroundings is a record:
  the file system, the environment and the third-party parsers. A clock reading is an argument
  of the operation that takes it. A mutex-protected field is a field; a oneshot sender in \<open>waits\<close> is
  the number of the poll that holds its receiver, and \<open>cancelled\<close> collects the polls whose receiver
  was signalled.
\<close>

record world =
  w_fs :: fs
  w_env :: "string \<Rightarrow> string option"
  w_from_yaml :: "string \<Rightarrow> raw_fork option"
  w_from_toml :: "string \<Rightarrow> string + raw_config"
  w_from_json :: "string \<Rightarrow> json option"

record daemon =
  paths_of :: paths
  the_store :: store
  waits :: "string \<Rightarrow> nat option"
  cancelled :: "nat set"
  wake_issued_at :: "string \<Rightarrow> i64 option"
  parked :: "string \<Rightarrow> nat option"
  pending_close :: "string \<Rightarrow> u64 option"
  close_gen :: u64
  connections :: nat
  last_busy :: i64

definition new_daemon :: "paths \<Rightarrow> store \<Rightarrow> i64 \<Rightarrow> daemon" where
  "new_daemon ps st t = \<lparr>paths_of = ps, the_store = st, waits = Map.empty, cancelled = {},
     wake_issued_at = Map.empty, parked = Map.empty, pending_close = Map.empty, close_gen = 0,
     connections = 0, last_busy = t\<rparr>"

definition with_store :: "(store \<Rightarrow> store) \<Rightarrow> daemon \<Rightarrow> daemon" where
  "with_store f d = d\<lparr>the_store := f (the_store d)\<rparr>"

definition touch_busy :: "i64 \<Rightarrow> daemon \<Rightarrow> daemon" where
  "touch_busy t d = d\<lparr>last_busy := t\<rparr>"

definition user_forks_root :: "daemon \<Rightarrow> path" where
  "user_forks_root d = path_join (base (paths_of d)) ''forks''"

definition cfg_for :: "world \<Rightarrow> daemon \<Rightarrow> path option \<Rightarrow> config" where
  "cfg_for w d root = fst (load_config_at (w_from_toml w) (w_fs w) root (user_config (paths_of d)))"

definition cancel_wait :: "string \<Rightarrow> daemon \<Rightarrow> daemon" where
  "cancel_wait sid d =
     (case waits d sid of
        None \<Rightarrow> d
      | Some poll \<Rightarrow> d\<lparr>waits := (waits d)(sid := None), cancelled := insert poll (cancelled d)\<rparr>)"

definition note_wake_issued :: "string \<Rightarrow> i64 \<Rightarrow> daemon \<Rightarrow> daemon" where
  "note_wake_issued sid t d = d\<lparr>wake_issued_at := (wake_issued_at d)(sid \<mapsto> t)\<rparr>"

definition is_parked :: "string \<Rightarrow> daemon \<Rightarrow> bool" where
  "is_parked sid d \<longleftrightarrow> parked d sid \<noteq> None"

definition clear_pending_close :: "string \<Rightarrow> daemon \<Rightarrow> daemon" where
  "clear_pending_close sid d = d\<lparr>pending_close := (pending_close d)(sid := None)\<rparr>"

text \<open>\<open>ParkGuard\<close>: its constructor and its drop.\<close>

definition park_new :: "string \<Rightarrow> daemon \<Rightarrow> daemon" where
  "park_new sid d =
     d\<lparr>parked := (parked d)(sid \<mapsto> (case parked d sid of Some c \<Rightarrow> c | None \<Rightarrow> 0) + 1)\<rparr>"

definition park_drop :: "string \<Rightarrow> daemon \<Rightarrow> daemon" where
  "park_drop sid d =
     (case parked d sid of
        None \<Rightarrow> d
      | Some c \<Rightarrow>
          if c - 1 = 0 then d\<lparr>parked := (parked d)(sid := None)\<rparr>
          else d\<lparr>parked := (parked d)(sid \<mapsto> c - 1)\<rparr>)"

definition wake_grace_secs :: "world \<Rightarrow> i64" where
  "wake_grace_secs w =
     (case Option.bind (w_env w ''AUTOFORK_WAKE_GRACE_SECS'') parse_i64 of Some n \<Rightarrow> n | None \<Rightarrow> 20)"

text \<open>In milliseconds.\<close>

definition poll_loss_grace :: "world \<Rightarrow> u64" where
  "poll_loss_grace w =
     (case Option.bind (w_env w ''AUTOFORK_POLL_LOSS_GRACE_MS'') parse_u64 of Some n \<Rightarrow> n | None \<Rightarrow> 90000)"

definition recently_woke :: "world \<Rightarrow> string \<Rightarrow> i64 \<Rightarrow> daemon \<Rightarrow> bool" where
  "recently_woke w sid t d =
     (case wake_issued_at d sid of Some at \<Rightarrow> i64_sub t at < wake_grace_secs w | None \<Rightarrow> False)"

definition is_quiet :: "daemon \<Rightarrow> bool" where
  "is_quiet d \<longleftrightarrow> connections d = 0"

lemma with_store_simps [simp]:
  "the_store (with_store f d) = f (the_store d)" "waits (with_store f d) = waits d"
  "cancelled (with_store f d) = cancelled d" "wake_issued_at (with_store f d) = wake_issued_at d"
  "parked (with_store f d) = parked d" "pending_close (with_store f d) = pending_close d"
  "close_gen (with_store f d) = close_gen d" "paths_of (with_store f d) = paths_of d"
  "connections (with_store f d) = connections d" "last_busy (with_store f d) = last_busy d"
  by (simp_all add: with_store_def)

lemma the_store_ops [simp]:
  "the_store (touch_busy t d) = the_store d" "the_store (cancel_wait sid d) = the_store d"
  "the_store (note_wake_issued sid t d) = the_store d"
  "the_store (clear_pending_close sid d) = the_store d" "the_store (park_new sid d) = the_store d"
  "the_store (park_drop sid d) = the_store d"
  by (simp_all add: touch_busy_def cancel_wait_def note_wake_issued_def clear_pending_close_def
      park_new_def park_drop_def split: option.split)

lemma park_count:
  "parked (park_new sid d) sid' = (if sid' = sid then Some (case parked d sid of Some c \<Rightarrow> c + 1 | None \<Rightarrow> 1)
                                   else parked d sid')"
  by (simp add: park_new_def split: option.split)

lemma park_drop_new: "parked d sid \<noteq> Some 0 \<Longrightarrow> park_drop sid (park_new sid d) = d"
  by (cases d) (auto simp: park_drop_def park_new_def fun_eq_iff split: option.split)

end
