(* ===== verification/Schedule.thy ===== *)
theory Schedule
  imports Rust_Prelude
begin

text \<open>
  The resolver of \<open>after\<close> dependencies, \<open>crates/autofork-core/src/schedule.rs\<close>. The trait
  \<open>Selected\<close> is a pair of functions (the fork's name and its \<open>after\<close> names) that every
  definition takes as its first two arguments. \<open>deps ! i\<close> lists the indices that must finish
  before \<open>i\<close> runs. The two nested loops of \<open>resolve_deps\<close> are \<open>peel_loop\<close> (the peel
  closure) and \<open>break_cycles\<close> (cut one member, try again), each with its termination proof.
\<close>

section \<open>The model\<close>

text \<open>\<open>name_to_idx\<close>: collecting into a \<open>HashMap\<close> keeps the last index of a repeated name.\<close>

definition name_to_idx :: "('s \<Rightarrow> string) \<Rightarrow> 's list \<Rightarrow> string \<Rightarrow> nat option" where
  "name_to_idx name sel = map_of (rev (zip (map name sel) [0..<length sel]))"

text \<open>\<open>Vec::dedup\<close> drops consecutive repetitions only, as \<^const>\<open>remdups_adj\<close> does.\<close>

definition initial_deps :: "('s \<Rightarrow> string) \<Rightarrow> ('s \<Rightarrow> string list) \<Rightarrow> 's list \<Rightarrow> nat list list" where
  "initial_deps name after sel =
     map (\<lambda>(i, s). remdups_adj (filter (\<lambda>d. d \<noteq> i) (List.map_filter (name_to_idx name sel) (after s))))
       (zip [0..<length sel] sel)"

text \<open>One pass of the inner loop over \<open>0..n\<close>: \<open>done\<close> is updated in place, so an index
  marked early in the pass already counts for a later one.\<close>

fun peel_pass :: "nat list list \<Rightarrow> nat list \<Rightarrow> bool list \<Rightarrow> bool \<Rightarrow> bool list \<times> bool" where
  "peel_pass deps [] don changed = (don, changed)"
| "peel_pass deps (i # is) don changed =
     (if \<not> don ! i \<and> list_all (\<lambda>d. don ! d) (deps ! i)
      then peel_pass deps is (don[i := True]) True
      else peel_pass deps is don changed)"

definition pending_count :: "bool list \<Rightarrow> nat" where
  "pending_count don = length (filter Not don)"

lemma pending_count_update:
  "i < length don \<Longrightarrow> \<not> don ! i \<Longrightarrow> Suc (pending_count (don[i := True])) = pending_count don"
  by (induction don arbitrary: i) (auto simp: pending_count_def nth_Cons split: nat.splits)

lemma peel_pass_length [simp]: "length (fst (peel_pass deps is don ch)) = length don"
  by (induction deps "is" don ch rule: peel_pass.induct) auto

lemma peel_pass_count:
  "(\<And>i. i \<in> set is \<Longrightarrow> i < length don) \<Longrightarrow> peel_pass deps is don ch = (don', ch') \<Longrightarrow>
   pending_count don' \<le> pending_count don \<and> (ch' \<longrightarrow> ch \<or> pending_count don' < pending_count don)"
proof (induction deps "is" don ch rule: peel_pass.induct)
  case (1 deps don ch)
  then show ?case by simp
next
  case (2 deps i "is" don ch)
  show ?case
  proof (cases "\<not> don ! i \<and> list_all (\<lambda>d. don ! d) (deps ! i)")
    case True
    with 2 have "pending_count don' \<le> pending_count (don[i := True])" by simp
    with True "2.prems"(1) [of i] show ?thesis
      by (auto dest: pending_count_update)
  next
    case False
    with 2 show ?thesis by auto
  qed
qed

lemma peel_pass_progress:
  assumes "(don', True) = peel_pass deps [0..<length don] don False"
  shows "pending_count don' < pending_count don"
  using peel_pass_count [OF _ assms [symmetric]] by simp

function peel_loop :: "nat list list \<Rightarrow> bool list \<Rightarrow> bool list" where
  "peel_loop deps don =
     (case peel_pass deps [0..<length don] don False of
        (don', changed) \<Rightarrow> if changed then peel_loop deps don' else don')"
  by pat_completeness auto
termination
  by (relation "measure (\<lambda>(deps, don). pending_count don)") (auto intro: peel_pass_progress)

declare peel_loop.simps [simp del]

definition peel :: "nat list list \<Rightarrow> bool list" where
  "peel deps = peel_loop deps (replicate (length deps) False)"

text \<open>\<open>deps[cut].retain(|d| done[*d])\<close>\<close>

definition cut_deps :: "nat list list \<Rightarrow> bool list \<Rightarrow> nat \<Rightarrow> nat list list" where
  "cut_deps deps don c = deps[c := filter (\<lambda>d. don ! d) (deps ! c)]"

subsection \<open>Facts about the peel closure\<close>

text \<open>A pass that changes nothing marks nothing and leaves no index ready.\<close>

lemma peel_pass_ch: "peel_pass deps is don True = (don', ch') \<Longrightarrow> ch'"
  by (induction deps "is" don True rule: peel_pass.induct) (auto split: if_splits)

lemma peel_pass_fix:
  "peel_pass deps is don False = (don', False) \<Longrightarrow>
   don' = don \<and> (\<forall>i \<in> set is. don ! i \<or> \<not> list_all (\<lambda>d. don ! d) (deps ! i))"
proof (induction deps "is" don False rule: peel_pass.induct)
  case (1 deps don)
  then show ?case by simp
next
  case (2 deps i "is" don)
  then show ?case by (auto split: if_splits dest: peel_pass_ch)
qed

lemma peel_loop_fix:
  "length (peel_loop deps don) = length don \<and>
   (\<forall>i < length don. peel_loop deps don ! i \<or>
      \<not> list_all (\<lambda>d. peel_loop deps don ! d) (deps ! i))"
proof (induction deps don rule: peel_loop.induct)
  case (1 deps don)
  obtain don' ch where p: "peel_pass deps [0..<length don] don False = (don', ch)"
    by (cases "peel_pass deps [0..<length don] don False")
  have len: "length don' = length don"
    using peel_pass_length [of deps "[0..<length don]" don False] p by simp
  show ?case
  proof (cases ch)
    case True
    with "1.IH" [OF p [symmetric]] p len show ?thesis
      by (simp add: peel_loop.simps [of deps don])
  next
    case False
    with p peel_pass_fix [of deps "[0..<length don]" don don'] show ?thesis
      by (auto simp: peel_loop.simps [of deps don])
  qed
qed

lemma length_peel [simp]: "length (peel deps) = length deps"
  by (simp add: peel_def peel_loop_fix)

lemma peel_closed:
  "i < length deps \<Longrightarrow> list_all (\<lambda>d. peel deps ! d) (deps ! i) \<Longrightarrow> peel deps ! i"
  using peel_loop_fix [of deps "replicate (length deps) False"] by (auto simp: peel_def)

lemma unready_has_unmet:
  "i < length deps \<Longrightarrow> \<not> peel deps ! i \<Longrightarrow> \<exists>d \<in> set (deps ! i). \<not> peel deps ! d"
  using peel_closed [of i deps] by (auto simp: list_all_iff)

text \<open>The number of edges left, which every cut lowers.\<close>

definition edge_count :: "nat list list \<Rightarrow> nat" where
  "edge_count deps = sum_list (map length deps)"

lemma sum_list_update_less:
  fixes xs :: "nat list"
  shows "i < length xs \<Longrightarrow> v < xs ! i \<Longrightarrow> sum_list (xs[i := v]) < sum_list xs"
  by (induction xs arbitrary: i) (auto simp: nth_Cons split: nat.splits)

lemma cut_deps_less:
  assumes "i < length deps" and "\<not> peel deps ! i"
  shows "edge_count (cut_deps deps (peel deps) i) < edge_count deps"
proof -
  obtain d where "d \<in> set (deps ! i)" "\<not> peel deps ! d"
    using unready_has_unmet [OF assms] by blast
  then have "length (filter (\<lambda>d. peel deps ! d) (deps ! i)) < length (deps ! i)"
    by (rule length_filter_less)
  with assms(1) show ?thesis
    by (simp add: edge_count_def cut_deps_def map_update sum_list_update_less)
qed

section \<open>The outer loop\<close>

text \<open>\<open>find\<close> returns an index whenever some entry of \<open>done\<close> is false; the \<open>unwrap\<close>
  of the source is the \<open>None\<close> branch, which \<open>first_unready_Some\<close> shows is never taken.\<close>

definition first_unready :: "bool list \<Rightarrow> nat option" where
  "first_unready don = find (\<lambda>i. \<not> don ! i) [0..<length don]"

lemma first_unready_Some:
  "first_unready don = Some i \<Longrightarrow> i < length don \<and> \<not> don ! i"
  by (auto simp: first_unready_def find_Some_iff)

lemma first_unready_None: "first_unready don = None \<longleftrightarrow> list_all (\<lambda>d. d) don"
  by (auto simp: first_unready_def find_None_iff list_all_length)

function break_cycles :: "nat list list \<Rightarrow> nat list list" where
  "break_cycles deps =
     (if list_all (\<lambda>d. d) (peel deps) then deps
      else (case first_unready (peel deps) of
              None \<Rightarrow> deps
            | Some c \<Rightarrow> break_cycles (cut_deps deps (peel deps) c)))"
  by pat_completeness auto
termination
  by (relation "measure edge_count") (auto dest!: first_unready_Some intro: cut_deps_less)

declare break_cycles.simps [simp del]

definition resolve_deps :: "('s \<Rightarrow> string) \<Rightarrow> ('s \<Rightarrow> string list) \<Rightarrow> 's list \<Rightarrow> nat list list" where
  "resolve_deps name after sel = break_cycles (initial_deps name after sel)"

definition roots :: "nat list list \<Rightarrow> nat list" where
  "roots deps = filter (\<lambda>i. deps ! i = []) [0..<length deps]"

section \<open>The resolved graph is acyclic\<close>

definition dep_edges :: "nat list list \<Rightarrow> (nat \<times> nat) set" where
  "dep_edges deps = {(d, i). i < length deps \<and> d \<in> set (deps ! i)}"

definition deps_in_range :: "nat list list \<Rightarrow> bool" where
  "deps_in_range deps \<longleftrightarrow> (\<forall>i < length deps. \<forall>d \<in> set (deps ! i). d < length deps)"

text \<open>Every index the closure marks is accessible: its dependencies were marked before it.\<close>

lemma peel_pass_acc:
  assumes "\<And>i. i < length don \<Longrightarrow> don ! i \<Longrightarrow> i \<in> Wellfounded.acc (dep_edges deps)"
    and "\<And>i. i \<in> set is \<Longrightarrow> i < length don" and "deps_in_range deps"
    and "length don = length deps" and "peel_pass deps is don ch = (don', ch')"
  shows "i < length don \<Longrightarrow> don' ! i \<Longrightarrow> i \<in> Wellfounded.acc (dep_edges deps)"
  using assms
proof (induction deps "is" don ch rule: peel_pass.induct)
  case (1 deps don ch)
  then show ?case by simp
next
  case (2 deps j "is" don ch)
  show ?case
  proof (cases "\<not> don ! j \<and> list_all (\<lambda>d. don ! d) (deps ! j)")
    case True
    have "j \<in> Wellfounded.acc (dep_edges deps)"
    proof (rule accI)
      fix d
      assume "(d, j) \<in> dep_edges deps"
      then have "d \<in> set (deps ! j)" and "j < length deps" by (auto simp: dep_edges_def)
      with True "2.prems"(5,6) have "don ! d" and "d < length don"
        by (auto simp: list_all_iff deps_in_range_def)
      then show "d \<in> Wellfounded.acc (dep_edges deps)" by (rule "2.prems"(3)[rotated])
    qed
    with "2.prems"(3) have "k < length (don[j := True]) \<Longrightarrow> don[j := True] ! k \<Longrightarrow>
        k \<in> Wellfounded.acc (dep_edges deps)" for k
      by (cases "k = j") auto
    with True "2.prems" show ?thesis by (intro "2.IH"(1)) auto
  next
    case False
    with "2.prems" show ?thesis by (intro "2.IH"(2)) auto
  qed
qed

lemma peel_loop_acc:
  assumes "\<And>i. i < length don \<Longrightarrow> don ! i \<Longrightarrow> i \<in> Wellfounded.acc (dep_edges deps)"
    and "deps_in_range deps" and "length don = length deps"
  shows "i < length don \<Longrightarrow> peel_loop deps don ! i \<Longrightarrow> i \<in> Wellfounded.acc (dep_edges deps)"
  using assms
proof (induction deps don arbitrary: i rule: peel_loop.induct)
  case (1 deps don)
  obtain don' ch where p: "peel_pass deps [0..<length don] don False = (don', ch)"
    by (cases "peel_pass deps [0..<length don] don False")
  have len: "length don' = length don"
    using peel_pass_length [of deps "[0..<length don]" don False] p by simp
  have acc: "k < length don \<Longrightarrow> don' ! k \<Longrightarrow> k \<in> Wellfounded.acc (dep_edges deps)" for k
    by (rule peel_pass_acc [OF "1.prems"(3) _ "1.prems"(4,5) p]) auto
  show ?case
  proof (cases ch)
    case True
    with p "1.prems"(2) have "peel_loop deps don' ! i"
      by (simp add: peel_loop.simps [of deps don])
    with True show ?thesis
      using "1.IH" [OF p [symmetric] True, of i] "1.prems" len acc by simp
  next
    case False
    with p "1.prems" show ?thesis
      using acc [of i] by (simp add: peel_loop.simps [of deps don])
  qed
qed

lemma peel_all_wf:
  assumes "deps_in_range deps" and "list_all (\<lambda>d. d) (peel deps)"
  shows "wf (dep_edges deps)"
proof (rule acc_wfI, rule allI)
  fix i
  show "i \<in> Wellfounded.acc (dep_edges deps)"
  proof (cases "i < length deps")
    case True
    with assms(2) have "peel_loop deps (replicate (length deps) False) ! i"
      by (simp add: list_all_length flip: peel_def)
    note marked = this
    show ?thesis
      by (rule peel_loop_acc [OF _ assms(1) _ _ marked]) (use True in simp_all)
  next
    case False
    show ?thesis by (rule accI) (use False in \<open>auto simp: dep_edges_def\<close>)
  qed
qed

text \<open>Conversely, on a well-founded graph the closure marks everything.\<close>

lemma peel_wf_all:
  assumes "deps_in_range deps" and "wf (dep_edges deps)"
  shows "list_all (\<lambda>d. d) (peel deps)"
proof -
  have "i < length deps \<longrightarrow> peel deps ! i" for i
    using assms(2)
  proof (induction i rule: wf_induct_rule)
    case (less i)
    show ?case
    proof
      assume i: "i < length deps"
      with less assms(1) have "list_all (\<lambda>d. peel deps ! d) (deps ! i)"
        by (auto simp: list_all_iff dep_edges_def deps_in_range_def)
      with i show "peel deps ! i" by (rule peel_closed)
    qed
  qed
  then show ?thesis by (simp add: list_all_length)
qed

lemma finite_dep_edges [simp]: "finite (dep_edges deps)"
proof -
  have "dep_edges deps = (\<Union>i < length deps. (\<lambda>d. (d, i)) ` set (deps ! i))"
    by (auto simp: dep_edges_def)
  then show ?thesis by simp
qed

lemma cut_deps_simps [simp]:
  "length (cut_deps deps don c) = length deps"
  by (simp add: cut_deps_def)

lemma cut_deps_subset: "i < length deps \<Longrightarrow> set (cut_deps deps don c ! i) \<subseteq> set (deps ! i)"
  by (cases "i = c") (auto simp: cut_deps_def)

lemma cut_deps_in_range: "deps_in_range deps \<Longrightarrow> deps_in_range (cut_deps deps don c)"
  using cut_deps_subset by (fastforce simp: deps_in_range_def)

lemma break_cycles_props:
  "length (break_cycles deps) = length deps \<and> list_all (\<lambda>d. d) (peel (break_cycles deps)) \<and>
   (\<forall>i < length deps. set (break_cycles deps ! i) \<subseteq> set (deps ! i))"
proof (induction deps rule: break_cycles.induct)
  case (1 deps)
  show ?case
  proof (cases "list_all (\<lambda>d. d) (peel deps)")
    case True
    then show ?thesis by (simp add: break_cycles.simps [of deps])
  next
    case False
    then obtain c where c: "first_unready (peel deps) = Some c"
      using first_unready_None [of "peel deps"] by (cases "first_unready (peel deps)") auto
    from "1.IH" [OF False c] False c cut_deps_subset [of _ deps "peel deps" c] show ?thesis
      by (auto simp: break_cycles.simps [of deps])
  qed
qed

lemma deps_in_range_mono:
  assumes "deps_in_range deps" and "length deps' = length deps"
    and "\<forall>i < length deps. set (deps' ! i) \<subseteq> set (deps ! i)"
  shows "deps_in_range deps'"
  using assms by (fastforce simp: deps_in_range_def)

lemma break_cycles_acyclic:
  assumes "deps_in_range deps"
  shows "acyclic (dep_edges (break_cycles deps))"
proof -
  have "deps_in_range (break_cycles deps)"
    by (rule deps_in_range_mono [OF assms]) (use break_cycles_props [of deps] in simp_all)
  then have "wf (dep_edges (break_cycles deps))"
    by (rule peel_all_wf) (use break_cycles_props [of deps] in simp)
  then show ?thesis by (rule wf_acyclic)
qed

lemma break_cycles_id:
  assumes "deps_in_range deps" and "acyclic (dep_edges deps)"
  shows "break_cycles deps = deps"
proof -
  have "wf (dep_edges deps)" using assms(2) by (simp add: finite_acyclic_wf)
  with assms(1) have "list_all (\<lambda>d. d) (peel deps)" by (rule peel_wf_all)
  then show ?thesis by (simp add: break_cycles.simps [of deps])
qed

subsection \<open>The graph the names give\<close>

lemma name_to_idx_Some:
  assumes "name_to_idx name sel a = Some d"
  shows "d < length sel \<and> name (sel ! d) = a"
proof -
  have "(a, d) \<in> set (zip (map name sel) [0..<length sel])"
    using map_of_SomeD [OF assms [unfolded name_to_idx_def]] by simp
  then show ?thesis by (auto simp: set_zip)
qed

lemma name_to_idx_distinct:
  assumes "distinct (map name sel)" and "d < length sel"
  shows "name_to_idx name sel (name (sel ! d)) = Some d"
proof -
  have "distinct (map fst (rev (zip (map name sel) [0..<length sel])))"
    using assms(1) by (simp add: rev_map [symmetric])
  moreover have "(name (sel ! d), d) \<in> set (rev (zip (map name sel) [0..<length sel]))"
    using assms(2) by (force simp: set_zip)
  ultimately show ?thesis unfolding name_to_idx_def by (rule map_of_is_SomeI)
qed

lemma length_initial_deps [simp]: "length (initial_deps name after sel) = length sel"
  by (simp add: initial_deps_def)

lemma set_initial_deps:
  "i < length sel \<Longrightarrow> set (initial_deps name after sel ! i) =
     {d. d \<noteq> i \<and> (\<exists>a \<in> set (after (sel ! i)). name_to_idx name sel a = Some d)}"
  by (force simp: initial_deps_def List.map_filter_def)

lemma initial_deps_in_range: "deps_in_range (initial_deps name after sel)"
  by (auto simp: deps_in_range_def set_initial_deps dest: name_to_idx_Some)

lemma length_resolve_deps [simp]: "length (resolve_deps name after sel) = length sel"
  using break_cycles_props [of "initial_deps name after sel"] by (simp add: resolve_deps_def)

lemma resolve_deps_subset:
  "i < length sel \<Longrightarrow>
   set (resolve_deps name after sel ! i) \<subseteq> set (initial_deps name after sel ! i)"
  using break_cycles_props [of "initial_deps name after sel"] by (simp add: resolve_deps_def)

section \<open>What the planner relies on\<close>

text \<open>
  The contract of a dependency resolver: one list of earlier indices per fork, in range,
  without a cycle. From it a client gets progress: whatever set of forks has finished, unless
  all have, some unfinished fork has all its dependencies finished. With nothing finished yet
  this is a root.
\<close>

locale dep_resolver =
  fixes resolve :: "'s list \<Rightarrow> nat list list"
  assumes resolve_length: "length (resolve sel) = length sel"
    and resolve_range: "deps_in_range (resolve sel)"
    and resolve_acyclic: "acyclic (dep_edges (resolve sel))"
begin

lemma progress:
  assumes "i < length sel" and "i \<notin> finished"
  shows "\<exists>j < length sel. j \<notin> finished \<and> set (resolve sel ! j) \<subseteq> finished"
proof -
  have "wf (dep_edges (resolve sel))"
    by (simp add: finite_acyclic_wf resolve_acyclic)
  moreover have "i \<in> {k. k < length sel \<and> k \<notin> finished}" using assms by simp
  ultimately obtain j where j: "j < length sel" "j \<notin> finished"
    and least: "\<And>d. (d, j) \<in> dep_edges (resolve sel) \<Longrightarrow>
      d \<notin> {k. k < length sel \<and> k \<notin> finished}"
    by (metis (mono_tags, lifting) mem_Collect_eq wfE_min)
  have "d \<in> finished" if "d \<in> set (resolve sel ! j)" for d
    using that j least [of d] resolve_range [of sel] resolve_length [of sel]
    by (auto simp: dep_edges_def deps_in_range_def)
  with j show ?thesis by blast
qed

lemma root_exists: "sel \<noteq> [] \<Longrightarrow> \<exists>j < length sel. resolve sel ! j = []"
  using progress [of 0 sel "{}"] by auto

lemma not_own_dep: "i < length sel \<Longrightarrow> i \<notin> set (resolve sel ! i)"
  using resolve_acyclic [of sel] resolve_length [of sel]
  by (auto simp: acyclic_def dep_edges_def dest!: spec [of _ i])

end

interpretation resolver: dep_resolver "resolve_deps name after" for name after
proof
  fix sel :: "'a list"
  show "length (resolve_deps name after sel) = length sel" by simp
  show "deps_in_range (resolve_deps name after sel)"
    by (rule deps_in_range_mono [OF initial_deps_in_range [of name after sel]])
      (simp_all add: resolve_deps_subset)
  show "acyclic (dep_edges (resolve_deps name after sel))"
    unfolding resolve_deps_def by (rule break_cycles_acyclic) (rule initial_deps_in_range)
qed

section \<open>Properties\<close>

text \<open>C7. Whatever the \<open>after\<close> lists say (cycles included), \<open>resolve_deps\<close> returns a graph
  without a cycle, and peeling its ready nodes consumes every node.\<close>

theorem resolve_deps_acyclic:
  "acyclic (dep_edges (resolve_deps name after sel)) \<and>
   list_all (\<lambda>d. d) (peel (resolve_deps name after sel))"
  using resolver.resolve_acyclic [of name after sel]
    break_cycles_props [of "initial_deps name after sel"]
  by (simp add: resolve_deps_def)

text \<open>Where the \<open>after\<close> names give a graph without a cycle, nothing is cut: the result is
  the graph the names give.\<close>

theorem resolve_deps_keeps:
  "acyclic (dep_edges (initial_deps name after sel)) \<Longrightarrow>
   resolve_deps name after sel = initial_deps name after sel"
  unfolding resolve_deps_def by (rule break_cycles_id) (rule initial_deps_in_range)

text \<open>A three-fork chain (\<open>b\<close> after \<open>a\<close>, \<open>c\<close> after both) and its graph, for the
  witnesses.\<close>

definition sample_sel :: "(string \<times> string list) list" where
  "sample_sel = [(''a'', []), (''b'', [''a'']), (''c'', [''a'', ''b''])]"

lemma sample_initial: "initial_deps fst snd sample_sel = [[], [0], [0, 1]]"
  by code_simp

theorem resolve_deps_keeps_witness:
  "acyclic (dep_edges (initial_deps fst snd sample_sel)) \<and>
   resolve_deps fst snd sample_sel = [[], [0], [0, 1]]"
proof -
  have a: "acyclic (dep_edges (initial_deps fst snd sample_sel))"
    unfolding sample_initial
    by (rule acyclicI_order [where f = "\<lambda>i. - int i"])
      (auto simp: dep_edges_def less_Suc_eq numeral_3_eq_3)
  show ?thesis using a resolve_deps_keeps [OF a] by (simp add: sample_initial)
qed

text \<open>An edge of the result is never invented: its source is another selected fork, one that
  the dependent names in its \<open>after\<close> list.\<close>

theorem resolve_deps_sound:
  assumes "i < length sel" and "d \<in> set (resolve_deps name after sel ! i)"
  shows "d < length sel \<and> d \<noteq> i \<and> name (sel ! d) \<in> set (after (sel ! i))"
  using assms resolve_deps_subset [of i sel name after]
  by (auto simp: set_initial_deps dest: name_to_idx_Some)

theorem resolve_deps_sound_witness:
  "(1::nat) < length sample_sel \<and> 0 \<in> set (resolve_deps fst snd sample_sel ! 1) \<and>
   fst (sample_sel ! 0) \<in> set (snd (sample_sel ! 1))"
proof -
  have i: "(1::nat) < length sample_sel" and d: "0 \<in> set (resolve_deps fst snd sample_sel ! 1)"
    by code_simp+
  show ?thesis using i d resolve_deps_sound [OF i d] by simp
qed

text \<open>A non-empty selection has a root, so a wake always spawns at least one fork.\<close>

theorem roots_nonempty: "sel \<noteq> [] \<Longrightarrow> roots (resolve_deps name after sel) \<noteq> []"
  using resolver.root_exists [of sel name after] by (auto simp: roots_def filter_empty_conv)

theorem roots_nonempty_witness:
  "[(''a'', [''b'']), (''b'', [''a''])] \<noteq> [] \<and>
   roots (resolve_deps fst snd [(''a'', [''b'']), (''b'', [''a''])]) \<noteq> []"
  using roots_nonempty [of "[(''a'', [''b'']), (''b'', [''a''])]" fst snd] by simp

text \<open>Only adjacent duplicates are dropped: a name repeated with another one in between stays twice.\<close>

lemma duplicates_kept:
  "resolve_deps fst snd [(''a'', [''b'', ''c'', ''b'']), (''b'', []), (''c'', [])] = [[1, 2, 1], [], []]"
  by code_simp

end
