(* ===== verification/Moments.thy ===== *)
theory Moments
  imports Frontmatter
begin

text \<open>
  Fork moments and trigger matching, \<open>crates/autofork-core/src/moments.rs\<close>: the context window
  of a session, which trigger of a fork a set of moments hits, and the idle deadlines a set of
  forks needs serviced.
\<close>

section \<open>The model\<close>

definition DEFAULT_CONTEXT_WINDOW :: u64 where
  "DEFAULT_CONTEXT_WINDOW = 200000"

definition CONTEXT_WINDOW_1M :: u64 where
  "CONTEXT_WINDOW_1M = 1000000"

definition resolve_context_window :: "string option \<Rightarrow> u64 option \<Rightarrow> u64" where
  "resolve_context_window model prompt_tokens =
     (let window = (case model of
                      Some m \<Rightarrow>
                        if contains m ''[1m]'' \<or> contains m ''fable'' \<or> contains m ''mythos''
                        then CONTEXT_WINDOW_1M else DEFAULT_CONTEXT_WINDOW
                    | None \<Rightarrow> DEFAULT_CONTEXT_WINDOW)
      in (case prompt_tokens of
            Some pt \<Rightarrow> if window < pt then max CONTEXT_WINDOW_1M pt else window
          | None \<Rightarrow> window))"

datatype fork_moment = IdleMoment u64 | ContextMoment u64 "u64 option"

definition effective_idle :: "u64 option \<Rightarrow> u64 \<Rightarrow> u64" where
  "effective_idle after_secs default_idle_secs =
     (case after_secs of Some s \<Rightarrow> s | None \<Rightarrow> default_idle_secs)"

fun hit :: "u64 \<Rightarrow> fork_moment \<Rightarrow> fork_run_on \<Rightarrow> bool" where
  "hit dflt (IdleMoment deadline) (Idle after_secs) \<longleftrightarrow>
     0 < effective_idle after_secs dflt \<and> effective_idle after_secs dflt = deadline"
| "hit dflt (ContextMoment pt mx) (ContextTokens n) \<longleftrightarrow> n \<le> pt"
| "hit dflt (ContextMoment pt mx) (ContextUsedPct p) \<longleftrightarrow>
     (case mx of
        Some m \<Rightarrow> saturating_mul m (ucast p) \<le> saturating_mul pt 100
      | None \<Rightarrow> False)"
| "hit dflt (ContextMoment pt mx) (ContextLeft n) \<longleftrightarrow>
     (case mx of Some m \<Rightarrow> saturating_sub m pt \<le> n | None \<Rightarrow> False)"
| "hit dflt _ _ \<longleftrightarrow> False"

text \<open>The outer loop runs over the moments, the inner one over the fork's triggers.\<close>

fun match_moments :: "fork_def \<Rightarrow> fork_moment list \<Rightarrow> u64 \<Rightarrow> fork_run_on option" where
  "match_moments fork [] dflt = None"
| "match_moments fork (m # ms) dflt =
     (case find (hit dflt m) (run_on fork) of
        Some t \<Rightarrow> Some t
      | None \<Rightarrow> match_moments fork ms dflt)"

fun push_deadlines :: "fork_run_on list \<Rightarrow> u64 \<Rightarrow> u64 list \<Rightarrow> u64 list" where
  "push_deadlines [] dflt out = out"
| "push_deadlines (Idle after_secs # ts) dflt out =
     (let d = effective_idle after_secs dflt
      in push_deadlines ts dflt (if 0 < d \<and> \<not> List.member out d then out @ [d] else out))"
| "push_deadlines (_ # ts) dflt out = push_deadlines ts dflt out"

definition idle_deadlines :: "fork_def list \<Rightarrow> u64 \<Rightarrow> u64 list" where
  "idle_deadlines forks dflt = sort (fold (\<lambda>f out. push_deadlines (run_on f) dflt out) forks [])"

section \<open>Lemmas\<close>

lemma hit_supported: "hit dflt m t \<Longrightarrow> is_supported t"
  by (cases "(dflt, m, t)" rule: hit.cases) auto

lemma match_moments_Some:
  "match_moments fork ms dflt = Some t \<Longrightarrow> t \<in> set (run_on fork) \<and> (\<exists>m \<in> set ms. hit dflt m t)"
  by (induction ms) (auto split: option.splits dest: find_Some_elem)

lemma match_moments_None:
  "match_moments fork ms dflt = None \<longleftrightarrow> (\<forall>m \<in> set ms. \<forall>t \<in> set (run_on fork). \<not> hit dflt m t)"
  by (induction ms) (auto split: option.splits simp: find_None_iff dest: find_Some_elem)

definition wanted_deadlines :: "u64 \<Rightarrow> fork_run_on list \<Rightarrow> u64 set" where
  "wanted_deadlines dflt ts =
     {d. 0 < d \<and> (\<exists>a. Idle a \<in> set ts \<and> effective_idle a dflt = d)}"

lemma wanted_deadlines_simps [simp]:
  "wanted_deadlines dflt [] = {}"
  "wanted_deadlines dflt (Idle a # ts) =
     (if 0 < effective_idle a dflt then insert (effective_idle a dflt) (wanted_deadlines dflt ts)
      else wanted_deadlines dflt ts)"
  by (auto simp: wanted_deadlines_def)

lemma wanted_deadlines_skip: "(\<And>a. t \<noteq> Idle a) \<Longrightarrow> wanted_deadlines dflt (t # ts) = wanted_deadlines dflt ts"
  by (auto simp: wanted_deadlines_def)

lemma push_deadlines_props:
  "set (push_deadlines ts dflt out) = set out \<union> wanted_deadlines dflt ts"
  "distinct out \<Longrightarrow> distinct (push_deadlines ts dflt out)"
  by (induction ts dflt out rule: push_deadlines.induct)
    (auto simp: Let_def wanted_deadlines_skip)

lemma fold_push_deadlines:
  "set (fold (\<lambda>f out. push_deadlines (run_on f) dflt out) forks out) =
     set out \<union> (\<Union>f \<in> set forks. wanted_deadlines dflt (run_on f))"
  "distinct out \<Longrightarrow> distinct (fold (\<lambda>f out. push_deadlines (run_on f) dflt out) forks out)"
  by (induction forks arbitrary: out) (auto simp: push_deadlines_props)

lemma set_idle_deadlines:
  "set (idle_deadlines forks dflt) = (\<Union>f \<in> set forks. wanted_deadlines dflt (run_on f))"
  by (simp add: idle_deadlines_def fold_push_deadlines)

lemma resolve_context_window_ge: "pt \<le> resolve_context_window model (Some pt)"
  by (auto simp: resolve_context_window_def Let_def max_def split: option.splits if_splits)

lemma resolve_context_window_max:
  "unat (resolve_context_window model (Some pt)) \<le> max 1000000 (unat pt)"
  by (auto simp: resolve_context_window_def Let_def max_def word_le_nat_alt word_less_nat_alt
      CONTEXT_WINDOW_1M_def DEFAULT_CONTEXT_WINDOW_def split: option.splits if_splits)

section \<open>Properties\<close>

text \<open>A fork fires for a set of moments if and only if one of its triggers is hit by one of
  them, and the trigger reported is such a one; the moments retired in version 0.5 are never hit.\<close>

theorem match_moments_spec:
  "(match_moments fork ms dflt = None \<longleftrightarrow>
      \<not> (\<exists>m \<in> set ms. \<exists>t \<in> set (run_on fork). hit dflt m t)) \<and>
   set_option (match_moments fork ms dflt) \<subseteq>
     {t \<in> set (run_on fork). is_supported t \<and> (\<exists>m \<in> set ms. hit dflt m t)}"
  by (auto simp: match_moments_None dest: match_moments_Some intro: hit_supported)

text \<open>The deadlines collected for a set of forks are ascending, distinct and positive, and
  they are exactly the instants at which an idle trigger of one of the forks can be hit: no
  idle fork is missed and no useless timer is armed.\<close>

theorem idle_deadlines_spec:
  "sorted (idle_deadlines forks dflt) \<and> distinct (idle_deadlines forks dflt) \<and>
   set (idle_deadlines forks dflt) =
     {d. \<exists>f \<in> set forks. \<exists>t \<in> set (run_on f). hit dflt (IdleMoment d) t}"
proof -
  have "(\<exists>t \<in> set (run_on f). hit dflt (IdleMoment d) t) \<longleftrightarrow> d \<in> wanted_deadlines dflt (run_on f)"
    for f d
  proof
    assume "\<exists>t \<in> set (run_on f). hit dflt (IdleMoment d) t"
    then obtain t where "t \<in> set (run_on f)" "hit dflt (IdleMoment d) t" by blast
    then show "d \<in> wanted_deadlines dflt (run_on f)"
      by - (cases t; auto simp: wanted_deadlines_def)
  next
    assume "d \<in> wanted_deadlines dflt (run_on f)"
    then show "\<exists>t \<in> set (run_on f). hit dflt (IdleMoment d) t"
      by (force simp: wanted_deadlines_def)
  qed
  then show ?thesis
    by (auto simp: set_idle_deadlines idle_deadlines_def fold_push_deadlines)
qed

text \<open>Against the window \<open>resolve_context_window\<close> gives, the gauge never exceeds the
  window, and \<open>context_used: p%\<close> fires exactly when the gauge is at least \<open>p\<close> percent of
  the window: the saturating products do not saturate for any gauge below \<open>2 ^ 57\<close>.\<close>

theorem context_used_exact:
  assumes "unat pt < 2 ^ 57" and "unat p \<le> 100"
  shows "pt \<le> resolve_context_window model (Some pt) \<and>
    (hit dflt (ContextMoment pt (Some (resolve_context_window model (Some pt)))) (ContextUsedPct p) \<longleftrightarrow>
       unat (resolve_context_window model (Some pt)) * unat p \<le> unat pt * 100)"
proof -
  let ?w = "resolve_context_window model (Some pt)"
  have p: "unat (ucast p :: u64) = unat p"
    using assms(2) by (simp add: unsigned_ucast_eq unsigned_take_bit_eq take_bit_nat_eq_self)
  have w: "unat ?w < 2 ^ 57"
    using resolve_context_window_max [of model pt] assms(1) by simp
  have "unat ?w * unat p \<le> unat ?w * 100" using assms(2) by (rule mult_le_mono2)
  also have "\<dots> < 2 ^ 64" using w by simp
  finally have "unat ?w * unat p < 2 ^ 64" .
  moreover have "unat pt * 100 < 2 ^ 64" using assms(1) by simp
  ultimately show ?thesis
    using resolve_context_window_ge [of pt model]
    by (simp add: word_le_nat_alt unat_saturating_mul p)
qed

theorem context_used_exact_witness:
  "hit 600 (ContextMoment 170000 (Some (resolve_context_window None (Some 170000)))) (ContextUsedPct 80)"
proof -
  have h: "unat (170000 :: u64) < 2 ^ 57" "unat (80 :: u8) \<le> 100" by simp_all
  have "resolve_context_window None (Some 170000) = 200000"
    by (simp add: resolve_context_window_def DEFAULT_CONTEXT_WINDOW_def)
  then show ?thesis using context_used_exact [OF h, of None 600] by simp
qed

end
