(* ===== verification/Planner.thy ===== *)
theory Planner
  imports Daemon_State Schedule Moments "HOL-Library.Multiset"
begin

text \<open>
  The selection pipeline, \<open>crates/autofork-daemon/src/planner.rs\<close>: which forks fire for a set of
  moments, the wake that is issued for them, and the release of held dependents. Clock readings are
  arguments, in the order in which the source takes them; a store call is taken to succeed.
\<close>

section \<open>Selection\<close>

record selected_fork =
  sel_name :: string
  sel_path :: path
  sel_trigger :: string
  sel_overlap :: bool
  sel_after :: "string list"
  sel_tags :: "string list"
  sel_latch_key :: "string option"

fun latch_key_for :: "fork_run_on \<Rightarrow> i64 \<Rightarrow> string option" where
  "latch_key_for (Idle after_secs) epoch = Some (''idle-pause:'' @ show_i64 epoch)"
| "latch_key_for (ContextTokens n) epoch = Some (label (ContextTokens n))"
| "latch_key_for (ContextUsedPct p) epoch = Some (label (ContextUsedPct p))"
| "latch_key_for (ContextLeft n) epoch = Some (label (ContextLeft n))"
| "latch_key_for _ epoch = None"

definition refresh_roster :: "world \<Rightarrow> string \<Rightarrow> path \<Rightarrow> i64 \<Rightarrow> daemon \<Rightarrow> daemon" where
  "refresh_roster w sid dir t d =
     (let entries = fst (discover_forks (w_from_yaml w) (w_fs w) dir (Some (user_forks_root d)))
      in with_store (fold (\<lambda>e st. fst (queue_fork sid (entry_name e) (entry_path e) t st)) entries) d)"

definition fork_throttled :: "fork_def \<Rightarrow> roster_entry \<Rightarrow> i64 \<Rightarrow> bool" where
  "fork_throttled fd entry t =
     (case (throttle_secs fd, re_ran_at entry) of
        (Some throttle, Some ran_at) \<Rightarrow> max (i64_sub t ran_at) 0 < u64_as_i64 throttle
      | _ \<Rightarrow> False)"

text \<open>The loop over the fork's tags; with an empty throttle table it finds nothing, which is the
  source's early test.\<close>

definition tag_throttled :: "config \<Rightarrow> path \<Rightarrow> string list \<Rightarrow> i64 \<Rightarrow> store \<Rightarrow> bool" where
  "tag_throttled cfg root tgs t st =
     list_ex
       (\<lambda>tag. case tag_throttles cfg tag of
                None \<Rightarrow> False
              | Some window \<Rightarrow>
                  (case last_run_for_tags root [tag] st of
                     None \<Rightarrow> False
                   | Some last_run \<Rightarrow> max (i64_sub t last_run) 0 < u64_as_i64 window))
       tgs"

definition effective_enable :: "session_row \<Rightarrow> config \<Rightarrow> string list option" where
  "effective_enable s cfg = (case enable_tags s of Some v \<Rightarrow> Some v | None \<Rightarrow> cfg_enable_tags cfg)"

definition effective_disable :: "session_row \<Rightarrow> config \<Rightarrow> string list option" where
  "effective_disable s cfg = (case disable_tags s of Some v \<Rightarrow> Some v | None \<Rightarrow> cfg_disable_tags cfg)"

text \<open>The body of the loop over the roster: \<open>None\<close> is the source's \<open>continue\<close>.\<close>

definition select_entry ::
  "world \<Rightarrow> session_row \<Rightarrow> config \<Rightarrow> fork_moment list \<Rightarrow> i64 \<Rightarrow> store \<Rightarrow> roster_entry \<Rightarrow> selected_fork option" where
  "select_entry w s cfg moments t st entry =
     (case read_to_string (w_fs w) (re_fork_path entry) of
        Inl _ \<Rightarrow> None
      | Inr content \<Rightarrow>
          (case parse_fork_file (w_from_yaml w) (re_fork_name entry) content of
             Fork parsed \<Rightarrow>
               (let fd = def parsed
                in if \<not> tags_allowed (tags fd) (effective_enable s cfg) (effective_disable s cfg) then None
                   else (case match_moments fd moments (default_idle_deadline_secs cfg) of
                           None \<Rightarrow> None
                         | Some trigger \<Rightarrow>
                             if fork_throttled fd entry t then None
                             else if tag_throttled cfg (project_root s) (tags fd) t st then None
                             else (let key = latch_key_for trigger (pause_epoch s)
                                   in if (case key of
                                            Some k \<Rightarrow> is_latched (session_id s) (re_fork_name entry) k st
                                          | None \<Rightarrow> False)
                                      then None
                                      else Some \<lparr>sel_name = re_fork_name entry, sel_path = re_fork_path entry,
                                                 sel_trigger = label trigger, sel_overlap = overlap fd,
                                                 sel_after = after fd, sel_tags = tags fd,
                                                 sel_latch_key = key\<rparr>)))
           | _ \<Rightarrow> None))"

definition select_forks ::
  "world \<Rightarrow> session_row \<Rightarrow> config \<Rightarrow> fork_moment list \<Rightarrow> i64 \<Rightarrow> i64 \<Rightarrow> daemon \<Rightarrow> daemon \<times> selected_fork list" where
  "select_forks w s cfg moments t_queue t d =
     (let d = refresh_roster w (session_id s) (cwd s) t_queue d
      in (d, List.map_filter (select_entry w s cfg moments t (the_store d))
               (roster (session_id s) (the_store d))))"

section \<open>Issuing a wake\<close>

definition conversation_id :: "session_row \<Rightarrow> string" where
  "conversation_id s =
     (case Option.bind (transcript_path s) file_stem of Some stem \<Rightarrow> stem | None \<Rightarrow> session_id s)"

definition sel_preds :: "selected_fork list \<Rightarrow> nat list list \<Rightarrow> nat \<Rightarrow> string list" where
  "sel_preds sel deps i = map (\<lambda>j. sel_name (sel ! j)) (deps ! i)"

text \<open>The stamping loop's body, for the fork at index \<open>i\<close>.\<close>

definition stamp_fork :: "string \<Rightarrow> i64 \<Rightarrow> selected_fork list \<Rightarrow> nat list list \<Rightarrow> nat \<Rightarrow>
    store \<times> due_fork list \<times> held_fork list \<Rightarrow> store \<times> due_fork list \<times> held_fork list" where
  "stamp_fork sid t selected deps i acc =
     (let (st, rts, held) = acc;
          sel = selected ! i;
          st = touch_fork_ran sid (sel_name sel) t st;
          tags_joined = (if sel_tags sel \<noteq> [] then Some (join_with '','' (sel_tags sel)) else None);
          st = fst (record_issued_run sid (sel_name sel) (sel_trigger sel) tags_joined t st);
          st = (case sel_latch_key sel of
                  Some key \<Rightarrow> fst (try_latch_fire sid (sel_name sel) key t st)
                | None \<Rightarrow> st);
          preds = sel_preds selected deps i
      in if preds = []
         then (st, rts @ [\<lparr>due_name = sel_name sel, due_path = sel_path sel, due_trigger = sel_trigger sel,
                           due_overlap = sel_overlap sel, due_after = []\<rparr>], held)
         else (insert_pending_dep sid (sel_name sel) (sel_path sel) (sel_trigger sel) (sel_overlap sel) preds t st,
               rts, held @ [\<lparr>held_name = sel_name sel, held_after = preds\<rparr>]))"

definition stamp_forks ::
  "string \<Rightarrow> i64 \<Rightarrow> selected_fork list \<Rightarrow> store \<Rightarrow> store \<times> due_fork list \<times> held_fork list" where
  "stamp_forks sid t selected st =
     fold (stamp_fork sid t selected (resolve_deps sel_name sel_after selected)) [0..<length selected] (st, [], [])"

definition build_wake ::
  "session_row \<Rightarrow> selected_fork list \<Rightarrow> i64 \<Rightarrow> i64 \<Rightarrow> daemon \<Rightarrow> daemon \<times> string option" where
  "build_wake s selected t t_note d =
     (if selected = [] then (d, None)
      else (let (st, rts, held) = stamp_forks (session_id s) t selected (the_store d);
                d = note_wake_issued (session_id s) t_note (d\<lparr>the_store := st\<rparr>)
            in (d, Some (build_wake_payload (session_id s) (conversation_id s) (project_root s) rts held))))"

section \<open>Releasing held dependents\<close>

definition releasable :: "string \<Rightarrow> store \<Rightarrow> pending_dep \<Rightarrow> bool" where
  "releasable sid st dep \<longleftrightarrow>
     list_all (\<lambda>pred. fork_completed_since sid pred (pd_created_at dep) st) (pd_preds dep)"

definition dep_due :: "pending_dep \<Rightarrow> due_fork" where
  "dep_due dep = \<lparr>due_name = pd_fork_name dep, due_path = pd_fork_path dep,
     due_trigger = pd_trigger_label dep, due_overlap = pd_overlap dep, due_after = pd_preds dep\<rparr>"

definition release_due :: "session_row \<Rightarrow> i64 \<Rightarrow> daemon \<Rightarrow> daemon \<times> string option" where
  "release_due s t_note d =
     (let sid = session_id s;
          released = filter (releasable sid (the_store d)) (list_pending_deps sid (the_store d))
      in if released = [] then (d, None)
         else (let d = with_store (fold (\<lambda>dep. delete_pending_dep sid (pd_fork_name dep)) released) d;
                   d = note_wake_issued sid t_note d
               in (d, Some (build_release_payload sid (conversation_id s) (project_root s)
                              (map dep_due released)))))"

section \<open>Latch keys\<close>

lemma latch_key_supported: "is_supported t \<Longrightarrow> latch_key_for t epoch \<noteq> None"
  by (cases t) auto

lemma match_moments_supported: "match_moments fd ms dflt = Some t \<Longrightarrow> is_supported t"
  using match_moments_Some hit_supported by blast

fun is_idle :: "fork_run_on \<Rightarrow> bool" where
  "is_idle (Idle a) = True"
| "is_idle _ = False"

lemma idle_key_not_label: "is_supported t \<Longrightarrow> \<not> is_idle t \<Longrightarrow> label t \<noteq> ''idle-pause:'' @ e"
  by (cases t) auto

lemma latch_key_not_idle: "is_supported t \<Longrightarrow> \<not> is_idle t \<Longrightarrow> latch_key_for t e = Some (label t)"
  by (cases t) auto

lemma latch_key_idle: "is_idle t \<Longrightarrow> latch_key_for t e = Some (''idle-pause:'' @ show_i64 e)"
  by (cases t) auto

section \<open>The wake's effect on the store\<close>

text \<open>What the stamping loop writes for one fork, as store operations.\<close>

definition stamp_ops :: "string \<Rightarrow> i64 \<Rightarrow> selected_fork list \<Rightarrow> nat list list \<Rightarrow> nat \<Rightarrow> store_op list" where
  "stamp_ops sid t selected deps i =
     (let sel = selected ! i; preds = sel_preds selected deps i
      in [TouchForkRan sid (sel_name sel) t,
          RecordIssuedRun sid (sel_name sel) (sel_trigger sel)
            (if sel_tags sel \<noteq> [] then Some (join_with '','' (sel_tags sel)) else None) t] @
         (case sel_latch_key sel of Some key \<Rightarrow> [TryLatchFire sid (sel_name sel) key t] | None \<Rightarrow> []) @
         (if preds = [] then []
          else [InsertPendingDep sid (sel_name sel) (sel_path sel) (sel_trigger sel) (sel_overlap sel) preds t]))"

definition sel_due :: "selected_fork \<Rightarrow> due_fork" where
  "sel_due sel = \<lparr>due_name = sel_name sel, due_path = sel_path sel, due_trigger = sel_trigger sel,
     due_overlap = sel_overlap sel, due_after = []\<rparr>"

definition sel_held :: "selected_fork list \<Rightarrow> nat list list \<Rightarrow> nat \<Rightarrow> held_fork" where
  "sel_held selected deps i = \<lparr>held_name = sel_name (selected ! i), held_after = sel_preds selected deps i\<rparr>"

lemma stamp_fork_eq:
  "stamp_fork sid t selected deps i (st, rts, held) =
     (apply_ops (stamp_ops sid t selected deps i) st,
      rts @ (if deps ! i = [] then [sel_due (selected ! i)] else []),
      held @ (if deps ! i = [] then [] else [sel_held selected deps i]))"
  by (simp add: stamp_fork_def stamp_ops_def apply_ops_def sel_due_def sel_held_def sel_preds_def Let_def
      split: option.split)

lemma stamp_fold_eq:
  "fold (stamp_fork sid t selected deps) is (st, rts, held) =
     (apply_ops (concat (map (stamp_ops sid t selected deps) is)) st,
      rts @ map (\<lambda>i. sel_due (selected ! i)) (filter (\<lambda>i. deps ! i = []) is),
      held @ map (sel_held selected deps) (filter (\<lambda>i. deps ! i \<noteq> []) is))"
  by (induction "is" arbitrary: st rts held) (simp_all add: stamp_fork_eq apply_ops_def)

definition wake_ops :: "string \<Rightarrow> i64 \<Rightarrow> selected_fork list \<Rightarrow> store_op list" where
  "wake_ops sid t selected =
     concat (map (stamp_ops sid t selected (resolve_deps sel_name sel_after selected)) [0..<length selected])"

definition wake_roots :: "selected_fork list \<Rightarrow> due_fork list" where
  "wake_roots selected =
     map (\<lambda>i. sel_due (selected ! i)) (roots (resolve_deps sel_name sel_after selected))"

definition wake_held :: "selected_fork list \<Rightarrow> held_fork list" where
  "wake_held selected =
     (let deps = resolve_deps sel_name sel_after selected
      in map (sel_held selected deps) (filter (\<lambda>i. deps ! i \<noteq> []) [0..<length selected]))"

lemma stamp_forks_eq:
  "stamp_forks sid t selected st =
     (apply_ops (wake_ops sid t selected) st, wake_roots selected, wake_held selected)"
  by (simp add: stamp_forks_def stamp_fold_eq wake_ops_def wake_roots_def wake_held_def roots_def Let_def
      resolver.resolve_length)

lemma build_wake_eq:
  "build_wake s selected t t_note d =
     (if selected = [] then (d, None)
      else (note_wake_issued (session_id s) t_note
              (with_store (apply_ops (wake_ops (session_id s) t selected)) d),
            Some (build_wake_payload (session_id s) (conversation_id s) (project_root s)
                    (wake_roots selected) (wake_held selected))))"
  by (simp add: build_wake_def stamp_forks_eq with_store_def)

lemma build_wake_store:
  "the_store (fst (build_wake s selected t t_note d)) =
     apply_ops (wake_ops (session_id s) t selected) (the_store d)"
  by (simp add: build_wake_eq wake_ops_def apply_ops_def)

lemma stamp_ops_no_close: "CloseSession x \<notin> set (stamp_ops sid t selected deps i)"
  by (simp add: stamp_ops_def Let_def split: option.split)

lemma wake_ops_no_close: "list_all (\<lambda>op. op \<noteq> CloseSession x) (wake_ops sid t selected)"
  using stamp_ops_no_close by (fastforce simp: wake_ops_def list_all_iff)

lemma wake_ops_session: "list_all (\<lambda>op. op_session op = sid) (wake_ops sid t selected)"
  by (auto simp: wake_ops_def list_all_iff stamp_ops_def Let_def split: option.splits if_splits)

section \<open>Firing once\<close>

lemma latched_after_ops:
  assumes "TryLatchFire sid name key t \<in> set ops" and "list_all (\<lambda>op. op \<noteq> CloseSession sid) ops"
  shows "is_latched sid name key (apply_ops ops st)"
proof -
  from assms(1) obtain xs ys where ops: "ops = xs @ TryLatchFire sid name key t # ys"
    by (meson split_list)
  have "is_latched sid name key (fst (try_latch_fire sid name key t (fold apply_op xs st)))"
    by (simp add: is_latched_try)
  with assms(2) show ?thesis
    using latch.keeps_all [of sid ys name key] by (simp add: ops apply_ops_def)
qed

lemma latched_after_wake:
  assumes "x \<in> set selected" and "sel_latch_key x = Some key"
  shows "is_latched sid (sel_name x) key (apply_ops (wake_ops sid t selected) st)"
proof (rule latched_after_ops [OF _ wake_ops_no_close])
  from assms(1) obtain i where i: "i < length selected" "x = selected ! i"
    by (auto simp: in_set_conv_nth)
  then have "TryLatchFire sid (sel_name x) key t \<in>
      set (stamp_ops sid t selected (resolve_deps sel_name sel_after selected) i)"
    using assms(2) by (simp add: stamp_ops_def Let_def)
  with i show "TryLatchFire sid (sel_name x) key t \<in> set (wake_ops sid t selected)"
    by (auto simp: wake_ops_def)
qed

lemma refresh_roster_store:
  "\<exists>ops. the_store (refresh_roster w sid dir t d) = apply_ops ops (the_store d)
     \<and> list_all (\<lambda>op. \<exists>n p. op = QueueFork sid n p t) ops"
proof -
  let ?es = "fst (discover_forks (w_from_yaml w) (w_fs w) dir (Some (user_forks_root d)))"
  have "fold (\<lambda>e st. fst (queue_fork sid (entry_name e) (entry_path e) t st)) es st =
      apply_ops (map (\<lambda>e. QueueFork sid (entry_name e) (entry_path e) t) es) st" for es st
    by (induction es arbitrary: st) (simp_all add: apply_ops_def)
  then show ?thesis
    by (intro exI [of _ "map (\<lambda>e. QueueFork sid (entry_name e) (entry_path e) t) ?es"])
      (auto simp: refresh_roster_def Let_def list_all_iff)
qed

lemma latched_refresh:
  assumes "is_latched sid name key (the_store d)"
  shows "is_latched sid name key (the_store (refresh_roster w sid' dir t d))"
proof -
  obtain ops where ops: "the_store (refresh_roster w sid' dir t d) = apply_ops ops (the_store d)"
    "list_all (\<lambda>op. \<exists>n p. op = QueueFork sid' n p t) ops"
    using refresh_roster_store by blast
  then have "list_all (\<lambda>op. op \<noteq> CloseSession sid) ops" by (auto simp: list_all_iff)
  then show ?thesis
    using latch.keeps_all [of sid ops name key "the_store d"] assms by (simp add: ops(1) apply_ops_def)
qed

text \<open>What holds of a selected fork.\<close>

lemma select_entry_Some:
  assumes "select_entry w s cfg ms t st e = Some y"
  obtains content parsed trigger where
    "read_to_string (w_fs w) (re_fork_path e) = Inr content"
    "parse_fork_file (w_from_yaml w) (re_fork_name e) content = Fork parsed"
    "match_moments (def parsed) ms (default_idle_deadline_secs cfg) = Some trigger"
    "tags_allowed (tags (def parsed)) (effective_enable s cfg) (effective_disable s cfg)"
    "\<not> fork_throttled (def parsed) e t" "\<not> tag_throttled cfg (project_root s) (tags (def parsed)) t st"
    "sel_latch_key y = latch_key_for trigger (pause_epoch s)" "sel_name y = re_fork_name e"
    "sel_path y = re_fork_path e" "sel_trigger y = label trigger" "sel_after y = after (def parsed)"
    "sel_tags y = tags (def parsed)" "sel_overlap y = overlap (def parsed)"
    "\<forall>k. sel_latch_key y = Some k \<longrightarrow> \<not> is_latched (session_id s) (re_fork_name e) k st"
  using assms
  by (auto simp: select_entry_def Let_def split: sum.splits fork_parse.splits if_splits option.splits)

lemma select_forks_elem:
  assumes "y \<in> set (snd (select_forks w s cfg ms tq t d))"
  obtains e where "e \<in> set (roster (session_id s) (the_store (fst (select_forks w s cfg ms tq t d))))"
    "select_entry w s cfg ms t (the_store (fst (select_forks w s cfg ms tq t d))) e = Some y"
  using assms by (auto simp: select_forks_def Let_def set_map_filter)

lemma select_forks_fst: "fst (select_forks w s cfg ms tq t d) = refresh_roster w (session_id s) (cwd s) tq d"
  by (simp add: select_forks_def Let_def)

lemma selected_has_key:
  assumes "y \<in> set (snd (select_forks w s cfg ms tq t d))"
  shows "\<exists>k. sel_latch_key y = Some k"
  using assms
  by (elim select_forks_elem select_entry_Some)
    (metis latch_key_supported match_moments_supported not_None_eq)

lemma selected_not_latched:
  assumes "y \<in> set (snd (select_forks w s cfg ms tq t d))" and "sel_latch_key y = Some k"
  shows "\<not> is_latched (session_id s) (sel_name y) k (the_store d)"
proof -
  from assms obtain e where
    "select_entry w s cfg ms t (the_store (fst (select_forks w s cfg ms tq t d))) e = Some y"
    by (elim select_forks_elem)
  then have "\<not> is_latched (session_id s) (sel_name y) k (the_store (refresh_roster w (session_id s) (cwd s) tq d))"
    using assms(2) by (elim select_entry_Some) (auto simp: select_forks_fst)
  then show ?thesis using latched_refresh by blast
qed

text \<open>A session in a directory with one fork (the file system of the discovery sample), which was woken
  for it in pause 0, seen again in pause 1.\<close>

definition sample_world :: world where
  "sample_world = \<lparr>w_fs = sample_forks_fs, w_env = Map.empty, w_from_yaml = sample_marked,
     w_from_toml = (\<lambda>_. Inl []), w_from_json = (\<lambda>_. None)\<rparr>"

definition sample_session :: "i64 \<Rightarrow> session_row" where
  "sample_session epoch = \<lparr>session_id = ''s'', project_root = ''/p'', cwd = ''/p'',
     transcript_path = Some ''/t/conv.jsonl'', session_status = Open, last_activity = 0,
     transcript_offset = 0, session_tokens = None, model = None, created_at = 0, enable_tags = None,
     disable_tags = None, pause_epoch = epoch, pause_started_at = None\<rparr>"

definition sample_selected :: "i64 \<Rightarrow> selected_fork" where
  "sample_selected epoch = \<lparr>sel_name = ''a'', sel_path = ''/p/.autofork/forks/a.md'', sel_trigger = ''idle'',
     sel_overlap = False, sel_after = [], sel_tags = [],
     sel_latch_key = Some (''idle-pause:'' @ show_i64 epoch)\<rparr>"

definition sample_daemon :: daemon where
  "sample_daemon = new_daemon \<lparr>base = ''/h''\<rparr> empty_store 0"

text \<open>Latch keys are scoped as intended: two supported triggers share a key exactly when both are
  idle triggers of the same pause, or they are one and the same context threshold.\<close>

theorem latch_key_scope:
  assumes "is_supported a" and "is_supported b"
  shows "latch_key_for a e = latch_key_for b e' \<longleftrightarrow>
    is_idle a \<and> is_idle b \<and> e = e' \<or> \<not> is_idle a \<and> a = b"
  using assms idle_key_not_label [of a "show_i64 e'"] idle_key_not_label [of b "show_i64 e"]
  by (cases "is_idle a"; cases "is_idle b") (auto simp: latch_key_idle latch_key_not_idle)

theorem latch_key_scope_witness:
  "(latch_key_for (Idle None) 3 = latch_key_for (Idle (Some 60)) 4) = (3 = (4::int))
   \<and> latch_key_for (ContextTokens 5) 3 \<noteq> latch_key_for (ContextLeft 5) 3"
  using latch_key_scope [of "Idle None" "Idle (Some 60)" 3 4]
    latch_key_scope [of "ContextTokens 5" "ContextLeft 5" 3 3]
  by simp

section \<open>The shape of a wake\<close>

lemma mset_map_filter_split:
  "mset (map f (filter P xs)) + mset (map f (filter (\<lambda>x. \<not> P x) xs)) = mset (map f xs)"
  by (induction xs) auto

lemma wake_names:
  "mset (map due_name (wake_roots selected)) + mset (map held_name (wake_held selected)) =
   mset (map sel_name selected)"
proof -
  let ?deps = "resolve_deps sel_name sel_after selected" and ?is = "[0..<length selected]"
  let ?n = "\<lambda>i. sel_name (selected ! i)"
  have "map due_name (wake_roots selected) = map ?n (filter (\<lambda>i. ?deps ! i = []) ?is)"
    "map held_name (wake_held selected) = map ?n (filter (\<lambda>i. \<not> ?deps ! i = []) ?is)"
    by (simp_all add: wake_roots_def wake_held_def roots_def Let_def resolver.resolve_length sel_due_def
        sel_held_def)
  moreover have "map ?n ?is = map sel_name selected"
    by (rule nth_equalityI) simp_all
  ultimately show ?thesis
    by (simp only: mset_map_filter_split)
qed

lemma sel_preds_names:
  assumes "i < length selected"
  shows "set (sel_preds selected (resolve_deps sel_name sel_after selected) i) \<subseteq>
    set (map sel_name selected) \<inter> set (sel_after (selected ! i))"
proof -
  have "j < length selected \<and> sel_name (selected ! j) \<in> set (sel_after (selected ! i))"
    if "j \<in> set (resolve_deps sel_name sel_after selected ! i)" for j
    using that assms resolve_deps_subset [of i selected sel_name sel_after]
    by (auto simp: set_initial_deps dest: name_to_idx_Some)
  then show ?thesis by (auto simp: sel_preds_def)
qed

text \<open>The rows a wake writes into \<open>pending_deps\<close>: one per held fork, in place of an older one of the same name.\<close>

definition held_row :: "string \<Rightarrow> i64 \<Rightarrow> selected_fork list \<Rightarrow> nat list list \<Rightarrow> nat \<Rightarrow> deps_tbl" where
  "held_row sid t selected deps i = \<lparr>d_session_id = sid, d_fork_name = sel_name (selected ! i),
     d_fork_path = sel_path (selected ! i), d_trigger_label = sel_trigger (selected ! i),
     d_overlap = sel_overlap (selected ! i), d_preds = join_with '','' (sel_preds selected deps i), d_created_at = t\<rparr>"

lemma held_row_key [simp]:
  "d_session_id (held_row sid t selected deps i) = sid"
  "d_fork_name (held_row sid t selected deps i) = sel_name (selected ! i)"
  by (simp_all add: held_row_def)

lemma stamp_ops_rows:
  "set (pending_deps (apply_ops (stamp_ops sid t selected deps i) st)) =
     (if deps ! i = [] then set (pending_deps st)
      else insert (held_row sid t selected deps i)
             {r \<in> set (pending_deps st). deps_key r \<noteq> (sid, sel_name (selected ! i))})"
proof -
  have "pending_deps (touch_fork_ran x n t st) = pending_deps st"
    "pending_deps (fst (record_issued_run x n l tgs t st)) = pending_deps st"
    "pending_deps (fst (try_latch_fire x n l t st)) = pending_deps st" for x n l tgs t st
    by (simp_all add: touch_fork_ran_def record_issued_run_def try_latch_fire_def Let_def case_prod_unfold)
  then show ?thesis
    by (cases "sel_latch_key (selected ! i)")
      (auto simp: stamp_ops_def apply_ops_def Let_def sel_preds_def insert_pending_dep_def set_insert_or_replace
        held_row_def)
qed

lemma apply_ops_append: "apply_ops (xs @ ys) st = apply_ops ys (apply_ops xs st)"
  by (simp add: apply_ops_def)

lemma stamp_all_rows:
  assumes "distinct (map (\<lambda>i. sel_name (selected ! i)) is)"
  shows "set (pending_deps (apply_ops (concat (map (stamp_ops sid t selected deps) is)) st)) =
    held_row sid t selected deps ` {i \<in> set is. deps ! i \<noteq> []}
    \<union> {r \<in> set (pending_deps st). deps_key r \<notin> (\<lambda>i. (sid, sel_name (selected ! i))) ` {i \<in> set is. deps ! i \<noteq> []}}"
  using assms
proof (induction "is" rule: rev_induct)
  case Nil
  then show ?case by (simp add: apply_ops_def)
next
  case (snoc i "is")
  then have "sel_name (selected ! i) \<notin> (\<lambda>i. sel_name (selected ! i)) ` set is" by simp
  then have other: "sel_name (selected ! j) \<noteq> sel_name (selected ! i)" if "j \<in> set is" for j
    using that by (metis imageI)
  have ih: "set (pending_deps (apply_ops (concat (map (stamp_ops sid t selected deps) is)) st)) =
    held_row sid t selected deps ` {i \<in> set is. deps ! i \<noteq> []}
    \<union> {r \<in> set (pending_deps st). deps_key r \<notin> (\<lambda>i. (sid, sel_name (selected ! i))) ` {i \<in> set is. deps ! i \<noteq> []}}"
    using snoc by simp
  show ?case
    using other by (auto simp: apply_ops_append stamp_ops_rows ih)
qed

lemma names_by_index: "map (\<lambda>i. sel_name (selected ! i)) [0..<length selected] = map sel_name selected"
  by (rule nth_equalityI) simp_all

lemma wake_rows:
  assumes "distinct (map sel_name selected)" and "deps = resolve_deps sel_name sel_after selected"
    and "I = {i. i < length selected \<and> deps ! i \<noteq> []}"
  shows "set (pending_deps (the_store (fst (build_wake s selected t t_note d)))) =
    held_row (session_id s) t selected deps ` I
    \<union> {r \<in> set (pending_deps (the_store d)). deps_key r \<notin> (\<lambda>i. (session_id s, sel_name (selected ! i))) ` I}"
proof -
  have "{i \<in> set [0..<length selected]. deps ! i \<noteq> []} = I" using assms(3) by auto
  then show ?thesis
    using stamp_all_rows [of selected "[0..<length selected]" "session_id s" t deps "the_store d"] assms(1,2)
    by (simp only: build_wake_store wake_ops_def names_by_index)
qed

text \<open>C15. A wake accounts for every selected fork (selected forks have distinct names): it has at least one
  fork to spawn, and each selected fork is either spawned now or held back, never both and never dropped. A
  held fork waits only for forks of the same wake that it names in its \<open>after\<close> list, and the store has it:
  its row, with its path, trigger and predecessors. The wake writes no other row.\<close>

theorem wake_partitions:
  assumes "selected \<noteq> []" and "distinct (map sel_name selected)"
    and "rows = set (pending_deps (the_store (fst (build_wake s selected t t_note d))))"
  shows "\<exists>rts held. snd (build_wake s selected t t_note d) =
      Some (build_wake_payload (session_id s) (conversation_id s) (project_root s) rts held)
    \<and> rts \<noteq> [] \<and> mset (map due_name rts) + mset (map held_name held) = mset (map sel_name selected)
    \<and> list_all (\<lambda>h. held_after h \<noteq> [] \<and> (\<exists>x \<in> set selected. sel_name x = held_name h
          \<and> set (held_after h) \<subseteq> set (map sel_name selected) \<inter> set (sel_after x)
          \<and> \<lparr>d_session_id = session_id s, d_fork_name = held_name h, d_fork_path = sel_path x,
              d_trigger_label = sel_trigger x, d_overlap = sel_overlap x,
              d_preds = join_with '','' (held_after h), d_created_at = t\<rparr> \<in> rows)) held
    \<and> (\<forall>r \<in> rows. r \<in> set (pending_deps (the_store d))
          \<or> d_session_id r = session_id s \<and> d_fork_name r \<in> held_name ` set held)"
proof -
  let ?deps = "resolve_deps sel_name sel_after selected"
  note rows = wake_rows [OF assms(2) refl refl, of s t t_note d, folded assms(3)]
  have roots: "wake_roots selected \<noteq> []"
    using resolver.root_exists [OF assms(1), of sel_name sel_after]
    by (auto simp: wake_roots_def roots_def filter_empty_conv resolver.resolve_length)
  have held: "held_after h \<noteq> [] \<and> (\<exists>x \<in> set selected. sel_name x = held_name h
      \<and> set (held_after h) \<subseteq> set (map sel_name selected) \<inter> set (sel_after x)
      \<and> \<lparr>d_session_id = session_id s, d_fork_name = held_name h, d_fork_path = sel_path x,
          d_trigger_label = sel_trigger x, d_overlap = sel_overlap x,
          d_preds = join_with '','' (held_after h), d_created_at = t\<rparr> \<in> rows)"
    if "h \<in> set (wake_held selected)" for h
  proof -
    from that obtain i where i: "i < length selected" "?deps ! i \<noteq> []" "h = sel_held selected ?deps i"
      by (auto simp: wake_held_def Let_def)
    have "set (held_after h) \<subseteq> set (map sel_name selected) \<inter> set (sel_after (selected ! i))"
      using sel_preds_names [OF i(1)] by (simp add: i(3) sel_held_def)
    moreover have "held_row (session_id s) t selected ?deps i \<in> rows" using i by (simp add: rows)
    ultimately show ?thesis
      using i by (auto simp: sel_held_def held_row_def sel_preds_def intro!: bexI [of _ "selected ! i"])
  qed
  have "r \<in> set (pending_deps (the_store d)) \<or> d_session_id r = session_id s \<and> d_fork_name r \<in> held_name ` set (wake_held selected)"
    if "r \<in> rows" for r
    using that by (auto simp: rows wake_held_def sel_held_def Let_def image_iff)
  then show ?thesis
    using roots held wake_names assms(1)
    by (intro exI [of _ "wake_roots selected"] exI [of _ "wake_held selected"] conjI)
      (simp_all only: build_wake_eq list_all_iff if_False snd_conv, blast+)
qed

text \<open>A wake of a fork and its dependent.\<close>

definition sample_pair :: "selected_fork list" where
  "sample_pair = [sample_selected 0, (sample_selected 0)\<lparr>sel_name := ''b'', sel_after := [''a'']\<rparr>]"

theorem wake_partitions_witness:
  "\<exists>rts held. snd (build_wake (sample_session 0) sample_pair 5 5 sample_daemon) =
      Some (build_wake_payload ''s'' ''conv'' ''/p'' rts held) \<and> rts \<noteq> []
    \<and> map d_fork_name (pending_deps (the_store (fst (build_wake (sample_session 0) sample_pair 5 5 sample_daemon)))) = [''b'']"
proof -
  have "conversation_id (sample_session 0) = ''conv''" by code_simp
  moreover have "session_id (sample_session 0) = ''s''" "project_root (sample_session 0) = ''/p''"
    by (simp_all add: sample_session_def)
  moreover have "sample_pair \<noteq> []" "distinct (map sel_name sample_pair)"
    by (simp_all add: sample_pair_def sample_selected_def)
  moreover have "map d_fork_name (pending_deps (the_store (fst (build_wake (sample_session 0) sample_pair 5 5 sample_daemon)))) = [''b'']"
    by code_simp
  ultimately show ?thesis
    using wake_partitions [of sample_pair _ "sample_session 0" 5 5 sample_daemon] by auto
qed

section \<open>Releases\<close>

lemma list_pending_deps_delete:
  "list_pending_deps sid (delete_pending_dep sid name st) =
     filter (\<lambda>dep. pd_fork_name dep \<noteq> name) (list_pending_deps sid st)"
  by (auto simp: list_pending_deps_def delete_pending_dep_def delete_where_def filter_map comp_def
      pd_name_row simp flip: filter_sort intro!: arg_cong [where f = "map row_to_dep"] filter_cong)

lemma list_pending_deps_deletes:
  "list_pending_deps sid (fold (\<lambda>dep. delete_pending_dep sid (pd_fork_name dep)) ds st) =
     filter (\<lambda>dep. pd_fork_name dep \<notin> pd_fork_name ` set ds) (list_pending_deps sid st)"
  by (induction ds arbitrary: st) (simp_all add: list_pending_deps_delete)

lemma deletes_frame:
  "fork_spawns (fold (\<lambda>dep. delete_pending_dep sid (pd_fork_name dep)) ds st) = fork_spawns st"
  by (induction ds arbitrary: st) (simp_all add: delete_pending_dep_def)

lemma releasable_deletes:
  "releasable sid (fold (\<lambda>dep. delete_pending_dep sid (pd_fork_name dep)) ds st) = releasable sid st"
  by (simp add: releasable_def fork_completed_since_def deletes_frame fun_eq_iff)

lemma list_pending_deps_unique:
  assumes "store_ok st"
  shows "distinct (map pd_fork_name (list_pending_deps sid st))"
proof -
  let ?rows = "filter (\<lambda>r. d_session_id r = sid) (pending_deps st)"
  have "distinct (map deps_key ?rows)"
    using assms by (auto simp: store_ok_def unique_key_def intro: distinct_map_filter)
  then have "distinct (map deps_key (sort_key (\<lambda>r. (d_created_at r, d_fork_name r)) ?rows))"
    by (simp add: distinct_map)
  then have "inj_on deps_key (set ?rows)" "distinct (sort_key (\<lambda>r. (d_created_at r, d_fork_name r)) ?rows)"
    by (simp_all add: distinct_map)
  then show ?thesis
    by (auto simp: list_pending_deps_def distinct_map pd_name_row comp_def inj_on_def)
qed

lemma filter_names:
  assumes "distinct (map f xs)"
  shows "filter (\<lambda>x. f x \<notin> f ` set (filter P xs)) xs = filter (\<lambda>x. \<not> P x) xs"
proof (rule filter_cong [OF refl])
  fix x
  assume "x \<in> set xs"
  then show "(f x \<notin> f ` set (filter P xs)) = (\<not> P x)"
    using assms by (auto simp: distinct_map inj_on_def)
qed

lemma release_due_pending:
  assumes "store_ok (the_store d)"
  shows "list_pending_deps (session_id s) (the_store (fst (release_due s t d))) =
      filter (\<lambda>dep. \<not> releasable (session_id s) (the_store d) dep)
        (list_pending_deps (session_id s) (the_store d))"
    and "releasable (session_id s) (the_store (fst (release_due s t d))) =
      releasable (session_id s) (the_store d)"
  using filter_names [OF list_pending_deps_unique [OF assms, of "session_id s"]]
  by (auto simp: release_due_def Let_def list_pending_deps_deletes releasable_deletes filter_empty_conv
      intro: filter_True [symmetric])

text \<open>C16. A release is exact: \<open>release_due\<close> answers with the spawn instructions of precisely the held
  dependents whose predecessors have all finished since they were held, removes precisely those, and
  does not release anything twice.\<close>

theorem release_due_exact:
  assumes "store_ok (the_store d)"
  shows "list_pending_deps (session_id s) (the_store (fst (release_due s t d))) =
      filter (\<lambda>dep. \<not> releasable (session_id s) (the_store d) dep)
        (list_pending_deps (session_id s) (the_store d))
    \<and> snd (release_due s t d) =
      (let due = filter (releasable (session_id s) (the_store d)) (list_pending_deps (session_id s) (the_store d))
       in if due = [] then None
          else Some (build_release_payload (session_id s) (conversation_id s) (project_root s) (map dep_due due)))
    \<and> snd (release_due s t' (fst (release_due s t d))) = None"
proof -
  have "filter (releasable (session_id s) (the_store d))
      (list_pending_deps (session_id s) (the_store (fst (release_due s t d)))) = []"
    unfolding release_due_pending(1) [OF assms] by (simp add: filter_empty_conv)
  then have "snd (release_due s t' (fst (release_due s t d))) = None"
    by (simp add: release_due_def [of s t'] release_due_pending(2) [OF assms] Let_def)
  then show ?thesis
    using release_due_pending(1) [OF assms, of s t] by (simp add: release_due_def Let_def)
qed

text \<open>A store with one dependent held at time 4 whose predecessor finished at time 7.\<close>

definition sample_held :: daemon where
  "sample_held = sample_daemon\<lparr>the_store :=
     apply_ops [InsertPendingDep ''s'' ''b'' ''/b.md'' ''idle'' False [''a''] 4,
                RecordSpawn ''s'' ''toolu'' (Some ''a'') 5,
                MarkSpawnTerminal ''s'' (Some ''toolu'') None ''completed'' 7] empty_store\<rparr>"

theorem release_due_exact_witness:
  "map pd_fork_name (list_pending_deps ''s'' (the_store sample_held)) = [''b'']
   \<and> snd (release_due (sample_session 0) 9 sample_held) \<noteq> None
   \<and> snd (release_due (sample_session 0) 9 (fst (release_due (sample_session 0) 8 sample_held))) = None"
proof -
  have "map pd_fork_name (list_pending_deps ''s'' (the_store sample_held)) = [''b'']"
    and rel: "filter (releasable ''s'' (the_store sample_held)) (list_pending_deps ''s'' (the_store sample_held)) \<noteq> []"
    by code_simp+
  moreover have ok: "store_ok (the_store sample_held)"
    using store_ok_ops [OF store_ok_empty] by (simp add: sample_held_def)
  moreover have "session_id (sample_session 0) = ''s''"
    by (simp add: sample_session_def)
  ultimately show ?thesis
    using release_due_exact [OF ok, of "sample_session 0" 9]
      release_due_exact [OF ok, of "sample_session 0" 8 9]
    by (auto simp: Let_def)
qed







end
