(* ===== verification/Daemon.thy ===== *)
theory Daemon
  imports Planner
begin

text \<open>
  Event handling, \<open>crates/autofork-daemon/src/daemon.rs\<close>: the fast lifecycle events, the transcript
  ingestion, and the Stop hook's long poll. An \<open>async\<close> handler that suspends is cut at its suspension
  points: \<open>stop_wait_begin\<close> runs to the first one, and \<open>poll_timer\<close> continues a suspended poll when
  its timer fires. The k-th clock reading of a call is \<open>clk k\<close>, in the order of the source's calls
  of \<open>now()\<close>.
\<close>

section \<open>Moments that have elapsed\<close>

definition elapsed_moments :: "u64 option \<Rightarrow> u64 \<Rightarrow> i64 \<Rightarrow> u64 list \<Rightarrow> i64 \<Rightarrow> fork_moment list" where
  "elapsed_moments toks max_tokens base_time deadlines up_to =
     (case toks of Some pt \<Rightarrow> [ContextMoment pt (Some max_tokens)] | None \<Rightarrow> []) @
     map IdleMoment (filter (\<lambda>d. i64_add base_time (u64_as_i64 d) \<le> up_to) deadlines)"

section \<open>Transcript ingestion\<close>

definition ingest_notification :: "string \<Rightarrow> i64 \<Rightarrow> task_notification \<Rightarrow> store \<Rightarrow> store" where
  "ingest_notification sid t n st =
     (case status n of
        Some stat \<Rightarrow>
          if is_terminal_status stat
          then fst (mark_spawn_terminal sid (tool_use_id n) (task_id n) stat t st) else st
      | None \<Rightarrow> st)"

definition ingest_delta :: "string \<Rightarrow> i64 \<Rightarrow> delta \<Rightarrow> store \<Rightarrow> store" where
  "ingest_delta sid t delta st =
     (let st = fold (\<lambda>(tool, name). record_spawn sid tool name t) (spawns delta) st;
          st = fold (\<lambda>(tool, task). set_spawn_task_id sid tool task) (task_ids delta) st;
          st = fold (ingest_notification sid t) (notifications delta) st
      in set_transcript_gauge sid (new_offset delta) (prompt_tokens delta) st)"

definition ingest_transcript :: "world \<Rightarrow> event \<Rightarrow> i64 \<Rightarrow> daemon \<Rightarrow> daemon \<times> u64 option" where
  "ingest_transcript w ev t d =
     (case ev_transcript_path ev of
        None \<Rightarrow> (d, None)
      | Some transcript \<Rightarrow>
          (case get_session (ev_session_id ev) (the_store d) of
             None \<Rightarrow> (d, None)
           | Some s \<Rightarrow>
               (case read_delta (w_from_json w) (read_bytes (w_fs w)) transcript (transcript_offset s) of
                  Some delta \<Rightarrow>
                    (with_store (ingest_delta (ev_session_id ev) t delta) d,
                     (case prompt_tokens delta of Some n \<Rightarrow> Some n | None \<Rightarrow> session_tokens s))
                | None \<Rightarrow> (d, session_tokens s))))"

section \<open>Fast events\<close>

definition upsert_event :: "event \<Rightarrow> i64 \<Rightarrow> store \<Rightarrow> store" where
  "upsert_event ev t st =
     upsert_session (ev_session_id ev) (ev_project_root ev) (ev_cwd ev) (ev_transcript_path ev)
       (ev_model ev) (map_option (join_with '','') (ev_enable_tags ev))
       (map_option (join_with '','') (ev_disable_tags ev)) t st"

text \<open>Is a submitted prompt genuine activity? With the ids of a task notification, the spawn registry
  decides, after the transcript was read; otherwise the command line's sniff does. The post-wake
  grace window covers what neither can tell.\<close>

definition is_waking :: "world \<Rightarrow> event \<Rightarrow> i64 \<Rightarrow> i64 \<Rightarrow> daemon \<Rightarrow> daemon \<times> bool" where
  "is_waking w ev t t_ingest d =
     (if ev_notif_tool_use_id ev \<noteq> None \<or> ev_notif_task_id ev \<noteq> None then
        (let d = fst (ingest_transcript w ev t_ingest d);
             stat = (case ev_notif_status ev of Some s \<Rightarrow> s | None \<Rightarrow> [])
         in if is_terminal_status stat then
              (case mark_spawn_terminal (ev_session_id ev) (ev_notif_tool_use_id ev) (ev_notif_task_id ev)
                      stat t (the_store d) of
                 (st, matched) \<Rightarrow>
                   (d\<lparr>the_store := st\<rparr>, \<not> matched \<and> \<not> recently_woke w (ev_session_id ev) t d))
            else (d, \<not> is_fork_spawn (ev_session_id ev) (ev_notif_tool_use_id ev) (ev_notif_task_id ev)
                        (the_store d)
                     \<and> \<not> recently_woke w (ev_session_id ev) t d))
      else (d, (case ev_waking ev of Some b \<Rightarrow> b | None \<Rightarrow> \<not> recently_woke w (ev_session_id ev) t d)))"

definition prompt_submit :: "world \<Rightarrow> event \<Rightarrow> i64 \<Rightarrow> i64 \<Rightarrow> daemon \<Rightarrow> daemon" where
  "prompt_submit w ev t t_ingest d =
     (let sid = ev_session_id ev;
          (d, waking) = is_waking w ev t t_ingest d;
          d = with_store (upsert_event ev t) d;
          d = with_store (set_last_activity sid t) d;
          d = (if waking
               then with_store (\<lambda>st. fst (clear_pending_deps sid (bump_pause_epoch sid st))) d
               else d)
      in cancel_wait sid d)"

definition handle_event :: "world \<Rightarrow> event \<Rightarrow> (nat \<Rightarrow> i64) \<Rightarrow> daemon \<Rightarrow> daemon \<times> response_body" where
  "handle_event w ev clk d =
     (let d = touch_busy (clk 0) d;
          d = clear_pending_close (ev_session_id ev) d;
          t = clk 1
      in (case ev_kind ev of
            EvSessionStart \<Rightarrow> (with_store (upsert_event ev t) d, RespAck)
          | EvPromptSubmit \<Rightarrow> (prompt_submit w ev t (clk 2) d, RespAck)
          | EvSessionEnd \<Rightarrow> (with_store (close_session (ev_session_id ev)) (cancel_wait (ev_session_id ev) d), RespAck)
          | EvStop \<Rightarrow> (d, RespAck)))"

section \<open>The Stop hook's long poll\<close>

text \<open>Where a poll is suspended: waiting for the first of the remaining deadlines, in the debounce
  window, or until it is cancelled.\<close>

datatype poll_phase = Deadlines "u64 list" | Debounce | ParkedForever

text \<open>The local variables of a suspended \<open>handle_stop_wait\<close>.\<close>

record poll =
  poll_session :: session_row
  poll_cfg :: config
  poll_tokens :: "u64 option"
  poll_max_tokens :: u64
  poll_baseline :: i64
  poll_deadlines :: "u64 list"
  poll_phase :: poll_phase

text \<open>What a running poll does next: return a response, or suspend.\<close>

datatype poll_result = Answer response_body | Suspend poll

definition due_now :: "world \<Rightarrow> poll \<Rightarrow> (nat \<Rightarrow> i64) \<Rightarrow> daemon \<Rightarrow> daemon \<times> bool" where
  "due_now w p clk d =
     (let moments = elapsed_moments (poll_tokens p) (poll_max_tokens p) (poll_baseline p) (poll_deadlines p) (clk 0)
      in if moments = [] then (d, False)
         else (case select_forks w (poll_session p) (poll_cfg p) moments (clk 1) (clk 2) d of
                 (d, selected) \<Rightarrow> (d, selected \<noteq> [])))"

text \<open>Phase C: evaluate again, issue the wake.\<close>

definition issue :: "world \<Rightarrow> poll \<Rightarrow> (nat \<Rightarrow> i64) \<Rightarrow> daemon \<Rightarrow> daemon \<times> poll_result" where
  "issue w p clk d =
     (let moments = elapsed_moments (poll_tokens p) (poll_max_tokens p) (poll_baseline p) (poll_deadlines p) (clk 0)
      in (case select_forks w (poll_session p) (poll_cfg p) moments (clk 1) (clk 2) d of
            (d, selected) \<Rightarrow>
              (case build_wake (poll_session p) selected (clk 3) (clk 4) d of
                 (d, Some payload) \<Rightarrow> (d, Answer (RespWake payload))
               | (d, None) \<Rightarrow> (d, Suspend (p\<lparr>poll_phase := ParkedForever\<rparr>)))))"

text \<open>Phase B: the debounce window, skipped when it is zero.\<close>

definition debounce :: "world \<Rightarrow> poll \<Rightarrow> (nat \<Rightarrow> i64) \<Rightarrow> daemon \<Rightarrow> daemon \<times> poll_result" where
  "debounce w p clk d =
     (if 0 < wake_debounce_secs (poll_cfg p) then (d, Suspend (p\<lparr>poll_phase := Debounce\<rparr>))
      else issue w p clk d)"

text \<open>Phase A, between two timers: the next deadline to wait for.\<close>

definition await :: "poll \<Rightarrow> u64 list \<Rightarrow> poll" where
  "await p ds = p\<lparr>poll_phase := (if ds = [] then ParkedForever else Deadlines ds)\<rparr>"

definition register_wait :: "string \<Rightarrow> nat \<Rightarrow> daemon \<Rightarrow> daemon" where
  "register_wait sid k d =
     (case waits d sid of
        Some old \<Rightarrow> d\<lparr>waits := (waits d)(sid \<mapsto> k), cancelled := insert old (cancelled d)\<rparr>
      | None \<Rightarrow> d\<lparr>waits := (waits d)(sid \<mapsto> k)\<rparr>)"

definition fresh_poll :: "world \<Rightarrow> config \<Rightarrow> u64 option \<Rightarrow> i64 \<Rightarrow> session_row \<Rightarrow> daemon \<Rightarrow> poll" where
  "fresh_poll w cfg toks t s d =
     (let entries = fst (discover_forks (w_from_yaml w) (w_fs w) (cwd s) (Some (user_forks_root d)))
      in \<lparr>poll_session = s, poll_cfg = cfg, poll_tokens = toks,
          poll_max_tokens = resolve_context_window (model s) toks,
          poll_baseline = (case pause_started_at s of Some b \<Rightarrow> b | None \<Rightarrow> t),
          poll_deadlines = idle_deadlines (map (\<lambda>e. def (entry_parsed e)) entries)
                             (default_idle_deadline_secs cfg),
          poll_phase = ParkedForever\<rparr>)"

text \<open>From the request to the first suspension or answer; \<open>k\<close> numbers the poll. The guard that counts
  parked polls lives until the poll is answered or dropped.\<close>

definition stop_wait_begin ::
  "world \<Rightarrow> event \<Rightarrow> nat \<Rightarrow> (nat \<Rightarrow> i64) \<Rightarrow> daemon \<Rightarrow> daemon \<times> poll_result" where
  "stop_wait_begin w ev k clk d =
     (let sid = ev_session_id ev;
          d = touch_busy (clk 0) d;
          d = clear_pending_close sid d;
          t = clk 1;
          d = with_store (upsert_event ev t) d;
          d = with_store (set_last_activity sid t) d;
          d = with_store (set_pause_started_at_if_unset sid t) d;
          (d, toks) = ingest_transcript w ev (clk 2) d;
          cfg = cfg_for w d (Some (ev_project_root ev));
          d = register_wait sid k d;
          d = park_new sid d
      in (case get_session sid (the_store d) of
            None \<Rightarrow> (d, Answer RespWaited)
          | Some s \<Rightarrow>
              (case release_due s (clk 3) d of
                 (d, Some payload) \<Rightarrow> (d, Answer (RespWake payload))
               | (d, None) \<Rightarrow>
                   (let p = fresh_poll w cfg toks t s d
                    in (case due_now w p (\<lambda>i. clk (4 + i)) d of
                          (d, True) \<Rightarrow> debounce w p (\<lambda>i. clk (7 + i)) d
                        | (d, False) \<Rightarrow> (d, Suspend (await p (poll_deadlines p))))))))"

text \<open>The timer of a suspended poll fires.\<close>

fun poll_timer :: "world \<Rightarrow> poll \<Rightarrow> (nat \<Rightarrow> i64) \<Rightarrow> daemon \<Rightarrow> daemon \<times> poll_result" where
  "poll_timer w p clk d =
     (case poll_phase p of
        Deadlines ds \<Rightarrow>
          (case due_now w p clk d of
             (d, True) \<Rightarrow> debounce w p (\<lambda>i. clk (3 + i)) d
           | (d, False) \<Rightarrow> (d, Suspend (await p (tl ds))))
      | Debounce \<Rightarrow> issue w p clk d
      | ParkedForever \<Rightarrow> (d, Suspend p))"

section \<open>Lost polls\<close>

text \<open>The connection of a parked poll dropped: the close is pending under a new generation.\<close>

definition on_poll_lost :: "string \<Rightarrow> daemon \<Rightarrow> daemon \<times> u64" where
  "on_poll_lost sid d =
     (let gen = close_gen d + 1
      in (d\<lparr>close_gen := gen, pending_close := (pending_close d)(sid \<mapsto> gen)\<rparr>, gen))"

text \<open>The spawned task, after its grace period.\<close>

definition grace_close :: "string \<Rightarrow> u64 \<Rightarrow> daemon \<Rightarrow> daemon" where
  "grace_close sid gen d =
     (if pending_close d sid \<noteq> Some gen then d
      else (let d = d\<lparr>pending_close := (pending_close d)(sid := None)\<rparr>
            in (case get_session sid (the_store d) of
                  Some s \<Rightarrow>
                    if session_status s = Open then with_store (close_session sid) d else d
                | None \<Rightarrow> d)))"

section \<open>Quiet periods\<close>

text \<open>One turn of the reaper's loop: does the daemon exit?\<close>

definition quiet_exit :: "world \<Rightarrow> i64 \<Rightarrow> daemon \<Rightarrow> bool" where
  "quiet_exit w t d \<longleftrightarrow>
     is_quiet d \<and> u64_as_i64 (quiet_period_secs (cfg_for w d None)) \<le> i64_sub t (last_busy d)"

section \<open>The long poll, stage by stage\<close>

text \<open>What \<open>stop_wait_begin\<close> has done when it looks its session up: the activity is recorded, the transcript
  read, the poll registered and counted; and the variables of the poll it goes on with.\<close>

definition stop_recorded :: "event \<Rightarrow> (nat \<Rightarrow> i64) \<Rightarrow> daemon \<Rightarrow> daemon" where
  "stop_recorded ev clk d =
     (let sid = ev_session_id ev
      in with_store (set_pause_started_at_if_unset sid (clk 1)) (with_store (set_last_activity sid (clk 1))
           (with_store (upsert_event ev (clk 1)) (clear_pending_close sid (touch_busy (clk 0) d)))))"

definition stop_ingested :: "world \<Rightarrow> event \<Rightarrow> (nat \<Rightarrow> i64) \<Rightarrow> daemon \<Rightarrow> daemon \<times> u64 option" where
  "stop_ingested w ev clk d = ingest_transcript w ev (clk 2) (stop_recorded ev clk d)"

definition stop_registered :: "world \<Rightarrow> event \<Rightarrow> nat \<Rightarrow> (nat \<Rightarrow> i64) \<Rightarrow> daemon \<Rightarrow> daemon" where
  "stop_registered w ev k clk d =
     park_new (ev_session_id ev) (register_wait (ev_session_id ev) k (fst (stop_ingested w ev clk d)))"

definition stop_poll :: "world \<Rightarrow> event \<Rightarrow> (nat \<Rightarrow> i64) \<Rightarrow> daemon \<Rightarrow> session_row \<Rightarrow> daemon \<Rightarrow> poll" where
  "stop_poll w ev clk d =
     fresh_poll w (cfg_for w (fst (stop_ingested w ev clk d)) (Some (ev_project_root ev)))
       (snd (stop_ingested w ev clk d)) (clk 1)"

lemma stop_wait_begin_eq:
  "stop_wait_begin w ev k clk d =
     (let d2 = stop_registered w ev k clk d
      in (case get_session (ev_session_id ev) (the_store d2) of
            None \<Rightarrow> (d2, Answer RespWaited)
          | Some s \<Rightarrow>
              (case release_due s (clk 3) d2 of
                 (d3, Some payload) \<Rightarrow> (d3, Answer (RespWake payload))
               | (d3, None) \<Rightarrow>
                   (let p = stop_poll w ev clk d s d3
                    in (case due_now w p (\<lambda>i. clk (4 + i)) d3 of
                          (d4, True) \<Rightarrow> debounce w p (\<lambda>i. clk (7 + i)) d4
                        | (d4, False) \<Rightarrow> (d4, Suspend (await p (poll_deadlines p))))))))"
  unfolding stop_wait_begin_def stop_poll_def stop_registered_def stop_ingested_def stop_recorded_def Let_def
  by (simp only: case_prod_unfold)

lemma stop_registered_store:
  "the_store (stop_registered w ev k clk d) = the_store (fst (stop_ingested w ev clk d))"
  by (simp add: stop_registered_def register_wait_def split: option.split)

section \<open>How handlers change the store\<close>

text \<open>\<open>evolves sid\<close>: by operations for that session, none of which closes it.\<close>

definition evolves :: "string \<Rightarrow> store \<Rightarrow> store \<Rightarrow> bool" where
  "evolves sid st st' \<longleftrightarrow>
     (\<exists>ops. st' = apply_ops ops st \<and> list_all (\<lambda>op. op_session op = sid \<and> op \<noteq> CloseSession sid) ops)"

lemma evolves_refl [simp, intro]: "evolves sid st st"
  unfolding evolves_def by (intro exI [of _ "[]"]) (simp add: apply_ops_def)

lemma evolves_trans: "evolves sid a b \<Longrightarrow> evolves sid b c \<Longrightarrow> evolves sid a c"
proof -
  assume "evolves sid a b" and "evolves sid b c"
  then obtain xs ys where "b = apply_ops xs a" "c = apply_ops ys b"
    "list_all (\<lambda>op. op_session op = sid \<and> op \<noteq> CloseSession sid) xs"
    "list_all (\<lambda>op. op_session op = sid \<and> op \<noteq> CloseSession sid) ys"
    by (auto simp: evolves_def)
  then show ?thesis
    unfolding evolves_def by (intro exI [of _ "xs @ ys"]) (simp add: apply_ops_def)
qed

lemma evolves_op:
  "op_session op = sid \<Longrightarrow> op \<noteq> CloseSession sid \<Longrightarrow> st' = apply_op op st \<Longrightarrow> evolves sid st st'"
  unfolding evolves_def by (intro exI [of _ "[op]"]) (simp add: apply_ops_def)

lemma evolves_fold: "(\<And>x st. evolves sid st (f x st)) \<Longrightarrow> evolves sid st (fold f xs st)"
  by (induction xs arbitrary: st) (auto intro: evolves_trans)

lemma evolves_methods:
  "evolves sid st (upsert_session sid root dir tr mdl en dis t st)"
  "evolves sid st (bump_pause_epoch sid st)"
  "evolves sid st (set_pause_started_at_if_unset sid t st)"
  "evolves sid st (set_last_activity sid t st)"
  "evolves sid st (set_transcript_gauge sid off toks st)"
  "evolves sid st (fst (queue_fork sid name p t st))"
  "evolves sid st (record_spawn sid tool fname t st)"
  "evolves sid st (set_spawn_task_id sid tool task st)"
  "evolves sid st (fst (mark_spawn_terminal sid mtool mtask stat t st))"
  "evolves sid st (delete_pending_dep sid name st)"
  "evolves sid st (fst (clear_pending_deps sid st))"
  by (rule evolves_op [of "UpsertSession sid root dir tr mdl en dis t"]
      evolves_op [of "BumpPauseEpoch sid"] evolves_op [of "SetPauseStarted sid t"]
      evolves_op [of "SetLastActivity sid t"] evolves_op [of "SetTranscriptGauge sid off toks"]
      evolves_op [of "QueueFork sid name p t"] evolves_op [of "RecordSpawn sid tool fname t"]
      evolves_op [of "SetSpawnTaskId sid tool task"] evolves_op [of "MarkSpawnTerminal sid mtool mtask stat t"]
      evolves_op [of "DeletePendingDep sid name"] evolves_op [of "ClearPendingDeps sid"]; simp)+

lemma evolves_ingest_delta: "evolves sid st (ingest_delta sid t delta st)"
proof -
  have ntf: "evolves sid st (ingest_notification sid t n st)" for n st
    by (auto simp: ingest_notification_def intro: evolves_methods split: option.split)
  have pairs: "evolves sid st ((\<lambda>(tool, name). record_spawn sid tool name t) x st)"
    "evolves sid st ((\<lambda>(tool, task). set_spawn_task_id sid tool task) y st)" for x y st
    by (simp_all add: case_prod_unfold evolves_methods)
  show ?thesis
    unfolding ingest_delta_def Let_def
    by (intro evolves_trans [OF _ evolves_methods(5)]
        evolves_trans [OF evolves_trans [OF evolves_fold evolves_fold] evolves_fold] ntf pairs)
qed

lemma evolves_ingest: "evolves (ev_session_id ev) (the_store d) (the_store (fst (ingest_transcript w ev t d)))"
  by (auto simp: ingest_transcript_def evolves_ingest_delta split: option.split)

lemma evolves_upsert_event: "evolves (ev_session_id ev) st (upsert_event ev t st)"
  unfolding upsert_event_def by (rule evolves_methods)

lemma evolves_is_waking:
  "evolves (ev_session_id ev) (the_store d) (the_store (fst (is_waking w ev t t' d)))"
  using evolves_ingest [of ev d w t'] evolves_methods(9)
  by (auto simp: is_waking_def Let_def case_prod_unfold intro: evolves_trans)

lemma evolves_prompt_submit:
  "evolves (ev_session_id ev) (the_store d) (the_store (prompt_submit w ev t t' d))"
proof -
  note chain = evolves_trans [OF evolves_trans [OF evolves_is_waking evolves_upsert_event] evolves_methods(4)]
  have bump: "evolves sid st (fst (clear_pending_deps sid (bump_pause_epoch sid st)))" for sid st
    by (rule evolves_trans [OF evolves_methods(2) evolves_methods(11)])
  show ?thesis
    using chain evolves_trans [OF chain bump] by (auto simp: prompt_submit_def Let_def case_prod_unfold)
qed

lemma evolves_refresh:
  "evolves sid (the_store d) (the_store (refresh_roster w sid dir t d))"
  unfolding refresh_roster_def Let_def with_store_simps by (rule evolves_fold) (rule evolves_methods)

lemma evolves_select:
  "session_id s = sid \<Longrightarrow> evolves sid (the_store d) (the_store (fst (select_forks w s cfg ms t t' d)))"
  using evolves_refresh by (auto simp: select_forks_fst)

lemma evolves_build_wake:
  "session_id s = sid \<Longrightarrow> evolves sid (the_store d) (the_store (fst (build_wake s sel t t' d)))"
  using wake_ops_session [of sid t sel] wake_ops_no_close [of sid sid t sel]
  unfolding evolves_def build_wake_store by (intro exI [of _ "wake_ops sid t sel"]) (simp add: list_all_iff)

lemma evolves_release:
  "session_id s = sid \<Longrightarrow> evolves sid (the_store d) (the_store (fst (release_due s t d)))"
  by (auto simp: release_due_def Let_def intro!: evolves_fold evolves_methods)

lemma evolves_due_now:
  "session_id (poll_session p) = sid \<Longrightarrow> evolves sid (the_store d) (the_store (fst (due_now w p clk d)))"
  using evolves_select by (auto simp: due_now_def Let_def case_prod_unfold)

lemma evolves_issue:
  assumes "session_id (poll_session p) = sid"
  shows "evolves sid (the_store d) (the_store (fst (issue w p clk d)))"
proof -
  let ?ms = "elapsed_moments (poll_tokens p) (poll_max_tokens p) (poll_baseline p) (poll_deadlines p) (clk 0)"
  let ?r = "select_forks w (poll_session p) (poll_cfg p) ?ms (clk 1) (clk 2) d"
  have "fst (issue w p clk d) = fst (build_wake (poll_session p) (snd ?r) (clk 3) (clk 4) (fst ?r))"
    by (simp add: issue_def Let_def case_prod_unfold split: option.split)
  then show ?thesis
    using evolves_trans [OF evolves_select [OF assms] evolves_build_wake [OF assms]] by simp
qed

lemma evolves_debounce:
  "session_id (poll_session p) = sid \<Longrightarrow> evolves sid (the_store d) (the_store (fst (debounce w p clk d)))"
  by (simp add: debounce_def evolves_issue)

lemma evolves_poll_timer:
  assumes "session_id (poll_session p) = sid"
  shows "evolves sid (the_store d) (the_store (fst (poll_timer w p clk d)))"
  using evolves_due_now [OF assms] evolves_issue [OF assms]
    evolves_trans [OF evolves_due_now [OF assms] evolves_debounce [OF assms]]
  by (auto simp: case_prod_unfold split: poll_phase.split bool.split)


lemma evolves_registered:
  "evolves (ev_session_id ev) (the_store d) (the_store (stop_registered w ev k clk d))"
proof -
  have "evolves (ev_session_id ev) (the_store d) (the_store (stop_recorded ev clk d))"
    unfolding stop_recorded_def Let_def with_store_simps the_store_ops
    by (rule evolves_trans [OF evolves_trans [OF evolves_upsert_event evolves_methods(4)] evolves_methods(3)])
  then show ?thesis
    using evolves_ingest evolves_trans unfolding stop_registered_store stop_ingested_def by metis
qed

lemma evolves_begin:
  "evolves (ev_session_id ev) (the_store d) (the_store (fst (stop_wait_begin w ev k clk d)))"
proof (cases "get_session (ev_session_id ev) (the_store (stop_registered w ev k clk d))")
  case None
  then show ?thesis using evolves_registered by (simp add: stop_wait_begin_eq)
next
  case (Some s)
  then have sid: "session_id s = ev_session_id ev"
    by (auto simp: get_session_def dest: find_Some_elem)
  let ?d3 = "fst (release_due s (clk 3) (stop_registered w ev k clk d))"
  have psid: "session_id (poll_session (stop_poll w ev clk d s ?d3)) = ev_session_id ev"
    using sid by (simp add: stop_poll_def fresh_poll_def Let_def)
  note e3 = evolves_trans [OF evolves_registered evolves_release [OF sid]]
  note e4 = evolves_trans [OF e3 evolves_due_now [OF psid]]
  show ?thesis
    using e3 e4 evolves_trans [OF e4 evolves_debounce [OF psid]]
    by (simp add: stop_wait_begin_eq Some case_prod_unfold Let_def split: option.split bool.split)
qed

text \<open>What follows from it.\<close>

lemma evolves_ok: "evolves sid st st' \<Longrightarrow> store_ok st \<Longrightarrow> store_ok st'"
  by (auto simp: evolves_def store_ok_ops)

lemma evolves_frame: "evolves sid st st' \<Longrightarrow> sid' \<noteq> sid \<Longrightarrow> session_rows sid' st' = session_rows sid' st"
  by (auto simp: evolves_def list_all_iff intro!: session_rows_frames)

lemma evolves_latched: "evolves sid st st' \<Longrightarrow> is_latched x n k st \<Longrightarrow> is_latched x n k st'"
  unfolding evolves_def apply_ops_def
proof (elim exE conjE)
  fix ops
  assume "st' = fold apply_op ops st" "list_all (\<lambda>op. op_session op = sid \<and> op \<noteq> CloseSession sid) ops"
    "is_latched x n k st"
  then show "is_latched x n k st'"
    using latch.keeps_all [of x ops n k st] by (fastforce simp: list_all_iff)
qed

text \<open>The bookkeeping of polls, which planning leaves alone.\<close>

definition poll_books ::
  "daemon \<Rightarrow> (string \<Rightarrow> nat option) \<times> nat set \<times> (string \<Rightarrow> nat option) \<times> (string \<Rightarrow> u64 option) \<times> u64 \<times> nat" where
  "poll_books d = (waits d, cancelled d, parked d, pending_close d, close_gen d, connections d)"

lemma poll_books_with_store [simp]: "poll_books (with_store f d) = poll_books d"
  "poll_books (d\<lparr>the_store := st\<rparr>) = poll_books d" "poll_books (note_wake_issued sid t d) = poll_books d"
  "poll_books (touch_busy t d) = poll_books d"
  by (simp_all add: poll_books_def note_wake_issued_def touch_busy_def)

lemma poll_books_ingest [simp]: "poll_books (fst (ingest_transcript w ev t d)) = poll_books d"
  by (simp add: ingest_transcript_def split: option.split)

lemma poll_books_is_waking [simp]: "poll_books (fst (is_waking w ev t t' d)) = poll_books d"
  by (simp add: is_waking_def Let_def case_prod_unfold)

lemma poll_books_select [simp]: "poll_books (fst (select_forks w s cfg ms t t' d)) = poll_books d"
  by (simp add: select_forks_fst refresh_roster_def Let_def)

lemma poll_books_build_wake [simp]: "poll_books (fst (build_wake s sel t t' d)) = poll_books d"
  by (simp add: build_wake_eq)

lemma poll_books_release [simp]: "poll_books (fst (release_due s t d)) = poll_books d"
  by (simp add: release_due_def Let_def)

lemma poll_books_due_now [simp]: "poll_books (fst (due_now w p clk d)) = poll_books d"
  by (simp add: due_now_def Let_def case_prod_unfold)

lemma poll_books_issue [simp]: "poll_books (fst (issue w p clk d)) = poll_books d"
  by (simp add: issue_def Let_def case_prod_unfold split: option.split)

lemma poll_books_debounce [simp]: "poll_books (fst (debounce w p clk d)) = poll_books d"
  by (simp add: debounce_def)

lemma poll_books_timer [simp]: "poll_books (fst (poll_timer w p clk d)) = poll_books d"
  by (simp add: case_prod_unfold split: poll_phase.split bool.split)

text \<open>\<open>stop_wait_begin\<close> registers its poll and counts it, and plans.\<close>

lemma poll_books_begin:
  "poll_books (fst (stop_wait_begin w ev k clk d)) =
   poll_books (park_new (ev_session_id ev) (register_wait (ev_session_id ev) k
     (clear_pending_close (ev_session_id ev) d)))"
proof -
  have register: "poll_books a = poll_books b \<Longrightarrow>
      poll_books (park_new sid (register_wait sid k a)) = poll_books (park_new sid (register_wait sid k b))" for sid a b
    by (auto simp: poll_books_def park_new_def register_wait_def split: option.split)
  have clear: "poll_books a = poll_books b \<Longrightarrow>
      poll_books (clear_pending_close sid a) = poll_books (clear_pending_close sid b)" for sid a b
    by (simp add: poll_books_def clear_pending_close_def)
  have cut: "poll_books (clear_pending_close sid (touch_busy t d)) = poll_books (clear_pending_close sid d)" for sid t
    by (rule clear) simp
  show ?thesis
    unfolding stop_wait_begin_def Let_def case_prod_unfold
    by (auto simp: case_prod_unfold cut intro!: register split: option.split bool.split)
qed

text \<open>The answer of \<open>stop_wait_begin\<close> to a suspended poll is for the event's session.\<close>

lemma poll_timer_session:
  "snd (poll_timer w p clk d) = Suspend q \<Longrightarrow> poll_session q = poll_session p"
  by (auto simp: case_prod_unfold debounce_def issue_def await_def Let_def
      split: poll_phase.splits bool.splits option.splits if_splits)


lemma get_session_id: "get_session sid st = Some s \<Longrightarrow> session_id s = sid"
  by (auto simp: get_session_def dest: find_Some_elem)

lemma begin_session:
  "snd (stop_wait_begin w ev k clk d) = Suspend q \<Longrightarrow> session_id (poll_session q) = ev_session_id ev"
  by (auto simp: stop_wait_begin_def case_prod_unfold debounce_def issue_def await_def fresh_poll_def Let_def
      dest: get_session_id split: bool.splits option.splits if_splits)

section \<open>Properties of the handlers\<close>

lemma clear_pending_deps_empty: "list_pending_deps sid (fst (clear_pending_deps sid st)) = []"
  by (simp add: clear_pending_deps_def list_pending_deps_def delete_where_def)

lemma session_row_reads:
  "get_session sid (fst (clear_pending_deps sid' st)) = get_session sid st"
  "get_session sid (set_last_activity sid t st) = map_option (\<lambda>r. r\<lparr>last_activity := t\<rparr>) (get_session sid st)"
  "get_session sid (bump_pause_epoch sid st) =
     map_option (\<lambda>r. r\<lparr>pause_epoch := pause_epoch r + 1, pause_started_at := None\<rparr>) (get_session sid st)"
proof -
  show "get_session sid (fst (clear_pending_deps sid' st)) = get_session sid st"
    by (simp add: clear_pending_deps_def get_session_def case_prod_unfold)
  show "get_session sid (set_last_activity sid t st) = map_option (\<lambda>r. r\<lparr>last_activity := t\<rparr>) (get_session sid st)"
    unfolding set_last_activity_def
    by (subst get_update_session) (simp_all add: get_session_def option.map_comp comp_def row_to_session_def)
  show "get_session sid (bump_pause_epoch sid st) =
     map_option (\<lambda>r. r\<lparr>pause_epoch := pause_epoch r + 1, pause_started_at := None\<rparr>) (get_session sid st)"
    unfolding bump_pause_epoch_def
    by (subst get_update_session) (simp_all add: get_session_def option.map_comp comp_def row_to_session_def)
qed


text \<open>Planning does not touch the session rows; reading the transcript changes their gauge only.\<close>

lemma sessions_select [simp]: "sessions (the_store (fst (select_forks w s cfg ms t t' d))) = sessions (the_store d)"
proof -
  have "sessions (fold (\<lambda>e st. fst (queue_fork sid (entry_name e) (entry_path e) t st)) es st) = sessions st" for sid es st
    by (induction es arbitrary: st) (simp_all add: queue_fork_def case_prod_unfold)
  then show ?thesis by (simp add: select_forks_fst refresh_roster_def Let_def)
qed

lemma sessions_build_wake [simp]: "sessions (the_store (fst (build_wake s sel t t' d))) = sessions (the_store d)"
proof -
  have one: "sessions (apply_ops (stamp_ops sid t sel deps i) st) = sessions st" for sid deps i st
    by (cases "sel_latch_key (sel ! i)")
      (simp_all add: stamp_ops_def apply_ops_def Let_def touch_fork_ran_def record_issued_run_def
        try_latch_fire_def insert_pending_dep_def case_prod_unfold)
  have "sessions (apply_ops (concat (map (stamp_ops sid t sel deps) is)) st) = sessions st" for sid deps "is" st
    using one by (induction "is" arbitrary: st) (simp_all add: apply_ops_def)
  then show ?thesis by (simp add: build_wake_store wake_ops_def)
qed

lemma sessions_release [simp]: "sessions (the_store (fst (release_due s t d))) = sessions (the_store d)"
proof -
  have "sessions (fold (\<lambda>dep. delete_pending_dep sid (pd_fork_name dep)) ds st) = sessions st"
    for sid st and ds :: "pending_dep list"
    by (induction ds arbitrary: st) (simp_all add: delete_pending_dep_def)
  then show ?thesis by (simp add: release_due_def Let_def)
qed

lemma sessions_due_now [simp]: "sessions (the_store (fst (due_now w p clk d))) = sessions (the_store d)"
  by (simp add: due_now_def Let_def case_prod_unfold)

lemma sessions_issue [simp]: "sessions (the_store (fst (issue w p clk d))) = sessions (the_store d)"
  by (simp add: issue_def Let_def case_prod_unfold split: option.split)

lemma sessions_debounce [simp]: "sessions (the_store (fst (debounce w p clk d))) = sessions (the_store d)"
  by (simp add: debounce_def)

text \<open>The pause of a session: its epoch and its baseline.\<close>

definition pause_of :: "string \<Rightarrow> store \<Rightarrow> (i64 \<times> i64 option) option" where
  "pause_of sid st = map_option (\<lambda>s. (pause_epoch s, pause_started_at s)) (get_session sid st)"

lemma pause_of_sessions: "sessions st = sessions st' \<Longrightarrow> pause_of sid st = pause_of sid st'"
  by (simp add: pause_of_def get_session_def)

lemma sessions_ingest_delta:
  "sessions (ingest_delta sid t delta st) =
   sessions (set_transcript_gauge sid (new_offset delta) (prompt_tokens delta) st)"
proof -
  have 1: "sessions (fold (\<lambda>(tool, name). record_spawn sid tool name t) xs st) = sessions st" for xs st
    by (induction xs arbitrary: st) (simp_all add: case_prod_unfold record_spawn_def)
  have 2: "sessions (fold (\<lambda>(tool, task). set_spawn_task_id sid tool task) xs st) = sessions st" for xs st
    by (induction xs arbitrary: st) (simp_all add: case_prod_unfold set_spawn_task_id_def)
  have 3: "sessions (fold (ingest_notification sid t) ns st) = sessions st" for ns st
    by (induction ns arbitrary: st)
      (simp_all add: ingest_notification_def mark_spawn_terminal_def split: option.split)
  show ?thesis
    by (simp add: ingest_delta_def Let_def set_transcript_gauge_def update_session_def 1 2 3)
qed

lemma pause_of_gauge: "pause_of sid (set_transcript_gauge sid off toks st) = pause_of sid st"
  unfolding pause_of_def set_transcript_gauge_def
  by (subst get_update_session) (simp_all add: get_session_def option.map_comp comp_def row_to_session_def)

lemma pause_of_ingest [simp]:
  "pause_of (ev_session_id ev) (the_store (fst (ingest_transcript w ev t d))) = pause_of (ev_session_id ev) (the_store d)"
  using pause_of_sessions [OF sessions_ingest_delta]
  by (simp add: ingest_transcript_def pause_of_gauge split: option.split)

lemma pause_of_mark [simp]: "pause_of sid' (fst (mark_spawn_terminal sid tool task stat t st)) = pause_of sid' st"
  by (rule pause_of_sessions) (simp add: mark_spawn_terminal_def)

lemma pause_of_is_waking [simp]:
  "pause_of (ev_session_id ev) (the_store (fst (is_waking w ev t t' d))) = pause_of (ev_session_id ev) (the_store d)"
  by (simp add: is_waking_def Let_def case_prod_unfold)

lemma pause_of_upsert:
  "pause_of sid (upsert_session sid root dir tr mdl en dis t st) =
   Some (case pause_of sid st of Some p \<Rightarrow> p | None \<Rightarrow> (0, None))"
  by (simp add: pause_of_def get_upsert_session row_to_session_def new_session_def split: option.split)

lemma pause_of_row_ops:
  "pause_of sid (set_last_activity sid t st) = pause_of sid st"
  "pause_of sid (bump_pause_epoch sid st) = map_option (\<lambda>(e, _). (e + 1, None)) (pause_of sid st)"
  "pause_of sid (fst (clear_pending_deps sid' st)) = pause_of sid st"
  by (simp_all add: pause_of_def session_row_reads option.map_comp comp_def)

lemma pause_of_started:
  "pause_of sid (set_pause_started_at_if_unset sid t st) =
   map_option (\<lambda>(e, b). (e, Some (case b of Some x \<Rightarrow> x | None \<Rightarrow> t))) (pause_of sid st)"
proof -
  let ?upd = "update_where (\<lambda>r. s_session_id r = sid \<and> s_pause_started_at r = None)
      (\<lambda>r. r\<lparr>s_pause_started_at := Some t\<rparr>)"
  have "find (\<lambda>r. s_session_id r = sid) (?upd tbl) =
      map_option (\<lambda>r. if s_pause_started_at r = None then r\<lparr>s_pause_started_at := Some t\<rparr> else r)
        (find (\<lambda>r. s_session_id r = sid) tbl)" for tbl :: "session_tbl list"
    by (induction tbl) (auto simp: update_where_def)
  then show ?thesis
    by (cases "find (\<lambda>r. s_session_id r = sid) (sessions st)")
      (simp_all add: pause_of_def get_session_def set_pause_started_at_if_unset_def row_to_session_def
        split: option.split)
qed


lemma pending_ingest_delta: "pending_deps (ingest_delta sid t delta st) = pending_deps st"
proof -
  have 1: "pending_deps (fold (\<lambda>(tool, name). record_spawn sid tool name t) xs st) = pending_deps st" for xs st
    by (induction xs arbitrary: st) (simp_all add: case_prod_unfold record_spawn_def)
  have 2: "pending_deps (fold (\<lambda>(tool, task). set_spawn_task_id sid tool task) xs st) = pending_deps st" for xs st
    by (induction xs arbitrary: st) (simp_all add: case_prod_unfold set_spawn_task_id_def)
  have 3: "pending_deps (fold (ingest_notification sid t) ns st) = pending_deps st" for ns st
    by (induction ns arbitrary: st)
      (simp_all add: ingest_notification_def mark_spawn_terminal_def split: option.split)
  show ?thesis
    by (simp add: ingest_delta_def Let_def set_transcript_gauge_def update_session_def 1 2 3)
qed

lemma pending_is_waking: "pending_deps (the_store (fst (is_waking w ev t t' d))) = pending_deps (the_store d)"
proof -
  have "pending_deps (the_store (fst (ingest_transcript w ev t' d))) = pending_deps (the_store d)"
    by (simp add: ingest_transcript_def pending_ingest_delta split: option.split)
  then show ?thesis
    by (simp add: is_waking_def Let_def case_prod_unfold mark_spawn_terminal_def)
qed

text \<open>A submitted prompt, with the classification it gets.\<close>

lemma prompt_submit_effect:
  assumes "pause_of (ev_session_id ev) (the_store d) = Some (e, b)"
  shows "pause_of (ev_session_id ev) (the_store (prompt_submit w ev t t' d)) =
      Some (if snd (is_waking w ev t t' d) then (e + 1, None) else (e, b))"
    and "list_pending_deps (ev_session_id ev) (the_store (prompt_submit w ev t t' d)) =
      (if snd (is_waking w ev t t' d) then [] else list_pending_deps (ev_session_id ev) (the_store d))"
    and "waits (prompt_submit w ev t t' d) (ev_session_id ev) = None"
    and "cancelled (prompt_submit w ev t t' d) = cancelled d \<union> set_option (waits d (ev_session_id ev))"
proof -
  show "cancelled (prompt_submit w ev t t' d) = cancelled d \<union> set_option (waits d (ev_session_id ev))"
    using poll_books_is_waking [of w ev t t' d]
    by (auto simp: prompt_submit_def Let_def case_prod_unfold cancel_wait_def poll_books_def split: option.split)
  show "pause_of (ev_session_id ev) (the_store (prompt_submit w ev t t' d)) =
      Some (if snd (is_waking w ev t t' d) then (e + 1, None) else (e, b))"
    using assms by (simp add: prompt_submit_def Let_def case_prod_unfold pause_of_row_ops upsert_event_def pause_of_upsert)
  show "list_pending_deps (ev_session_id ev) (the_store (prompt_submit w ev t t' d)) =
      (if snd (is_waking w ev t t' d) then [] else list_pending_deps (ev_session_id ev) (the_store d))"
    using pending_is_waking [of w ev t t' d]
    by (simp add: prompt_submit_def Let_def case_prod_unfold clear_pending_deps_empty)
      (simp add: list_pending_deps_def set_last_activity_def update_session_def upsert_event_def upsert_session_def)
  show "waits (prompt_submit w ev t t' d) (ev_session_id ev) = None"
    by (simp add: prompt_submit_def Let_def case_prod_unfold cancel_wait_def split: option.split)
qed

text \<open>\<open>own_completion\<close>: the prompt is a task notification of a fork this session spawned, as far as the
  transcript (read up to its present end) and the registry tell.\<close>

definition own_completion :: "world \<Rightarrow> event \<Rightarrow> i64 \<Rightarrow> daemon \<Rightarrow> bool" where
  "own_completion w ev t d \<longleftrightarrow>
     (ev_notif_tool_use_id ev \<noteq> None \<or> ev_notif_task_id ev \<noteq> None)
     \<and> is_fork_spawn (ev_session_id ev) (ev_notif_tool_use_id ev) (ev_notif_task_id ev)
         (the_store (fst (ingest_transcript w ev t d)))"

lemma own_completion_not_waking: "own_completion w ev t' d \<Longrightarrow> \<not> snd (is_waking w ev t t' d)"
  by (auto simp: own_completion_def is_waking_def Let_def case_prod_unfold mark_spawn_terminal_def)

definition genuine_prompt :: "event \<Rightarrow> bool" where
  "genuine_prompt ev \<longleftrightarrow>
     ev_notif_tool_use_id ev = None \<and> ev_notif_task_id ev = None \<and> ev_waking ev = Some True"

lemma genuine_waking: "genuine_prompt ev \<Longrightarrow> snd (is_waking w ev t t' d)"
  by (simp add: genuine_prompt_def is_waking_def)

text \<open>C28. What a submitted prompt does to the pause. A genuine prompt starts a new one: the epoch
  advances, the baseline is cleared and the held dependents are dropped. The completion notice of one
  of the session's own forks leaves epoch, baseline and held dependents alone. Either way the poll that
  is registered for the session is unregistered and signalled, and no other poll is.\<close>

theorem prompt_submit_pause:
  assumes "ev_kind ev = EvPromptSubmit" and "pause_of (ev_session_id ev) (the_store d) = Some (e, b)"
    and "d' = fst (handle_event w ev clk d)"
  shows "waits d' (ev_session_id ev) = None
    \<and> cancelled d' = cancelled d \<union> set_option (waits d (ev_session_id ev))
    \<and> (genuine_prompt ev \<longrightarrow> pause_of (ev_session_id ev) (the_store d') = Some (e + 1, None)
          \<and> list_pending_deps (ev_session_id ev) (the_store d') = [])
    \<and> (own_completion w ev (clk 2) (clear_pending_close (ev_session_id ev) (touch_busy (clk 0) d)) \<longrightarrow>
          pause_of (ev_session_id ev) (the_store d') = Some (e, b)
          \<and> list_pending_deps (ev_session_id ev) (the_store d') =
              list_pending_deps (ev_session_id ev) (the_store d))"
proof -
  let ?d = "clear_pending_close (ev_session_id ev) (touch_busy (clk 0) d)"
  have d': "d' = prompt_submit w ev (clk 1) (clk 2) ?d"
    using assms(1,3) by (simp add: handle_event_def Let_def)
  have "pause_of (ev_session_id ev) (the_store ?d) = Some (e, b)"
    using assms(2) by simp
  note effect = prompt_submit_effect [OF this, of w "clk 1" "clk 2"]
  have same: "cancelled ?d = cancelled d" "waits ?d = waits d"
    by (simp_all add: clear_pending_close_def touch_busy_def)
  show ?thesis
    unfolding d' using effect [unfolded same] genuine_waking own_completion_not_waking by auto
qed

text \<open>Session \<open>s\<close> with a spawn registered under \<open>toolu\<close>, and the notice of its completion.\<close>

definition sample_event :: event where
  "sample_event = \<lparr>ev_kind = EvPromptSubmit, ev_session_id = ''s'', ev_transcript_path = None,
     ev_cwd = ''/p'', ev_project_root = ''/p'', ev_source = None, ev_model = None, ev_enable_tags = None,
     ev_disable_tags = None, ev_waking = Some True, ev_notif_tool_use_id = None,
     ev_notif_task_id = None, ev_notif_status = None\<rparr>"

definition sample_notice :: event where
  "sample_notice = sample_event\<lparr>ev_notif_tool_use_id := Some ''toolu'', ev_notif_status := Some ''completed''\<rparr>"

definition sample_running :: daemon where
  "sample_running = sample_daemon\<lparr>the_store :=
     apply_ops [UpsertSession ''s'' ''/p'' ''/p'' None None None None 1, SetPauseStarted ''s'' 2,
                RecordSpawn ''s'' ''toolu'' (Some ''a'') 5] empty_store\<rparr>"

lemma sample_running_pause: "pause_of ''s'' (the_store sample_running) = Some (0, Some 2)"
proof -
  have "pause_of ''s'' empty_store = None" by (simp add: pause_of_def get_session_def empty_store_def)
  moreover have "pause_of sid (record_spawn x tool n t st) = pause_of sid st" for sid x tool n t st
    by (rule pause_of_sessions) (simp add: record_spawn_def)
  ultimately show ?thesis
    by (simp add: sample_running_def apply_ops_def pause_of_started pause_of_upsert)
qed

theorem prompt_submit_pause_witness:
  "pause_of ''s'' (the_store (fst (handle_event sample_world sample_event (\<lambda>_. 9) sample_running))) = Some (1, None)
   \<and> pause_of ''s'' (the_store (fst (handle_event sample_world sample_notice (\<lambda>_. 9) sample_running))) = Some (0, Some 2)"
proof -
  have kinds: "ev_kind sample_event = EvPromptSubmit" "ev_session_id sample_event = ''s''"
    "ev_kind sample_notice = EvPromptSubmit" "ev_session_id sample_notice = ''s''" "genuine_prompt sample_event"
    by (simp_all add: sample_event_def sample_notice_def genuine_prompt_def)
  have own: "own_completion sample_world sample_notice 9 (clear_pending_close ''s'' (touch_busy 9 sample_running))"
    by (simp add: own_completion_def sample_notice_def sample_event_def ingest_transcript_def sample_running_def
        apply_ops_def record_spawn_def insert_or_ignore_def is_fork_spawn_def select_count_def spawn_ids_match_def
        upsert_session_def set_pause_started_at_if_unset_def empty_store_def)
  show ?thesis
    using prompt_submit_pause [of sample_event sample_running 0 "Some 2" _ sample_world "\<lambda>_. 9", OF kinds(1) _ refl]
      prompt_submit_pause [of sample_notice sample_running 0 "Some 2" _ sample_world "\<lambda>_. 9", OF kinds(3) _ refl]
      kinds own sample_running_pause
    by simp
qed

text \<open>C29. Idle time is measured from the first Stop of a pause: a Stop sets the baseline when the pause
  has none and keeps it otherwise, and leaves the epoch alone; a session's first Stop opens pause 0.\<close>

theorem stop_wait_baseline:
  "pause_of (ev_session_id ev) (the_store (fst (stop_wait_begin w ev k clk d))) =
     Some (case pause_of (ev_session_id ev) (the_store d) of
             Some (e, b) \<Rightarrow> (e, Some (case b of Some x \<Rightarrow> x | None \<Rightarrow> clk 1))
           | None \<Rightarrow> (0, Some (clk 1)))"
proof -
  let ?sid = "ev_session_id ev" and ?d1 = "stop_recorded ev clk d"
  have recorded: "pause_of ?sid (the_store ?d1) =
      Some (case pause_of ?sid (the_store d) of
             Some (e, b) \<Rightarrow> (e, Some (case b of Some x \<Rightarrow> x | None \<Rightarrow> clk 1))
           | None \<Rightarrow> (0, Some (clk 1)))"
    by (simp add: stop_recorded_def pause_of_started pause_of_row_ops upsert_event_def pause_of_upsert Let_def
        split: option.split)
  have "sessions (the_store (fst (stop_wait_begin w ev k clk d))) =
      sessions (the_store (fst (ingest_transcript w ev (clk 2) ?d1)))"
    unfolding stop_wait_begin_eq Let_def case_prod_unfold
    by (auto simp: case_prod_unfold stop_registered_store stop_ingested_def split: option.split bool.split)
  then have "pause_of ?sid (the_store (fst (stop_wait_begin w ev k clk d))) = pause_of ?sid (the_store ?d1)"
    using pause_of_sessions pause_of_ingest by metis
  with recorded show ?thesis by simp
qed

lemma elapsed_idle:
  "IdleMoment dl \<in> set (elapsed_moments toks mx b ds now) \<longleftrightarrow>
     dl \<in> set ds \<and> i64_add b (u64_as_i64 dl) \<le> now"
  by (auto simp: elapsed_moments_def split: option.split)

text \<open>The sum wraps once it leaves the range.\<close>

lemma i64_add_deadline:
  assumes "0 \<le> b" and "b < 2 ^ 63"
  shows "i64_add b (u64_as_i64 dl) =
    (if b + int (unat dl) < 2 ^ 63 then b + int (unat dl) else b + int (unat dl) - 2 ^ 64)"
proof -
  let ?x = "b + int (unat dl)"
  have "word_of_int (b + sint dl) = (word_of_int ?x :: u64)"
    by (simp add: uint_nat [symmetric])
  then have x: "i64_add b (u64_as_i64 dl) = sint (word_of_int ?x :: u64)"
    by (simp add: i64_add_def u64_as_i64_def)
  have "int (unat dl) < 2 ^ 64" using uint_lt2p [of dl] by simp
  then have bounds: "0 \<le> ?x" "?x < 2 ^ 63 + 2 ^ 64" using assms by simp_all
  show ?thesis
  proof (cases "?x < 2 ^ 63")
    case True
    with bounds show ?thesis using sint_of_i64 [of ?x] by (simp add: x is_i64_def)
  next
    case False
    have "(word_of_int (?x - 2 ^ 64) :: u64) = word_of_int ?x" by simp
    moreover have "sint (word_of_int (?x - 2 ^ 64) :: u64) = ?x - 2 ^ 64"
      using False bounds by (intro sint_of_i64) (simp add: is_i64_def)
    ultimately have "sint (word_of_int ?x :: u64) = ?x - 2 ^ 64" by (simp only:)
    with False show ?thesis unfolding x by (simp only: if_False)
  qed
qed

text \<open>C30. When a deadline counts as elapsed, for every deadline and every baseline that is not in the
  future: exactly when its time from the baseline has passed, or when the end of that time is no
  representable time (\<open>2 ^ 63\<close> seconds or more since 1970), because the sum then wraps around to a negative
  number.\<close>

theorem deadline_elapsed:
  assumes "0 \<le> b" and "b \<le> now" and "now < 2 ^ 63" and "dl \<in> set ds"
  shows "IdleMoment dl \<in> set (elapsed_moments toks mx b ds now) \<longleftrightarrow>
    b + int (unat dl) \<le> now \<or> 2 ^ 63 \<le> b + int (unat dl)"
proof -
  have "int (unat dl) < 2 ^ 64" using uint_lt2p [of dl] by simp
  then show ?thesis using assms i64_add_deadline [of b dl] by (auto simp: elapsed_idle)
qed

theorem deadline_elapsed_witness:
  "IdleMoment 600 \<in> set (elapsed_moments None 0 1000 [600] 1600)
   \<and> IdleMoment 600 \<notin> set (elapsed_moments None 0 1000 [600] 1599)
   \<and> IdleMoment (2 ^ 63 - 1) \<in> set (elapsed_moments None 0 1000 [2 ^ 63 - 1] 1000)"
  using deadline_elapsed [of 1000 1600 600 "[600]" None 0] deadline_elapsed [of 1000 1599 600 "[600]" None 0]
    deadline_elapsed [of 1000 1000 "2 ^ 63 - 1" "[2 ^ 63 - 1]" None 0]
  by simp

section \<open>Timers of a poll\<close>

text \<open>How many timers a suspended poll may still see.\<close>

fun phase_rank :: "poll_phase \<Rightarrow> nat" where
  "phase_rank (Deadlines ds) = Suc (length ds)"
| "phase_rank Debounce = 1"
| "phase_rank ParkedForever = 0"

text \<open>A timer fires for a suspended poll, in any surroundings, and the poll suspends again.\<close>

definition timer_to :: "poll \<Rightarrow> poll \<Rightarrow> bool" where
  "timer_to p q \<longleftrightarrow> poll_phase p \<noteq> ParkedForever
     \<and> (\<exists>w clk d d'. poll_timer w p clk d = (d', Suspend q))"

lemma issue_rank: "issue w p clk d = (d', Suspend q) \<Longrightarrow> phase_rank (poll_phase q) = 0"
  by (auto simp: issue_def Let_def split: prod.splits option.splits)

lemma debounce_rank: "debounce w p clk d = (d', Suspend q) \<Longrightarrow> phase_rank (poll_phase q) \<le> 1"
  by (auto simp: debounce_def issue_rank split: if_splits)

lemma await_rank: "phase_rank (poll_phase (await p ds)) = (if ds = [] then 0 else Suc (length ds))"
  by (simp add: await_def)

lemma timer_rank:
  assumes "timer_to p q" and "poll_phase p \<noteq> Deadlines []"
  shows "phase_rank (poll_phase q) < phase_rank (poll_phase p) \<and> poll_phase q \<noteq> Deadlines []"
proof -
  from assms(1) obtain w clk d d' where t: "poll_timer w p clk d = (d', Suspend q)"
    and "poll_phase p \<noteq> ParkedForever"
    by (auto simp: timer_to_def)
  show ?thesis
  proof (cases "poll_phase p")
    case (Deadlines ds)
    with assms(2) obtain dl rest where ds: "ds = dl # rest" by (cases ds) auto
    obtain d1 b where due: "due_now w p clk d = (d1, b)" by (rule prod.exhaust)
    with t Deadlines have q: "if b then debounce w p (\<lambda>i. clk (3 + i)) d1 = (d', Suspend q) else q = await p rest"
      by (auto simp: ds split: bool.splits)
    show ?thesis
    proof (cases b)
      case True
      with q have deb: "debounce w p (\<lambda>i. clk (3 + i)) d1 = (d', Suspend q)" by simp
      then have "phase_rank (poll_phase q) \<le> 1" by (rule debounce_rank)
      moreover have "poll_phase q \<noteq> Deadlines []"
        using deb by (auto simp: debounce_def issue_def Let_def split: if_splits prod.splits option.splits)
      ultimately show ?thesis by (simp add: Deadlines ds)
    next
      case False
      with q show ?thesis by (simp add: Deadlines ds await_def)
    qed
  next
    case Debounce
    with t have "issue w p clk d = (d', Suspend q)" by simp
    then show ?thesis using issue_rank by (force simp: Debounce)
  qed (use \<open>poll_phase p \<noteq> ParkedForever\<close> in simp)
qed

lemma timer_chain:
  "(timer_to ^^ n) p q \<Longrightarrow> poll_phase p \<noteq> Deadlines [] \<Longrightarrow>
   n + phase_rank (poll_phase q) \<le> phase_rank (poll_phase p)"
proof (induction n arbitrary: p)
  case (Suc n)
  from Suc.prems(1) obtain r where r: "timer_to p r" "(timer_to ^^ n) r q" by (rule relpowp_Suc_E2)
  with Suc.prems(2) timer_rank [OF r(1)] Suc.IH [OF r(2)] show ?case by simp
qed simp

lemma begin_phase:
  assumes "stop_wait_begin w ev k clk d = (d', Suspend p)"
  shows "poll_phase p \<noteq> Deadlines [] \<and> phase_rank (poll_phase p) \<le> length (poll_deadlines p) + 1"
  using assms
  by (auto simp: stop_wait_begin_def case_prod_unfold debounce_def issue_def await_def fresh_poll_def Let_def
      split: bool.splits option.splits if_splits)

text \<open>C19. A poll sees at most one timer per idle deadline of the session's forks and one for the debounce
  window: each timer that does not answer it leaves a smaller rank, and at rank 0 it waits only for its
  cancellation.\<close>

theorem poll_timers_bounded:
  assumes "stop_wait_begin w ev k clk d = (d', Suspend p)" and "(timer_to ^^ n) p q"
  shows "n + phase_rank (poll_phase q) \<le> length (poll_deadlines p) + 1"
  using timer_chain [OF assms(2)] begin_phase [OF assms(1)] by simp

definition sample_stop :: event where
  "sample_stop = sample_event\<lparr>ev_kind := EvStop\<rparr>"

lemma sample_stop_suspends:
  obtains d p where "stop_wait_begin sample_world sample_stop 0 (\<lambda>_. 9) sample_daemon = (d, Suspend p)"
    and "session_id (poll_session p) = ''s''"
proof -
  have "case snd (stop_wait_begin sample_world sample_stop 0 (\<lambda>_. 9) sample_daemon) of
      Suspend p \<Rightarrow> True | Answer r \<Rightarrow> False"
    by code_simp
  then obtain p where p: "snd (stop_wait_begin sample_world sample_stop 0 (\<lambda>_. 9) sample_daemon) = Suspend p"
    by (auto split: poll_result.splits)
  from begin_session [OF p] have "session_id (poll_session p) = ''s''" by (simp add: sample_stop_def sample_event_def)
  with p show thesis using that prod.collapse by metis
qed

text \<open>Its only deadline passes unnoticed by the fork, which then waits for its cancellation.\<close>

theorem poll_timers_bounded_witness:
  "\<exists>p q. timer_to p q \<and> poll_phase q = ParkedForever \<and> 1 + phase_rank (poll_phase q) \<le> length (poll_deadlines p) + 1"
proof -
  let ?r = "stop_wait_begin sample_world sample_stop 0 (\<lambda>_. 9) sample_daemon"
  have "case snd ?r of Answer r \<Rightarrow> False | Suspend p \<Rightarrow>
      poll_phase p \<noteq> ParkedForever \<and>
      (case snd (poll_timer sample_world p (\<lambda>_. 10) sample_daemon) of
         Answer r \<Rightarrow> False | Suspend q \<Rightarrow> poll_phase q = ParkedForever)"
    by code_simp
  then obtain p q where p: "snd ?r = Suspend p" "poll_phase p \<noteq> ParkedForever"
    and q: "snd (poll_timer sample_world p (\<lambda>_. 10) sample_daemon) = Suspend q" "poll_phase q = ParkedForever"
    by (auto split: poll_result.splits simp del: poll_timer.simps)
  have started: "?r = (fst ?r, Suspend p)" using p(1) by (metis prod.collapse)
  have step: "timer_to p q" using p(2) q(1) unfolding timer_to_def by (metis prod.collapse)
  then have "(timer_to ^^ 1) p q" by (simp add: relpowp_1 eq_OO)
  from poll_timers_bounded [OF started this] have "1 + phase_rank (poll_phase q) \<le> length (poll_deadlines p) + 1" .
  with step q(2) show ?thesis by blast
qed

end
