(* ===== verification/Server.thy ===== *)
theory Server
  imports Daemon
begin

text \<open>
  The socket server, \<open>crates/autofork-daemon/src/server.rs\<close>, and the session reaper of
  \<open>sweep.rs\<close>: what one request line leads to, the requests that are answered at once, the
  staleness heuristic with \<open>status\<close> and \<open>prune\<close>, and one pass of the reaper. Sockets and tasks are
  not modelled; the deserialiser of a request line is a parameter.
\<close>

section \<open>One request line\<close>

text \<open>What the connection loop does with a line: nothing, answer at once, park a poll, or dispatch.\<close>

datatype line_action =
    SkipLine
  | AnswerLine response
  | ParkPoll u64 event
  | DispatchBody u64 request_body

definition respond :: "u64 \<Rightarrow> response_body \<Rightarrow> response" where
  "respond ident rb = \<lparr>resp_proto = PROTO_VERSION, resp_id = ident, resp_body = rb\<rparr>"

fun is_shutdown :: "request_body \<Rightarrow> bool" where
  "is_shutdown (Shutdown drain) = True"
| "is_shutdown _ = False"

definition on_line :: "(string \<Rightarrow> string + request) \<Rightarrow> string \<Rightarrow> line_action" where
  "on_line from_json line =
     (if trim line = [] then SkipLine
      else (case from_json line of
              Inl e \<Rightarrow> AnswerLine (respond 0 (RespError BadRequest (''bad request: '' @ e)))
            | Inr req \<Rightarrow>
                if req_proto req \<noteq> PROTO_VERSION \<and> \<not> is_shutdown (req_body req)
                then AnswerLine (respond (req_id req) (RespError ProtoMismatch
                       (''daemon speaks proto '' @ show_nat (unat PROTO_VERSION) @ '', client sent '' @
                        show_nat (unat (req_proto req)))))
                else (case req_body req of
                        StopWait ev \<Rightarrow> ParkPoll (req_id req) ev
                      | rb \<Rightarrow> DispatchBody (req_id req) rb)))"

section \<open>Status and staleness\<close>

definition is_stale :: "world \<Rightarrow> daemon \<Rightarrow> session_row \<Rightarrow> i64 \<Rightarrow> bool" where
  "is_stale w d s t =
     (let deadline = default_idle_deadline_secs (cfg_for w d (Some (project_root s)))
      in \<not> is_parked (session_id s) d \<and> 0 < deadline
         \<and> sint (2 * deadline) < i64_sub t (last_activity s))"

definition session_entry :: "bool \<Rightarrow> string \<Rightarrow> session_row \<Rightarrow> session_info" where
  "session_entry stale stat s = \<lparr>si_session_id = session_id s, si_project_root = project_root s,
     si_status = stat, si_last_activity = last_activity s, si_prompt_tokens = session_tokens s,
     si_stale = stale\<rparr>"

definition status_report :: "world \<Rightarrow> string \<Rightarrow> 32 word \<Rightarrow> i64 \<Rightarrow> daemon \<Rightarrow> status_info" where
  "status_report w version pid t d =
     \<lparr>st_version = version, st_daemon_proto = PROTO_VERSION, st_pid = pid,
      st_sessions = map (\<lambda>s. session_entry (is_stale w d s t) (status_as_str (session_status s)) s)
                      (list_open_sessions (the_store d)),
      st_recent_runs = map (\<lambda>r. \<lparr>ri_fork = run_fork_name r, ri_trigger = run_trigger_label r,
                                 ri_session_id = run_session_id r, ri_state = run_state r,
                                 ri_started_at = run_started_at r\<rparr>)
                         (list_runs [''issued''] 20 (the_store d))\<rparr>"

text \<open>The loop closes each stale session of the list it read first.\<close>

definition prune :: "world \<Rightarrow> i64 \<Rightarrow> daemon \<Rightarrow> daemon \<times> session_info list" where
  "prune w t d =
     fold (\<lambda>s (d, out).
             if \<not> is_stale w d s t then (d, out)
             else (with_store (close_session (session_id s)) d, out @ [session_entry True ''closed'' s]))
       (list_open_sessions (the_store d)) (d, [])"

section \<open>Dispatch\<close>

definition list_forks :: "world \<Rightarrow> daemon \<Rightarrow> path \<Rightarrow> fork_info list" where
  "list_forks w d dir =
     (case discover_forks (w_from_yaml w) (w_fs w) dir (Some (user_forks_root d)) of
        (entries, ws) \<Rightarrow>
          map (\<lambda>e. let fd = def (entry_parsed e)
                   in \<lparr>fi_name = entry_name e, fi_path = entry_path e, fi_description = description fd,
                       fi_triggers = map label (run_on fd), fi_throttle_secs = throttle_secs fd,
                       fi_after = after fd, fi_overlap = overlap fd, fi_tags = tags fd,
                       fi_warnings = warnings (entry_parsed e) @ ws\<rparr>)
            entries)"

text \<open>The requests answered at once; the flag says that the daemon begins to shut down. \<open>StopWait\<close> is
  parked before it gets here.\<close>

definition dispatch ::
  "world \<Rightarrow> string \<Rightarrow> 32 word \<Rightarrow> request_body \<Rightarrow> (nat \<Rightarrow> i64) \<Rightarrow> daemon \<Rightarrow> (daemon \<times> response_body \<times> bool) option" where
  "dispatch w version pid rb clk d =
     (let d = touch_busy (clk 0) d
      in (case rb of
            Hello v \<Rightarrow> Some (d, RespHelloInfo version, False)
          | EventReq ev \<Rightarrow> (case handle_event w ev (\<lambda>i. clk (1 + i)) d of (d, r) \<Rightarrow> Some (d, r, False))
          | StopWait ev \<Rightarrow> None
          | Status \<Rightarrow> Some (d, RespStatusInfo (status_report w version pid (clk 1) d), False)
          | ListForks root dir \<Rightarrow> Some (d, RespForkList (list_forks w d dir), False)
          | Prune \<Rightarrow> (case prune w (clk 1) d of (d, closed) \<Rightarrow> Some (d, RespPruned closed, False))
          | Shutdown drain \<Rightarrow> Some (d, RespAck, True)))"

section \<open>The reaper\<close>

definition timed_out :: "world \<Rightarrow> i64 \<Rightarrow> daemon \<Rightarrow> session_row \<Rightarrow> bool" where
  "timed_out w t d s =
     (let timeout = session_timeout_secs (cfg_for w d (Some (project_root s)));
          idle = i64_as_u64 (max (i64_sub t (last_activity s)) 0)
      in 0 < timeout \<and> timeout \<le> idle)"

text \<open>The two halves of a pass: the sessions to close, and closing them one by one.\<close>

definition reap_list :: "world \<Rightarrow> i64 \<Rightarrow> daemon \<Rightarrow> string list" where
  "reap_list w t d = map session_id (filter (timed_out w t d) (list_open_sessions (the_store d)))"

definition reap :: "string list \<Rightarrow> daemon \<Rightarrow> daemon" where
  "reap sids d = fold (\<lambda>sid. with_store (close_session sid)) sids d"

section \<open>Connections\<close>

definition conn_open :: "i64 \<Rightarrow> daemon \<Rightarrow> daemon" where
  "conn_open t d = touch_busy t (d\<lparr>connections := connections d + 1\<rparr>)"

definition conn_closed :: "i64 \<Rightarrow> daemon \<Rightarrow> daemon" where
  "conn_closed t d = touch_busy t (d\<lparr>connections := connections d - 1\<rparr>)"

section \<open>Closing sessions\<close>

lemma close_many:
  "the_store (reap sids d) = apply_ops (map CloseSession sids) (the_store d)"
  by (induction sids arbitrary: d) (simp_all add: reap_def apply_ops_def)

lemma get_close_other: "sid' \<noteq> sid \<Longrightarrow> get_session sid' (close_session sid st) = get_session sid' st"
  using session_rows_frame [of "CloseSession sid" sid' st] by (simp add: reads_of_rows(1))

lemma closed_stays:
  "list_all (\<lambda>r. s_session_id r = sid \<longrightarrow> s_status r = Closed) (sessions st) \<Longrightarrow>
   list_all (\<lambda>r. s_session_id r = sid \<longrightarrow> s_status r = Closed) (sessions (close_session sid' st))"
  by (simp add: close_session_def update_session_def update_where_def Let_def list_all_iff ball_Un)

lemma closed_after_ops:
  "sid \<in> set sids \<Longrightarrow>
   list_all (\<lambda>r. s_session_id r = sid \<longrightarrow> s_status r = Closed) (sessions (apply_ops (map CloseSession sids) st))"
proof (induction sids arbitrary: st)
  case (Cons x sids)
  have keep: "list_all (\<lambda>r. s_session_id r = sid \<longrightarrow> s_status r = Closed) (sessions st) \<Longrightarrow>
      list_all (\<lambda>r. s_session_id r = sid \<longrightarrow> s_status r = Closed) (sessions (apply_ops (map CloseSession xs) st))"
    for xs st
    by (induction xs arbitrary: st) (simp_all add: apply_ops_def closed_stays)
  show ?case
  proof (cases "x = sid")
    case True
    then show ?thesis using keep [OF closed_rows [of sid st]] by (simp add: apply_ops_def)
  next
    case False
    with Cons show ?thesis by (simp add: apply_ops_def)
  qed
qed simp

lemma open_after_closes:
  "set (list_open_sessions (apply_ops (map CloseSession sids) st)) =
   {s \<in> set (list_open_sessions st). session_id s \<notin> set sids}"
proof -
  have "{r \<in> set (sessions (apply_ops (map CloseSession sids) st)). s_status r = Open} =
      {r \<in> set (sessions st). s_status r = Open \<and> s_session_id r \<notin> set sids}"
    by (induction sids arbitrary: st)
      (auto simp: apply_ops_def close_session_def update_session_def update_where_def Let_def)
  then show ?thesis
    unfolding set_list_open_sessions by auto
qed

lemma open_ids_unique:
  assumes "store_ok st" and "s \<in> set (list_open_sessions st)" and "s' \<in> set (list_open_sessions st)"
    and "session_id s = session_id s'"
  shows "s = s'"
proof -
  from assms obtain r r' where "r \<in> set (sessions st)" "r' \<in> set (sessions st)"
    "s = row_to_session r" "s' = row_to_session r'"
    by (auto simp: set_list_open_sessions)
  moreover have "unique_key s_session_id (sessions st)" using assms(1) by (simp add: store_ok_def)
  ultimately show ?thesis
    using assms(4) unique_key_same [of s_session_id "sessions st" r r'] by simp
qed

lemma is_stale_with_store [simp]: "is_stale w (with_store f d) s t = is_stale w d s t"
  by (simp add: is_stale_def is_parked_def cfg_for_def Let_def)

lemma prune_eq:
  "prune w t d =
     (let stale = filter (\<lambda>s. is_stale w d s t) (list_open_sessions (the_store d))
      in (reap (map session_id stale) d, map (session_entry True ''closed'') stale))"
proof -
  have "fold (\<lambda>s (d, out). if \<not> is_stale w d s t then (d, out)
          else (with_store (close_session (session_id s)) d, out @ [session_entry True ''closed'' s])) ss (d, out) =
      (reap (map session_id (filter (\<lambda>s. is_stale w d s t) ss)) d,
       out @ map (session_entry True ''closed'') (filter (\<lambda>s. is_stale w d s t) ss))" for ss d out
    by (induction ss arbitrary: d out) (simp_all add: reap_def)
  then show ?thesis by (simp add: prune_def Let_def)
qed

lemma close_exactly:
  assumes "store_ok (the_store d)"
  shows "set (list_open_sessions (the_store
      (reap (map session_id (filter P (list_open_sessions (the_store d)))) d))) =
    {s \<in> set (list_open_sessions (the_store d)). \<not> P s}"
proof -
  have "session_id s \<notin> session_id ` {x \<in> set (list_open_sessions (the_store d)). P x} \<longleftrightarrow> \<not> P s"
    if "s \<in> set (list_open_sessions (the_store d))" for s
    using that open_ids_unique [OF assms that] by (auto simp: image_iff)
  then show ?thesis
    unfolding close_many open_after_closes by auto
qed

text \<open>C31. \<open>prune\<close> and the reaper close exactly the sessions they are meant to: of the open sessions,
  the stale ones and those idle past the timeout, respectively, are closed, and all others stay open
  as they were; \<open>prune\<close> reports the ones it closed.\<close>

theorem closing_exact:
  assumes "store_ok (the_store d)"
  shows "set (list_open_sessions (the_store (fst (prune w t d)))) =
      {s \<in> set (list_open_sessions (the_store d)). \<not> is_stale w d s t}
    \<and> map si_session_id (snd (prune w t d)) =
      map session_id (filter (\<lambda>s. is_stale w d s t) (list_open_sessions (the_store d)))
    \<and> set (list_open_sessions (the_store (reap (reap_list w t d) d))) =
      {s \<in> set (list_open_sessions (the_store d)). \<not> timed_out w t d s}"
  using close_exactly [OF assms]
  by (simp add: prune_eq Let_def reap_list_def session_entry_def)

theorem closing_exact_witness:
  "list_open_sessions (the_store (reap (reap_list sample_world 50000 sample_running) sample_running)) = []
   \<and> map session_id (list_open_sessions (the_store sample_running)) = [''s'']"
proof -
  have ok: "store_ok (the_store sample_running)"
    using store_ok_ops [OF store_ok_empty] by (simp add: sample_running_def)
  have "list_all (\<lambda>s. timed_out sample_world 50000 sample_running s) (list_open_sessions (the_store sample_running))"
    and ids: "map session_id (list_open_sessions (the_store sample_running)) = [''s'']"
    by code_simp+
  with closing_exact [OF ok, of sample_world 50000] have
    "set (list_open_sessions (the_store (reap (reap_list sample_world 50000 sample_running) sample_running))) = {}"
    by (auto simp: list_all_iff)
  with ids show ?thesis by simp
qed

text \<open>Every protocol but the daemon's own is refused, except to shut it down: a request line of a
  foreign protocol is answered with a mismatch error and reaches no handler, whatever its body, while
  a shutdown frame is dispatched under any protocol number; a line that does not parse is answered
  with an error, too.\<close>

theorem proto_gate:
  assumes "trim line \<noteq> []"
  shows "(\<forall>e. from_json line = Inl e \<longrightarrow>
            on_line from_json line = AnswerLine (respond 0 (RespError BadRequest (''bad request: '' @ e))))
    \<and> (\<forall>req. from_json line = Inr req \<longrightarrow>
         (req_proto req \<noteq> PROTO_VERSION \<and> \<not> is_shutdown (req_body req) \<longleftrightarrow>
            (\<exists>m. on_line from_json line = AnswerLine (respond (req_id req) (RespError ProtoMismatch m))))
       \<and> (is_shutdown (req_body req) \<longrightarrow> on_line from_json line = DispatchBody (req_id req) (req_body req)))"
  using assms by (auto simp: on_line_def split: request_body.splits elim: is_shutdown.elims)

theorem proto_gate_witness:
  "on_line (\<lambda>_. Inr \<lparr>req_proto = 7, req_id = 3, req_body = Shutdown True\<rparr>) ''x'' = DispatchBody 3 (Shutdown True)"
  using proto_gate [of "''x''" "\<lambda>_. Inr \<lparr>req_proto = 7, req_id = 3, req_body = Shutdown True\<rparr>"]
  by (simp add: trim_graphic ascii_graphic_def)

end
