(* ===== verification/Polls.thy ===== *)
theory Polls
  imports Server
begin

text \<open>
  The daemon as a transition system: the handlers of \<open>daemon.rs\<close>, \<open>server.rs\<close> and \<open>sweep.rs\<close>
  interleave at their suspension points. A state has the daemon, the polls that are suspended in
  \<open>handle_stop_wait\<close>, and the grace-close tasks that sleep. A step runs one handler from one
  suspension point to the next; a suspended poll may see its timer, its cancellation, a shutdown or
  the loss of its connection, in any order. Files, environment and clock may differ from step to
  step. The label of a step is the set of sessions it closes.
\<close>

section \<open>The transition system\<close>

record sys =
  sys_daemon :: daemon
  sys_polls :: "nat \<Rightarrow> poll option"
  next_poll :: nat
  graces :: "(string \<times> u64) set"

abbreviation poll_sid :: "poll \<Rightarrow> string" where
  "poll_sid p \<equiv> session_id (poll_session p)"

text \<open>A poll that ends: its future is dropped, and the park guard with it.\<close>

definition end_poll :: "nat \<Rightarrow> string \<Rightarrow> daemon \<Rightarrow> sys \<Rightarrow> sys" where
  "end_poll k sid d s = s\<lparr>sys_daemon := park_drop sid d, sys_polls := (sys_polls s)(k := None)\<rparr>"

inductive sys_step :: "sys \<Rightarrow> string set \<Rightarrow> sys \<Rightarrow> bool" where
  fast_event:
    "sys_step s (if ev_kind ev = EvSessionEnd then {ev_session_id ev} else {})
       (s\<lparr>sys_daemon := fst (handle_event w ev clk (sys_daemon s))\<rparr>)"
| stop_answered:
    "stop_wait_begin w ev (next_poll s) clk (sys_daemon s) = (d, Answer r) \<Longrightarrow>
     sys_step s {} ((end_poll (next_poll s) (ev_session_id ev) d s)\<lparr>next_poll := next_poll s + 1\<rparr>)"
| stop_suspended:
    "stop_wait_begin w ev (next_poll s) clk (sys_daemon s) = (d, Suspend p) \<Longrightarrow>
     sys_step s {} (s\<lparr>sys_daemon := d, sys_polls := (sys_polls s)(next_poll s \<mapsto> p),
                      next_poll := next_poll s + 1\<rparr>)"
| timer_answered:
    "sys_polls s k = Some p \<Longrightarrow> poll_phase p \<noteq> ParkedForever \<Longrightarrow>
     poll_timer w p clk (sys_daemon s) = (d, Answer r) \<Longrightarrow>
     sys_step s {} (end_poll k (poll_sid p) d s)"
| timer_suspended:
    "sys_polls s k = Some p \<Longrightarrow> poll_phase p \<noteq> ParkedForever \<Longrightarrow>
     poll_timer w p clk (sys_daemon s) = (d, Suspend q) \<Longrightarrow>
     sys_step s {} (s\<lparr>sys_daemon := d, sys_polls := (sys_polls s)(k \<mapsto> q)\<rparr>)"
| poll_cancelled:
    "sys_polls s k = Some p \<Longrightarrow> k \<in> cancelled (sys_daemon s) \<Longrightarrow>
     sys_step s {} (end_poll k (poll_sid p) (sys_daemon s) s)"
| poll_shutdown:
    "sys_polls s k = Some p \<Longrightarrow> sys_step s {} (end_poll k (poll_sid p) (sys_daemon s) s)"
| poll_lost:
    "sys_polls s k = Some p \<Longrightarrow> on_poll_lost (poll_sid p) (sys_daemon s) = (d, gen) \<Longrightarrow>
     sys_step s {} ((end_poll k (poll_sid p) d s)\<lparr>graces := insert (poll_sid p, gen) (graces s)\<rparr>)"
| grace_over:
    "(sid, gen) \<in> graces s \<Longrightarrow>
     sys_step s {sid} (s\<lparr>sys_daemon := grace_close sid gen (sys_daemon s), graces := graces s - {(sid, gen)}\<rparr>)"
| reaped:
    "sids = reap_list w t (sys_daemon s) \<Longrightarrow>
     sys_step s (set sids) (s\<lparr>sys_daemon := reap sids (sys_daemon s)\<rparr>)"
| pruned:
    "sys_step s (set (map session_id (filter (\<lambda>x. is_stale w (sys_daemon s) x t)
                        (list_open_sessions (the_store (sys_daemon s))))))
       (s\<lparr>sys_daemon := fst (prune w t (sys_daemon s))\<rparr>)"
| connection:
    "sys_step s {} (s\<lparr>sys_daemon := (if opened then conn_open t (sys_daemon s) else conn_closed t (sys_daemon s))\<rparr>)"
| touched:
    "sys_step s {} (s\<lparr>sys_daemon := touch_busy t (sys_daemon s)\<rparr>)"

text \<open>Runs, with the sessions closed on the way.\<close>

inductive sys_run :: "sys \<Rightarrow> string set \<Rightarrow> sys \<Rightarrow> bool" where
  run_refl: "sys_run s {} s"
| run_step: "sys_run s C s' \<Longrightarrow> sys_step s' D s'' \<Longrightarrow> sys_run s (C \<union> D) s''"

text \<open>A daemon that has just started on the store it opened, perhaps that of an earlier one.\<close>

definition initial_sys :: "paths \<Rightarrow> store \<Rightarrow> i64 \<Rightarrow> sys" where
  "initial_sys ps st t = \<lparr>sys_daemon = new_daemon ps st t, sys_polls = Map.empty, next_poll = 0, graces = {}\<rparr>"

section \<open>The store along a run\<close>

text \<open>A step changes the store by operations, and closes only the sessions of its label.\<close>

definition store_moves :: "string set \<Rightarrow> store \<Rightarrow> store \<Rightarrow> bool" where
  "store_moves C st st' \<longleftrightarrow>
     (\<exists>ops. st' = apply_ops ops st \<and> list_all (\<lambda>op. \<forall>sid. op = CloseSession sid \<longrightarrow> sid \<in> C) ops)"

lemma store_moves_refl [simp]: "store_moves C st st"
  unfolding store_moves_def by (intro exI [of _ "[]"]) (simp add: apply_ops_def)

lemma evolves_moves: "evolves sid st st' \<Longrightarrow> store_moves C st st'"
  unfolding evolves_def store_moves_def
proof (elim exE conjE)
  fix ops
  assume ops: "st' = apply_ops ops st" "list_all (\<lambda>op. op_session op = sid \<and> op \<noteq> CloseSession sid) ops"
  then have "list_all (\<lambda>op. \<forall>x. op = CloseSession x \<longrightarrow> x \<in> C) ops"
    by (fastforce simp: list_all_iff)
  with ops(1) show "\<exists>ops. st' = apply_ops ops st \<and> list_all (\<lambda>op. \<forall>x. op = CloseSession x \<longrightarrow> x \<in> C) ops"
    by blast
qed

lemma store_moves_trans:
  assumes "store_moves C a b" and "store_moves D b c"
  shows "store_moves (C \<union> D) a c"
proof -
  from assms obtain xs ys where "b = apply_ops xs a" "c = apply_ops ys b"
    "list_all (\<lambda>op. \<forall>sid. op = CloseSession sid \<longrightarrow> sid \<in> C) xs"
    "list_all (\<lambda>op. \<forall>sid. op = CloseSession sid \<longrightarrow> sid \<in> D) ys"
    by (auto simp: store_moves_def)
  then show ?thesis
    unfolding store_moves_def by (intro exI [of _ "xs @ ys"]) (auto simp: apply_ops_def list_all_iff)
qed

lemma moves_close: "store_moves {sid} st (close_session sid st)"
  unfolding store_moves_def by (intro exI [of _ "[CloseSession sid]"]) (simp add: apply_ops_def)

lemma moves_reap: "store_moves (set sids) (the_store d) (the_store (reap sids d))"
  unfolding store_moves_def close_many by (intro exI [of _ "map CloseSession sids"]) (auto simp: list_all_iff)

lemma moves_event:
  "store_moves (if ev_kind ev = EvSessionEnd then {ev_session_id ev} else {}) (the_store d)
     (the_store (fst (handle_event w ev clk d)))"
proof (cases "ev_kind ev")
  case EvSessionStart
  then show ?thesis
    using evolves_moves [OF evolves_upsert_event] by (simp add: handle_event_def Let_def)
next
  case EvPromptSubmit
  then show ?thesis
    using evolves_moves [OF evolves_prompt_submit [of ev "clear_pending_close (ev_session_id ev) (touch_busy (clk 0) d)"]]
    by (simp add: handle_event_def Let_def)
next
  case EvStop
  then show ?thesis by (simp add: handle_event_def Let_def)
next
  case EvSessionEnd
  then show ?thesis by (simp add: handle_event_def Let_def moves_close)
qed

lemma moves_grace: "store_moves {sid} (the_store d) (the_store (grace_close sid gen d))"
  using moves_close by (simp add: grace_close_def Let_def split: option.split)

lemma step_moves: "sys_step s C s' \<Longrightarrow> store_moves C (the_store (sys_daemon s)) (the_store (sys_daemon s'))"
proof (induction rule: sys_step.induct)
  case (stop_answered w ev s clk d r)
  then show ?case
    using evolves_moves [OF evolves_begin [of ev "sys_daemon s" w "next_poll s" clk]] by (simp add: end_poll_def)
next
  case (stop_suspended w ev s clk d p)
  then show ?case
    using evolves_moves [OF evolves_begin [of ev "sys_daemon s" w "next_poll s" clk]] by simp
next
  case (timer_answered s k p w clk d r)
  then show ?case
    using evolves_moves [OF evolves_poll_timer [OF refl, of p "sys_daemon s" w clk]] by (simp add: end_poll_def)
next
  case (timer_suspended s k p w clk d q)
  then show ?case
    using evolves_moves [OF evolves_poll_timer [OF refl, of p "sys_daemon s" w clk]] by simp
next
  case (poll_lost s k p d gen)
  then show ?case by (auto simp: on_poll_lost_def end_poll_def Let_def)
next
  case (pruned s w t)
  let ?sids = "map session_id (filter (\<lambda>x. is_stale w (sys_daemon s) x t)
      (list_open_sessions (the_store (sys_daemon s))))"
  have "fst (prune w t (sys_daemon s)) = reap ?sids (sys_daemon s)"
    by (simp add: prune_eq Let_def)
  then show ?case using moves_reap [of ?sids "sys_daemon s"] by (simp del: set_map set_filter)
qed (simp_all add: moves_event end_poll_def moves_grace moves_reap conn_open_def conn_closed_def touch_busy_def)

lemma run_moves: "sys_run s C s' \<Longrightarrow> store_moves C (the_store (sys_daemon s)) (the_store (sys_daemon s'))"
  by (induction rule: sys_run.induct) (auto intro: store_moves_trans step_moves)


lemma moves_latched:
  assumes "store_moves C st st'" and "sid \<notin> C" and "is_latched sid name key st"
  shows "is_latched sid name key st'"
proof -
  from assms(1) obtain ops where "st' = apply_ops ops st"
    "list_all (\<lambda>op. \<forall>x. op = CloseSession x \<longrightarrow> x \<in> C) ops"
    by (auto simp: store_moves_def)
  moreover from this(2) assms(2) have "list_all (\<lambda>op. op \<noteq> CloseSession sid) ops"
    by (auto simp: list_all_iff)
  ultimately show ?thesis
    using latch.keeps_all [of sid ops name key st] assms(3) by (simp add: apply_ops_def)
qed

section \<open>The poll books\<close>

text \<open>\<open>live s sid\<close>: the suspended polls of a session.\<close>

definition live :: "sys \<Rightarrow> string \<Rightarrow> nat set" where
  "live s sid = {k. \<exists>p. sys_polls s k = Some p \<and> poll_sid p = sid}"

definition park_count :: "nat \<Rightarrow> nat option" where
  "park_count n = (if n = 0 then None else Some n)"

text \<open>The invariant: the park count is the number of suspended polls, and a suspended poll that was not
  cancelled is the one registered for its session.\<close>

definition books_ok :: "sys \<Rightarrow> bool" where
  "books_ok s \<longleftrightarrow>
     (\<forall>k. sys_polls s k \<noteq> None \<longrightarrow> k < next_poll s)
   \<and> (\<forall>sid k. waits (sys_daemon s) sid = Some k \<longrightarrow> k < next_poll s)
   \<and> (\<forall>k \<in> cancelled (sys_daemon s). k < next_poll s)
   \<and> (\<forall>sid. parked (sys_daemon s) sid = park_count (card (live s sid)))
   \<and> (\<forall>k p. sys_polls s k = Some p \<and> k \<notin> cancelled (sys_daemon s) \<longrightarrow>
        waits (sys_daemon s) (poll_sid p) = Some k)"

lemma live_finite: "\<forall>k. sys_polls s k \<noteq> None \<longrightarrow> k < next_poll s \<Longrightarrow> finite (live s sid)"
  by (rule finite_subset [of _ "{..<next_poll s}"]) (auto simp: live_def)

text \<open>How a step may change the books, at the level of the four fields.\<close>

lemma live_remove:
  "sys_polls s k = Some p \<Longrightarrow> live (s\<lparr>sys_daemon := d, sys_polls := (sys_polls s)(k := None)\<rparr>) sid =
     (if sid = poll_sid p then live s sid - {k} else live s sid)"
  by (auto simp: live_def split: if_splits)

lemma live_update_same:
  "sys_polls s k = Some p \<Longrightarrow> poll_sid q = poll_sid p \<Longrightarrow>
   live (s\<lparr>sys_daemon := d, sys_polls := (sys_polls s)(k \<mapsto> q)\<rparr>) sid = live s sid"
  by (auto simp: live_def split: if_splits)

lemma live_add:
  "sys_polls s k = None \<Longrightarrow>
   live (s\<lparr>sys_daemon := d, sys_polls := (sys_polls s)(k \<mapsto> q), next_poll := n\<rparr>) sid =
     (if sid = poll_sid q then insert k (live s sid) else live s sid)"
  by (auto simp: live_def split: if_splits)

lemma parked_drop:
  "parked (park_drop sid d) x =
     (if x = sid then Option.bind (parked d sid) (\<lambda>c. park_count (c - 1)) else parked d x)"
  by (simp add: park_drop_def park_count_def split: option.split)

lemma books_park_drop [simp]:
  "waits (park_drop sid d) = waits d" "cancelled (park_drop sid d) = cancelled d"
  by (simp_all add: park_drop_def split: option.split)

lemma bind_park_count:
  "Option.bind (park_count n) (\<lambda>c. park_count (c - Suc 0)) = park_count (n - Suc 0)"
  by (simp add: park_count_def)

lemma books_cong:
  "poll_books d = poll_books d' \<Longrightarrow> waits d = waits d'" "poll_books d = poll_books d' \<Longrightarrow> cancelled d = cancelled d'"
  "poll_books d = poll_books d' \<Longrightarrow> parked d = parked d'"
  by (simp_all add: poll_books_def)

text \<open>Removing a suspended poll and dropping its guard keeps the invariant.\<close>

lemma books_end_poll:
  assumes ok: "books_ok s" and p: "sys_polls s k = Some p"
    and d: "waits d = waits (sys_daemon s)" "cancelled d = cancelled (sys_daemon s)" "parked d = parked (sys_daemon s)"
  shows "books_ok (end_poll k (poll_sid p) d s)"
proof -
  have fin: "finite (live s (poll_sid p))" using ok by (intro live_finite) (simp add: books_ok_def)
  have "k \<in> live s (poll_sid p)" using p by (simp add: live_def)
  then have card: "card (live s (poll_sid p) - {k}) = card (live s (poll_sid p)) - 1" by simp
  have "parked (park_drop (poll_sid p) d) sid = park_count (card (live (end_poll k (poll_sid p) d s) sid))" for sid
    using ok card by (simp add: end_poll_def live_remove [OF p] parked_drop d books_ok_def bind_park_count)
  with ok show ?thesis
    by (simp add: books_ok_def end_poll_def d split: if_splits)
qed


text \<open>Events, closings and connections.\<close>

lemma books_daemon:
  assumes "books_ok s" and "parked d = parked (sys_daemon s)"
    and "\<And>sid k. waits d sid = Some k \<Longrightarrow> waits (sys_daemon s) sid = Some k"
    and "\<forall>k \<in> cancelled d. k < next_poll s"
    and "\<And>k p. sys_polls s k = Some p \<Longrightarrow> k \<notin> cancelled d \<Longrightarrow> waits d (poll_sid p) = Some k"
  shows "books_ok (s\<lparr>sys_daemon := d\<rparr>)"
proof -
  have "waits d sid = Some k \<Longrightarrow> k < next_poll s" for sid k
    using assms(1) assms(3) [of sid k] by (auto simp: books_ok_def)
  with assms show ?thesis by (simp add: books_ok_def live_def)
qed

lemma books_same:
  "books_ok s \<Longrightarrow> poll_books d = poll_books (sys_daemon s) \<Longrightarrow> books_ok (s\<lparr>sys_daemon := d\<rparr>)"
  by (rule books_daemon) (auto simp: poll_books_def books_ok_def)

lemma books_pending:
  "books_ok s \<Longrightarrow> waits d = waits (sys_daemon s) \<Longrightarrow> cancelled d = cancelled (sys_daemon s) \<Longrightarrow>
   parked d = parked (sys_daemon s) \<Longrightarrow> books_ok (s\<lparr>sys_daemon := d\<rparr>)"
  by (rule books_daemon) (auto simp: books_ok_def)

lemma books_cancel:
  assumes ok: "books_ok s" and d: "waits d = waits (sys_daemon s)" "cancelled d = cancelled (sys_daemon s)"
    "parked d = parked (sys_daemon s)"
  shows "books_ok (s\<lparr>sys_daemon := cancel_wait sid d\<rparr>)"
proof (rule books_daemon [OF ok])
  show "parked (cancel_wait sid d) = parked (sys_daemon s)"
    using d by (simp add: cancel_wait_def split: option.split)
  show "waits (cancel_wait sid d) x = Some k \<Longrightarrow> waits (sys_daemon s) x = Some k" for x k
    using d by (auto simp: cancel_wait_def split: option.splits if_splits)
  show "\<forall>k \<in> cancelled (cancel_wait sid d). k < next_poll s"
    using ok d by (auto simp: cancel_wait_def books_ok_def split: option.split)
  show "sys_polls s k = Some p \<Longrightarrow> k \<notin> cancelled (cancel_wait sid d) \<Longrightarrow>
      waits (cancel_wait sid d) (poll_sid p) = Some k" for k p
    using ok d by (auto simp: cancel_wait_def books_ok_def split: option.splits)
qed

lemma prompt_submit_books:
  "\<exists>x. prompt_submit w ev t t' d = cancel_wait (ev_session_id ev) x \<and> poll_books x = poll_books d"
  unfolding prompt_submit_def Let_def case_prod_unfold by (rule exI, rule conjI, rule refl) simp

lemma books_event:
  assumes "books_ok s"
  shows "books_ok (s\<lparr>sys_daemon := fst (handle_event w ev clk (sys_daemon s))\<rparr>)"
proof -
  let ?sid = "ev_session_id ev"
  let ?d = "clear_pending_close ?sid (touch_busy (clk 0) (sys_daemon s))"
  have clear: "waits ?d = waits (sys_daemon s)" "cancelled ?d = cancelled (sys_daemon s)"
    "parked ?d = parked (sys_daemon s)"
    by (simp_all add: clear_pending_close_def touch_busy_def)
  show ?thesis
  proof (cases "ev_kind ev")
    case EvPromptSubmit
    obtain x where x: "prompt_submit w ev (clk 1) (clk 2) ?d = cancel_wait ?sid x"
      and "poll_books x = poll_books ?d"
      using prompt_submit_books by blast
    then have "waits x = waits ?d" "cancelled x = cancelled ?d" "parked x = parked ?d"
      by (simp_all only: poll_books_def prod.inject)
    with EvPromptSubmit show ?thesis
      using books_cancel [OF assms, of x ?sid] clear by (simp add: handle_event_def Let_def x del: One_nat_def)
  next
    case EvSessionEnd
    have "books_ok (s\<lparr>sys_daemon := cancel_wait ?sid ?d\<rparr>)" by (rule books_cancel [OF assms clear])
    then have "books_ok ((s\<lparr>sys_daemon := cancel_wait ?sid ?d\<rparr>)
        \<lparr>sys_daemon := with_store (close_session ?sid) (cancel_wait ?sid ?d)\<rparr>)"
      by (rule books_same) simp
    with EvSessionEnd show ?thesis by (simp add: handle_event_def Let_def)
  next
    case EvSessionStart
    then show ?thesis
      using books_pending [OF assms, of "with_store (upsert_event ev (clk 1)) ?d"] clear
      by (simp add: handle_event_def Let_def)
  next
    case EvStop
    then show ?thesis using books_pending [OF assms clear] by (simp add: handle_event_def Let_def)
  qed
qed


lemma waits_register:
  "waits (register_wait sid k d) = (waits d)(sid \<mapsto> k)"
  "cancelled (register_wait sid k d) = cancelled d \<union> {old. waits d sid = Some old}"
  "parked (register_wait sid k d) = parked d"
  by (auto simp: register_wait_def split: option.split)

text \<open>A new poll for session \<open>sid\<close> under the number \<open>k\<close>, seen after \<open>stop_wait_begin\<close>.\<close>

lemma begin_books:
  assumes "stop_wait_begin w ev k clk d0 = (d, r)"
  shows "waits d = (waits d0)(ev_session_id ev \<mapsto> k)"
    and "cancelled d = cancelled d0 \<union> {old. waits d0 (ev_session_id ev) = Some old}"
    and "parked d = (parked d0)(ev_session_id ev \<mapsto>
           (case parked d0 (ev_session_id ev) of Some c \<Rightarrow> c | None \<Rightarrow> 0) + 1)"
proof -
  let ?x = "clear_pending_close (ev_session_id ev) d0"
  have "poll_books d = poll_books (park_new (ev_session_id ev) (register_wait (ev_session_id ev) k ?x))"
    using poll_books_begin [of w ev k clk d0] assms by simp
  moreover have "waits ?x = waits d0" "cancelled ?x = cancelled d0" "parked ?x = parked d0"
    by (simp_all add: clear_pending_close_def)
  ultimately show "waits d = (waits d0)(ev_session_id ev \<mapsto> k)"
    "cancelled d = cancelled d0 \<union> {old. waits d0 (ev_session_id ev) = Some old}"
    "parked d = (parked d0)(ev_session_id ev \<mapsto>
       (case parked d0 (ev_session_id ev) of Some c \<Rightarrow> c | None \<Rightarrow> 0) + 1)"
    by (simp_all add: poll_books_def waits_register park_new_def)
qed

lemma park_count_Suc: "(case park_count n of Some c \<Rightarrow> c | None \<Rightarrow> 0) + 1 = Suc n"
  by (simp add: park_count_def)

lemma books_suspended:
  assumes ok: "books_ok s" and b: "stop_wait_begin w ev (next_poll s) clk (sys_daemon s) = (d, Suspend p)"
  shows "books_ok (s\<lparr>sys_daemon := d, sys_polls := (sys_polls s)(next_poll s \<mapsto> p), next_poll := next_poll s + 1\<rparr>)"
proof -
  let ?s = "s\<lparr>sys_daemon := d, sys_polls := (sys_polls s)(next_poll s \<mapsto> p), next_poll := next_poll s + 1\<rparr>"
  have psid: "poll_sid p = ev_session_id ev" using begin_session [of w ev "next_poll s" clk "sys_daemon s"] b by simp
  have new: "sys_polls s (next_poll s) = None" and small: "\<And>k. sys_polls s k \<noteq> None \<Longrightarrow> k < next_poll s"
    using ok by (auto simp: books_ok_def)
  have fin: "finite (live s sid)" for sid using ok by (intro live_finite) (simp add: books_ok_def)
  have "next_poll s \<notin> live s sid" for sid using new by (simp add: live_def)
  then have "card (live ?s sid) = (if sid = poll_sid p then Suc (card (live s sid)) else card (live s sid))" for sid
    using fin by (simp add: live_add [OF new])
  moreover have "parked (sys_daemon s) sid = park_count (card (live s sid))" for sid
    using ok by (simp add: books_ok_def)
  ultimately have counts: "parked d sid = park_count (card (live ?s sid))" for sid
    using park_count_Suc [of "card (live s sid)"] by (simp add: begin_books [OF b] psid park_count_def)
  have reg: "\<And>k q. sys_polls s k = Some q \<Longrightarrow> k \<notin> cancelled (sys_daemon s) \<Longrightarrow>
      waits (sys_daemon s) (poll_sid q) = Some k"
    using ok by (simp add: books_ok_def)
  have "waits d (poll_sid q) = Some k" if "sys_polls ?s k = Some q" "k \<notin> cancelled d" for k q
  proof (cases "k = next_poll s")
    case True
    with that psid show ?thesis by (simp add: begin_books [OF b])
  next
    case False
    with that have "waits (sys_daemon s) (poll_sid q) = Some k" "waits (sys_daemon s) (ev_session_id ev) \<noteq> Some k"
      by (simp_all add: reg begin_books [OF b])
    then show ?thesis by (auto simp: begin_books [OF b])
  qed
  moreover have "waits d sid = Some k \<Longrightarrow> k < next_poll s + 1" for sid k
    using ok by (auto simp: begin_books [OF b] books_ok_def less_Suc_eq split: if_splits)
  moreover have "\<forall>k \<in> cancelled d. k < next_poll s + 1"
    using ok by (auto simp: begin_books [OF b] books_ok_def less_Suc_eq)
  ultimately show ?thesis
    using counts small by (auto simp: books_ok_def less_Suc_eq)
qed


text \<open>A poll that is answered before it suspends: it was registered and parked, and its guard is dropped.\<close>

lemma books_answered:
  assumes ok: "books_ok s" and b: "stop_wait_begin w ev (next_poll s) clk (sys_daemon s) = (d, Answer r)"
  shows "books_ok ((end_poll (next_poll s) (ev_session_id ev) d s)\<lparr>next_poll := next_poll s + 1\<rparr>)"
proof -
  let ?s = "(end_poll (next_poll s) (ev_session_id ev) d s)\<lparr>next_poll := next_poll s + 1\<rparr>"
  have new: "sys_polls s (next_poll s) = None" and small: "\<And>k. sys_polls s k \<noteq> None \<Longrightarrow> k < next_poll s"
    using ok by (auto simp: books_ok_def)
  have polls: "sys_polls ?s = sys_polls s" using new by (auto simp: end_poll_def)
  then have live: "live ?s sid = live s sid" for sid by (simp add: live_def)
  have reg: "\<And>k q. sys_polls s k = Some q \<Longrightarrow> k \<notin> cancelled (sys_daemon s) \<Longrightarrow>
      waits (sys_daemon s) (poll_sid q) = Some k"
    using ok by (simp add: books_ok_def)
  have counts: "parked (park_drop (ev_session_id ev) d) sid = park_count (card (live ?s sid))" for sid
    using ok unfolding live
    by (simp add: parked_drop begin_books [OF b] books_ok_def bind_park_count) (simp add: park_count_def)
  have "waits d (poll_sid q) = Some k" if "sys_polls s k = Some q" "k \<notin> cancelled d" for k q
    using reg [OF that(1)] that(2) by (auto simp: begin_books [OF b])
  moreover have "waits d sid = Some k \<Longrightarrow> k < next_poll s + 1" for sid k
    using ok by (auto simp: begin_books [OF b] books_ok_def less_Suc_eq split: if_splits)
  moreover have "\<forall>k \<in> cancelled d. k < next_poll s + 1"
    using ok by (auto simp: begin_books [OF b] books_ok_def less_Suc_eq)
  ultimately show ?thesis
    using counts small new unfolding books_ok_def polls
    by (auto simp: end_poll_def less_Suc_eq split: if_splits)
qed

lemma books_timer:
  assumes ok: "books_ok s" and p: "sys_polls s k = Some p"
    and q: "poll_timer w p clk (sys_daemon s) = (d, Suspend q)"
  shows "books_ok (s\<lparr>sys_daemon := d, sys_polls := (sys_polls s)(k \<mapsto> q)\<rparr>)"
proof -
  have "poll_books d = poll_books (sys_daemon s)" using poll_books_timer [of w p clk "sys_daemon s"] q by simp
  then have d: "waits d = waits (sys_daemon s)" "cancelled d = cancelled (sys_daemon s)" "parked d = parked (sys_daemon s)"
    by (rule books_cong)+
  have "poll_sid q = poll_sid p" using poll_timer_session [of w p clk "sys_daemon s" q] q by simp
  with ok p show ?thesis by (simp add: books_ok_def d live_update_same [OF p] split: if_splits)
qed

lemma books_graces: "books_ok (s\<lparr>graces := g\<rparr>) = books_ok s"
  by (simp add: books_ok_def live_def)

lemma books_lost:
  assumes "books_ok s" and "sys_polls s k = Some p" and "on_poll_lost (poll_sid p) (sys_daemon s) = (d, gen)"
  shows "books_ok ((end_poll k (poll_sid p) d s)\<lparr>graces := g\<rparr>)"
  unfolding books_graces
  by (rule books_end_poll [OF assms(1,2)]) (use assms(3) in \<open>auto simp: on_poll_lost_def Let_def\<close>)

lemma poll_books_reap [simp]: "poll_books (reap sids d) = poll_books d"
  by (induction sids arbitrary: d) (simp_all add: reap_def)

lemma books_grace_close: "books_ok s \<Longrightarrow> books_ok (s\<lparr>sys_daemon := grace_close sid gen (sys_daemon s)\<rparr>)"
  by (rule books_pending) (auto simp: grace_close_def Let_def with_store_def split: option.split)

lemma books_step: "sys_step s C s' \<Longrightarrow> books_ok s \<Longrightarrow> books_ok s'"
proof (induction rule: sys_step.induct)
  case (timer_answered s k p w clk d r)
  have "poll_books d = poll_books (sys_daemon s)"
    using poll_books_timer [of w p clk "sys_daemon s"] timer_answered(3) by simp
  then show ?case using books_end_poll [OF timer_answered(4,1)] books_cong by blast
next
  case (grace_over sid gen s)
  then show ?case using books_graces [where s = "s\<lparr>sys_daemon := grace_close sid gen (sys_daemon s)\<rparr>"]
    by (simp add: books_grace_close)
next
  case (connection s opened t)
  then show ?case by (intro books_pending) (simp_all add: conn_open_def conn_closed_def touch_busy_def)
next
  case (touched s t)
  then show ?case by (intro books_same) simp_all
next
  case (pruned s w t)
  then show ?case by (intro books_same) (simp_all add: prune_eq Let_def)
qed (simp_all only: books_event books_answered books_suspended books_timer books_lost books_end_poll
      books_same poll_books_reap)

section \<open>Invariants of the runs\<close>

locale run_invariant =
  fixes I :: "sys \<Rightarrow> bool"
  assumes preserved: "sys_step s C s' \<Longrightarrow> I s \<Longrightarrow> I s'"
begin

lemma along: "sys_run s C s' \<Longrightarrow> I s \<Longrightarrow> I s'"
  by (induction rule: sys_run.induct) (auto intro: preserved)

end

interpretation books: run_invariant books_ok
  by unfold_locales (rule books_step)

interpretation keys: run_invariant "\<lambda>s. store_ok (the_store (sys_daemon s))"
proof unfold_locales
  fix s C s'
  assume "sys_step s C s'" and ok: "store_ok (the_store (sys_daemon s))"
  then have "store_moves C (the_store (sys_daemon s)) (the_store (sys_daemon s'))" by (simp add: step_moves)
  with ok show "store_ok (the_store (sys_daemon s'))"
    by (auto simp: store_moves_def intro: store_ok_ops)
qed

lemma books_initial: "books_ok (initial_sys ps st t)"
  by (simp add: books_ok_def initial_sys_def new_daemon_def live_def park_count_def)

lemma parked_iff_live: "books_ok s \<Longrightarrow> is_parked sid (sys_daemon s) \<longleftrightarrow> live s sid \<noteq> {}"
  by (simp add: is_parked_def books_ok_def park_count_def live_finite)

section \<open>Properties\<close>

text \<open>C8. Whatever the interleaving, the daemon's poll books are right: in every reachable state a session
  counts as parked exactly when a poll of it is suspended, the park count is the number of those polls,
  at most one of them has not been cancelled (the newest, which is the registered one), and the store's
  keys are unique.\<close>

theorem poll_books_reachable:
  assumes "store_ok st" and "sys_run (initial_sys ps st t) C s"
  shows "store_ok (the_store (sys_daemon s))
    \<and> (is_parked sid (sys_daemon s) \<longleftrightarrow> live s sid \<noteq> {})
    \<and> (parked (sys_daemon s) sid = (if live s sid = {} then None else Some (card (live s sid))))
    \<and> live s sid - cancelled (sys_daemon s) \<subseteq> {k. waits (sys_daemon s) sid = Some k}"
proof -
  have ok: "books_ok s" by (rule books.along [OF assms(2) books_initial])
  then have fin: "finite (live s sid)" by (intro live_finite) (simp add: books_ok_def)
  have "store_ok (the_store (sys_daemon s))"
    by (rule keys.along [OF assms(2)]) (simp add: initial_sys_def new_daemon_def assms(1))
  moreover have "parked (sys_daemon s) sid = (if live s sid = {} then None else Some (card (live s sid)))"
    using ok fin by (simp add: books_ok_def park_count_def)
  moreover have "live s sid - cancelled (sys_daemon s) \<subseteq> {k. waits (sys_daemon s) sid = Some k}"
    using ok by (auto simp: books_ok_def live_def)
  ultimately show ?thesis using parked_iff_live [OF ok] by blast
qed

theorem poll_books_reachable_witness:
  "\<exists>s. sys_run (initial_sys \<lparr>base = ''/h''\<rparr> empty_store 0) {} s \<and> live s ''s'' = {0} \<and> is_parked ''s'' (sys_daemon s)"
proof -
  let ?i = "initial_sys \<lparr>base = ''/h''\<rparr> empty_store 0"
  obtain d p where b: "stop_wait_begin sample_world sample_stop 0 (\<lambda>_. 9) sample_daemon = (d, Suspend p)"
    and p: "poll_sid p = ''s''"
    by (rule sample_stop_suspends)
  let ?s = "?i\<lparr>sys_daemon := d, sys_polls := (sys_polls ?i)(next_poll ?i \<mapsto> p), next_poll := next_poll ?i + 1\<rparr>"
  have "sys_step ?i {} ?s"
    by (rule stop_suspended [where w = sample_world and ev = sample_stop and clk = "\<lambda>_. 9"])
      (simp add: initial_sys_def b [unfolded sample_daemon_def])
  then have run: "sys_run ?i {} ?s" using run_step [OF run_refl] by fastforce
  moreover have live: "live ?s ''s'' = {0}" using p by (auto simp: live_def initial_sys_def)
  moreover from poll_books_reachable [OF store_ok_empty run, of "''s''"] live have "is_parked ''s'' (sys_daemon ?s)" by blast
  ultimately show ?thesis by blast
qed

text \<open>C5. A fork fires once per latch along every run of the daemon: once a wake was built for it, no
  later selection picks it for the same latch key, whatever events, polls, timers, losses, prunes and
  reaps come in between, as long as none of them closes the session.\<close>

theorem run_no_refire:
  assumes "the_store (sys_daemon s) = the_store (fst (build_wake x selected t t_note d))"
    and "f \<in> set selected" and "sel_latch_key f = Some key"
    and "sys_run s C s'" and "session_id x \<notin> C"
    and "session_id x' = session_id x"
    and "g \<in> set (snd (select_forks w x' cfg ms tq t' (sys_daemon s')))" and "sel_name g = sel_name f"
  shows "sel_latch_key g \<noteq> Some key"
proof
  assume "sel_latch_key g = Some key"
  with assms(6-8) have free: "\<not> is_latched (session_id x) (sel_name f) key (the_store (sys_daemon s'))"
    using selected_not_latched by metis
  have "is_latched (session_id x) (sel_name f) key (the_store (sys_daemon s))"
    using latched_after_wake [OF assms(2,3)] by (simp add: build_wake_store assms(1))
  with free show False using moves_latched [OF run_moves [OF assms(4)] assms(5)] by blast
qed

text \<open>The fork of the discovery sample was run in pause 0; a prompt is submitted; it is due again, in pause 1.\<close>

definition sample_woken :: sys where
  "sample_woken = (initial_sys \<lparr>base = ''/h''\<rparr> empty_store 0)\<lparr>sys_daemon :=
     fst (build_wake (sample_session 0) [sample_selected 0] 5 5 sample_daemon)\<rparr>"

lemma sample_woken_reselects:
  "snd (select_forks sample_world (sample_session 1) default_config [IdleMoment 600] 9 9
     (fst (handle_event sample_world sample_event (\<lambda>_. 7) (sys_daemon sample_woken)))) = [sample_selected 1]"
  by code_simp

theorem run_no_refire_witness:
  "sel_latch_key (sample_selected 1) \<noteq> Some (''idle-pause:'' @ show_i64 0)"
proof -
  let ?d = "fst (handle_event sample_world sample_event (\<lambda>_. 7) (sys_daemon sample_woken))"
  have run: "sys_run sample_woken {} (sample_woken\<lparr>sys_daemon := ?d\<rparr>)"
    using run_step [OF run_refl fast_event, of sample_woken sample_event sample_world "\<lambda>_. 7"]
    by (simp add: sample_event_def)
  have "sample_selected 1 \<in> set (snd (select_forks sample_world (sample_session 1) default_config
      [IdleMoment 600] 9 9 (sys_daemon (sample_woken\<lparr>sys_daemon := ?d\<rparr>))))"
    by (simp add: sample_woken_reselects)
  from run_no_refire [OF _ _ _ run _ _ this, of "sample_session 0" "[sample_selected 0]" 5 5 sample_daemon
      "sample_selected 0" "''idle-pause:'' @ show_i64 0"]
  show ?thesis by (simp add: sample_woken_def sample_selected_def sample_session_def)
qed

lemma pending_after_event: "pending_close (fst (handle_event w ev clk d)) (ev_session_id ev) = None"
proof -
  let ?d = "clear_pending_close (ev_session_id ev) (touch_busy (clk 0) d)"
  have none: "pending_close ?d (ev_session_id ev) = None" by (simp add: clear_pending_close_def)
  have cancel: "pending_close (cancel_wait sid x) = pending_close x" for sid x
    by (simp add: cancel_wait_def split: option.split)
  have "poll_books x = poll_books ?d \<Longrightarrow> pending_close x = pending_close ?d" for x
    by (simp add: poll_books_def)
  with prompt_submit_books [of w ev "clk 1" "clk 2" ?d]
  have "pending_close (prompt_submit w ev (clk 1) (clk 2) ?d) = pending_close ?d"
    using cancel by metis
  with none cancel show ?thesis by (simp add: handle_event_def Let_def with_store_def split: event_kind.split)
qed

lemma books_after_begin:
  "pending_close (fst (stop_wait_begin w ev k clk d)) = (pending_close d)(ev_session_id ev := None)"
  "close_gen (fst (stop_wait_begin w ev k clk d)) = close_gen d"
  using poll_books_begin [of w ev k clk d]
  by (simp_all add: poll_books_def park_new_def register_wait_def clear_pending_close_def split: option.splits)

text \<open>C17. A lost poll closes its session only when the session stays away for the whole grace period.
  If it comes back first, with any event or a new poll, the pending close is void; when the new poll is
  lost as well, only the later of the two grace periods counts. If it does not come back, the end of the
  grace period closes it.\<close>

theorem grace_close_superseded:
  assumes "on_poll_lost sid d = (d1, gen)" and "ev_session_id ev = sid"
    and "on_poll_lost sid (fst (stop_wait_begin w ev k clk d1)) = (d2, gen')"
  shows "grace_close sid gen (fst (handle_event w ev clk d1)) = fst (handle_event w ev clk d1)
    \<and> grace_close sid gen (fst (stop_wait_begin w ev k clk d1)) = fst (stop_wait_begin w ev k clk d1)
    \<and> grace_close sid gen d2 = d2
    \<and> pending_close d2 sid = Some gen'
    \<and> (get_session sid (the_store d1) = Some s \<and> session_status s = Open \<longrightarrow>
        the_store (grace_close sid gen d1) = close_session sid (the_store d1))"
proof -
  have d1: "pending_close d1 sid = Some gen" "close_gen d1 = gen"
    using assms(1) by (auto simp: on_poll_lost_def Let_def)
  have d2: "pending_close d2 sid = Some (gen + 1)" and "gen' = gen + 1"
    using assms(3) books_after_begin(2) [of w ev k clk d1] d1 by (auto simp: on_poll_lost_def Let_def)
  moreover have "pending_close (fst (handle_event w ev clk d1)) sid = None"
    "pending_close (fst (stop_wait_begin w ev k clk d1)) sid = None"
    using assms(2) pending_after_event [of w ev clk d1] books_after_begin(1) [of w ev k clk d1] by simp_all
  ultimately show ?thesis
    using d1 by (simp add: grace_close_def Let_def)
qed

theorem grace_close_superseded_witness:
  "\<exists>d1 gen d2 gen'. on_poll_lost ''s'' sample_running = (d1, gen)
     \<and> on_poll_lost ''s'' (fst (stop_wait_begin sample_world sample_stop 0 (\<lambda>_. 9) d1)) = (d2, gen')
     \<and> grace_close ''s'' gen d2 = d2"
proof -
  obtain d1 gen where 1: "on_poll_lost ''s'' sample_running = (d1, gen)" by (rule prod.exhaust)
  obtain d2 gen' where 2:
    "on_poll_lost ''s'' (fst (stop_wait_begin sample_world sample_stop 0 (\<lambda>_. 9) d1)) = (d2, gen')"
    by (rule prod.exhaust)
  from grace_close_superseded [OF 1 _ 2] have "grace_close ''s'' gen d2 = d2"
    by (simp add: sample_stop_def sample_event_def)
  with 1 2 show ?thesis by blast
qed

end
