(* ===== verification/Connections.thy ===== *)
theory Connections
  imports Polls "HOL-Library.Sublist"
begin

text \<open>
  The connections of the daemon, the rest of \<open>crates/autofork-daemon/src/server.rs\<close> (\<open>serve\<close>,
  \<open>handle_conn\<close>, \<open>write_body\<close>), with the loops that end the process: \<open>quiet_reaper\<close> and
  \<open>request_shutdown\<close> of \<open>daemon.rs\<close>, \<open>session_reaper\<close> of \<open>sweep.rs\<close> and the \<open>select!\<close> of \<open>async_main\<close> in
  \<open>main.rs\<close>. A state has the transition system of \<open>Polls\<close> and the connections, each with the place of its
  task in \<open>handle_conn\<close>; every suspended poll belongs to the connection whose task awaits it. Lines, ends of
  file, timers and notifications come in any order, a write may fail, and the process may be interrupted.
\<close>

section \<open>The state of a connection\<close>

text \<open>Where the task of a connection is: spawned and not yet started; waiting for a line; racing a poll
  against the connection, for the request with the given id; returned from \<open>handle_conn\<close>.\<close>

datatype conn_phase = Accepted | Reading | Polling u64 nat | Leaving

text \<open>With the lines read so far that are not blank, each with the id of its request (0 for a line that does
  not parse) and whether it was read while a poll was suspended, and the responses written, in order;
  \<open>cn_gone\<close> records that a write failed or that the peer left during a poll. The lines read are noted from
  the input alone, whatever becomes of them.\<close>

record conn =
  cn_phase :: conn_phase
  cn_asked :: "(u64 \<times> bool) list"
  cn_written :: "response list"
  cn_gone :: bool

record net =
  net_sys :: sys
  net_conns :: "nat \<Rightarrow> conn option"
  next_conn :: nat
  net_shutdowns :: nat
  net_notified :: "nat set"
  net_stopping :: bool
  net_up :: bool

text \<open>What the server is built with: its surroundings, the serialisers, its version and process id.\<close>

record service =
  sv_world :: world
  sv_from_json :: "string \<Rightarrow> string + request"
  sv_to_json :: "response \<Rightarrow> string + string"
  sv_version :: string
  sv_pid :: "32 word"

abbreviation net_daemon :: "net \<Rightarrow> daemon" where
  "net_daemon n \<equiv> sys_daemon (net_sys n)"

abbreviation set_conn :: "nat \<Rightarrow> conn \<Rightarrow> net \<Rightarrow> net" where
  "set_conn c x n \<equiv> n\<lparr>net_conns := (net_conns n)(c \<mapsto> x)\<rparr>"

definition fresh_conn :: conn where
  "fresh_conn = \<lparr>cn_phase = Accepted, cn_asked = [], cn_written = [], cn_gone = False\<rparr>"

definition note_line :: "service \<Rightarrow> bool \<Rightarrow> string \<Rightarrow> conn \<Rightarrow> conn" where
  "note_line sv late line x =
     (if trim line = [] then x
      else x\<lparr>cn_asked := cn_asked x @ [(case sv_from_json sv line of Inl e \<Rightarrow> 0 | Inr req \<Rightarrow> req_id req, late)]\<rparr>)"

text \<open>The requests that were read in their turn.\<close>

definition asked_in_turn :: "conn \<Rightarrow> u64 list" where
  "asked_in_turn x = map fst (filter (\<lambda>(ident, late). \<not> late) (cn_asked x))"

section \<open>Writing and reading\<close>

text \<open>The flag \<open>ok\<close> says whether the socket takes the bytes.\<close>

definition write_body :: "service \<Rightarrow> bool \<Rightarrow> u64 \<Rightarrow> response_body \<Rightarrow> conn \<Rightarrow> conn \<times> bool" where
  "write_body sv ok ident rb x =
     (case encode_frame (sv_to_json sv) (respond ident rb) of
        Inl e \<Rightarrow> (x\<lparr>cn_gone := True\<rparr>, False)
      | Inr line \<Rightarrow> if ok then (x\<lparr>cn_written := cn_written x @ [respond ident rb]\<rparr>, True)
                    else (x\<lparr>cn_gone := True\<rparr>, False))"

text \<open>An answer whose failure ends the connection.\<close>

definition answer :: "service \<Rightarrow> bool \<Rightarrow> u64 \<Rightarrow> response_body \<Rightarrow> conn \<Rightarrow> conn" where
  "answer sv ok ident rb x =
     (case write_body sv ok ident rb x of
        (x, written) \<Rightarrow> x\<lparr>cn_phase := (if written then Reading else Leaving)\<rparr>)"

text \<open>One turn of the loop of \<open>handle_conn\<close>, up to the next line or the suspension of a poll; \<open>None\<close> is the
  end of the file or a read error.\<close>

definition conn_read ::
  "service \<Rightarrow> bool \<Rightarrow> (nat \<Rightarrow> i64) \<Rightarrow> string option \<Rightarrow> nat \<Rightarrow> conn \<Rightarrow> net \<Rightarrow> net" where
  "conn_read sv ok clk input c x n =
     (let s = net_sys n in
      case input of
        None \<Rightarrow> set_conn c (x\<lparr>cn_phase := Leaving\<rparr>) n
      | Some line \<Rightarrow>
          (let x = note_line sv False line x in
           case on_line (sv_from_json sv) line of
             SkipLine \<Rightarrow> set_conn c x n
           | AnswerLine r \<Rightarrow> set_conn c (fst (write_body sv ok (resp_id r) (resp_body r) x)) n
           | ParkPoll ident ev \<Rightarrow>
               (case stop_wait_begin (sv_world sv) ev (next_poll s) clk (sys_daemon s) of
                  (d, Answer rb) \<Rightarrow>
                    set_conn c (answer sv ok ident rb x)
                      (n\<lparr>net_sys := (end_poll (next_poll s) (ev_session_id ev) d s)\<lparr>next_poll := next_poll s + 1\<rparr>\<rparr>)
                | (d, Suspend p) \<Rightarrow>
                    set_conn c (x\<lparr>cn_phase := Polling ident (next_poll s)\<rparr>)
                      (n\<lparr>net_sys := s\<lparr>sys_daemon := d, sys_polls := (sys_polls s)(next_poll s \<mapsto> p),
                                     next_poll := next_poll s + 1\<rparr>\<rparr>))
           | DispatchBody ident rb \<Rightarrow>
               (case dispatch (sv_world sv) (sv_version sv) (sv_pid sv) rb clk (sys_daemon s) of
                  None \<Rightarrow> set_conn c x n
                | Some (d, r, down) \<Rightarrow>
                    set_conn c (answer sv ok ident r x)
                      (n\<lparr>net_sys := s\<lparr>sys_daemon := d\<rparr>,
                         net_shutdowns := net_shutdowns n + (if down then 1 else 0)\<rparr>))))"

text \<open>The poll a connection awaits has returned.\<close>

definition poll_done :: "service \<Rightarrow> bool \<Rightarrow> nat \<Rightarrow> conn \<Rightarrow> u64 \<Rightarrow> nat \<Rightarrow> poll \<Rightarrow> daemon \<Rightarrow> response_body \<Rightarrow> net \<Rightarrow> net" where
  "poll_done sv ok c x ident k p d rb n =
     set_conn c (answer sv ok ident rb x) (n\<lparr>net_sys := end_poll k (poll_sid p) d (net_sys n)\<rparr>)"

text \<open>\<open>notify_waiters\<close>: every poll that is suspended now is notified, and \<open>async_main\<close> is.\<close>

definition notify_waiters :: "net \<Rightarrow> net" where
  "notify_waiters n = n\<lparr>net_notified := net_notified n \<union> {k. sys_polls (net_sys n) k \<noteq> None}, net_stopping := True\<rparr>"

section \<open>The daemon process\<close>

text \<open>A line that arrives while a poll is suspended is read and dropped. A timer that wins the \<open>select!\<close> drops
  the poll's \<open>Notified\<close> future, and with it a notification it has received.\<close>

inductive net_step :: "net \<Rightarrow> net \<Rightarrow> bool" where
  accepts:
    "net_up n \<Longrightarrow> net_step n (set_conn (next_conn n) fresh_conn (n\<lparr>next_conn := next_conn n + 1\<rparr>))"
| starts:
    "net_up n \<Longrightarrow> net_conns n c = Some x \<Longrightarrow> cn_phase x = Accepted \<Longrightarrow>
     net_step n (set_conn c (x\<lparr>cn_phase := Reading\<rparr>)
                   (n\<lparr>net_sys := (net_sys n)\<lparr>sys_daemon := conn_open t (net_daemon n)\<rparr>\<rparr>))"
| reads:
    "net_up n \<Longrightarrow> net_conns n c = Some x \<Longrightarrow> cn_phase x = Reading \<Longrightarrow>
     net_step n (conn_read sv ok clk input c x n)"
| stray_line:
    "net_up n \<Longrightarrow> net_conns n c = Some x \<Longrightarrow> cn_phase x = Polling ident k \<Longrightarrow>
     net_step n (set_conn c (note_line sv True line x) n)"
| peer_lost:
    "net_up n \<Longrightarrow> net_conns n c = Some x \<Longrightarrow> cn_phase x = Polling ident k \<Longrightarrow>
     sys_polls (net_sys n) k = Some p \<Longrightarrow> on_poll_lost (poll_sid p) (net_daemon n) = (d, gen) \<Longrightarrow>
     net_step n (set_conn c (x\<lparr>cn_phase := Leaving, cn_gone := True\<rparr>)
       (n\<lparr>net_sys := (end_poll k (poll_sid p) d (net_sys n))\<lparr>graces := insert (poll_sid p, gen) (graces (net_sys n))\<rparr>\<rparr>))"
| timer_wakes:
    "net_up n \<Longrightarrow> net_conns n c = Some x \<Longrightarrow> cn_phase x = Polling ident k \<Longrightarrow>
     sys_polls (net_sys n) k = Some p \<Longrightarrow> poll_phase p \<noteq> ParkedForever \<Longrightarrow>
     poll_timer w p clk (net_daemon n) = (d, Answer rb) \<Longrightarrow>
     net_step n (poll_done sv ok c x ident k p d rb n)"
| timer_goes_on:
    "net_up n \<Longrightarrow> sys_polls (net_sys n) k = Some p \<Longrightarrow> poll_phase p \<noteq> ParkedForever \<Longrightarrow>
     poll_timer w p clk (net_daemon n) = (d, Suspend q) \<Longrightarrow>
     net_step n (n\<lparr>net_sys := (net_sys n)\<lparr>sys_daemon := d, sys_polls := (sys_polls (net_sys n))(k \<mapsto> q)\<rparr>,
                   net_notified := net_notified n - {k}\<rparr>)"
| poll_released:
    "net_up n \<Longrightarrow> net_conns n c = Some x \<Longrightarrow> cn_phase x = Polling ident k \<Longrightarrow>
     sys_polls (net_sys n) k = Some p \<Longrightarrow> k \<in> cancelled (net_daemon n) \<union> net_notified n \<Longrightarrow>
     net_step n (poll_done sv ok c x ident k p (net_daemon n) RespWaited n)"
| finishes:
    "net_up n \<Longrightarrow> net_conns n c = Some x \<Longrightarrow> cn_phase x = Leaving \<Longrightarrow>
     net_step n (n\<lparr>net_conns := (net_conns n)(c := None),
                   net_sys := (net_sys n)\<lparr>sys_daemon := conn_closed t (net_daemon n)\<rparr>\<rparr>)"
| grace_ends:
    "net_up n \<Longrightarrow> (sid, gen) \<in> graces (net_sys n) \<Longrightarrow>
     net_step n (n\<lparr>net_sys := (net_sys n)\<lparr>sys_daemon := grace_close sid gen (net_daemon n),
                                        graces := graces (net_sys n) - {(sid, gen)}\<rparr>\<rparr>)"
| session_reaper:
    "net_up n \<Longrightarrow>
     net_step n (n\<lparr>net_sys := (net_sys n)\<lparr>sys_daemon := reap (reap_list w t (net_daemon n)) (net_daemon n)\<rparr>\<rparr>)"
| request_shutdown:
    "net_up n \<Longrightarrow> 0 < net_shutdowns n \<Longrightarrow>
     net_step n (notify_waiters (n\<lparr>net_shutdowns := net_shutdowns n - 1\<rparr>))"
| quiet_reaper:
    "net_up n \<Longrightarrow> quiet_exit w t (net_daemon n) \<Longrightarrow> net_step n (notify_waiters n)"
| interrupted:
    "net_up n \<Longrightarrow> net_step n (n\<lparr>net_stopping := True\<rparr>)"
| goes_down:
    "net_up n \<Longrightarrow> net_stopping n \<Longrightarrow> net_step n (n\<lparr>net_up := False\<rparr>)"

definition net_start :: "paths \<Rightarrow> store \<Rightarrow> i64 \<Rightarrow> net" where
  "net_start ps st t = \<lparr>net_sys = initial_sys ps st t, net_conns = Map.empty, next_conn = 0,
     net_shutdowns = 0, net_notified = {}, net_stopping = False, net_up = True\<rparr>"

declare poll_timer.simps [simp del]

section \<open>The process runs the transition system of the handlers\<close>

lemma run_one: "sys_step s C s' \<Longrightarrow> sys_run s C s'"
  using run_step [OF run_refl] by fastforce

lemma runs_one: "sys_step s C s' \<Longrightarrow> \<exists>C. sys_run s C s'"
  using run_one by blast

lemma run_trans: "sys_run s C s' \<Longrightarrow> sys_run s' D s'' \<Longrightarrow> sys_run s (C \<union> D) s''"
proof (rotate_tac 1, induction rule: sys_run.induct)
  case (run_step s1 D1 s2 D2 s3)
  then show ?case using sys_run.run_step [of s "C \<union> D1" s2 D2 s3] by (simp add: Un_assoc)
qed simp

lemma dispatch_runs:
  assumes "dispatch w version pid rb clk (sys_daemon s) = Some (d, r, down)"
  shows "\<exists>C. sys_run s C (s\<lparr>sys_daemon := d\<rparr>)"
proof -
  let ?s = "s\<lparr>sys_daemon := touch_busy (clk 0) (sys_daemon s)\<rparr>"
  have touch: "sys_run s {} ?s" by (rule run_one [OF touched])
  show ?thesis
  proof (cases rb)
    case (EventReq ev)
    with assms have d: "d = fst (handle_event w ev (\<lambda>i. clk (1 + i)) (sys_daemon ?s))"
      by (simp add: dispatch_def Let_def case_prod_unfold)
    show ?thesis using run_trans [OF touch run_one [OF fast_event [of ?s ev w]]] unfolding d by auto
  next
    case Prune
    with assms have d: "d = fst (prune w (clk 1) (sys_daemon ?s))"
      by (simp add: dispatch_def Let_def case_prod_unfold)
    show ?thesis using run_trans [OF touch run_one [OF pruned [of ?s w "clk 1"]]] unfolding d by auto
  qed (use assms touch in \<open>auto simp: dispatch_def Let_def\<close>)
qed

lemma read_runs: "\<exists>C. sys_run (net_sys n) C (net_sys (conn_read sv ok clk input c x n))"
proof (cases "case input of None \<Rightarrow> SkipLine | Some line \<Rightarrow> on_line (sv_from_json sv) line")
  case (ParkPoll ident ev)
  then obtain line where line: "input = Some line" "on_line (sv_from_json sv) line = ParkPoll ident ev"
    by (auto split: option.splits)
  obtain d res where b: "stop_wait_begin (sv_world sv) ev (next_poll (net_sys n)) clk (net_daemon n) = (d, res)"
    by (metis prod.exhaust)
  show ?thesis
  proof (cases res)
    case (Answer rb)
    with line b show ?thesis using runs_one [OF stop_answered [OF b [unfolded Answer]]] by (simp add: conn_read_def Let_def)
  next
    case (Suspend p)
    with line b show ?thesis using runs_one [OF stop_suspended [OF b [unfolded Suspend]]] by (simp add: conn_read_def Let_def)
  qed
next
  case (DispatchBody ident rb)
  then show ?thesis
    using run_refl by (auto simp: conn_read_def Let_def split: option.splits intro: dispatch_runs)
qed (auto simp: conn_read_def Let_def intro: run_refl split: option.splits)

text \<open>Every step of the process is a run of the handlers.\<close>

lemma net_step_runs: "net_step n n' \<Longrightarrow> \<exists>C. sys_run (net_sys n) C (net_sys n')"
proof (induction rule: net_step.induct)
  case (starts n c x t)
  show ?case using runs_one [OF connection [of "net_sys n" True t]] by simp
next
  case (finishes n c x t)
  show ?case using runs_one [OF connection [of "net_sys n" False t]] by simp
next
  case (session_reaper n w t)
  show ?case using runs_one [OF reaped [OF refl, of "net_sys n" w t]] by simp
next
  case (poll_released n c x ident k p sv ok)
  then show ?case by (auto simp: poll_done_def intro!: runs_one poll_shutdown)
next
  case (timer_wakes n c x ident k p w clk d rb sv ok)
  then show ?case by (auto simp: poll_done_def intro!: runs_one timer_answered)
qed (auto simp: notify_waiters_def intro: read_runs run_refl runs_one poll_lost timer_suspended grace_over)

section \<open>The count of connections\<close>

definition started :: "(nat \<Rightarrow> conn option) \<Rightarrow> nat set" where
  "started F = {c. \<exists>x. F c = Some x \<and> cn_phase x \<noteq> Accepted}"

definition count_ok :: "net \<Rightarrow> bool" where
  "count_ok n \<longleftrightarrow> (\<forall>c. net_conns n c \<noteq> None \<longrightarrow> c < next_conn n)
     \<and> connections (net_daemon n) = card (started (net_conns n))"

lemma started_finite: "\<forall>c. F c \<noteq> None \<longrightarrow> c < (m::nat) \<Longrightarrow> finite (started F)"
  by (rule finite_subset [of _ "{..<m}"]) (auto simp: started_def)

lemma started_update:
  "started (F(c := y)) = (case y of Some x \<Rightarrow> if cn_phase x = Accepted then started F - {c} else insert c (started F)
                          | None \<Rightarrow> started F - {c})"
  by (auto simp: started_def split: option.split)

lemma connections_of_books: "poll_books d = poll_books d' \<Longrightarrow> connections d = connections d'"
  by (simp add: poll_books_def)

lemma connections_ops [simp]:
  "connections (touch_busy t d) = connections d" "connections (park_drop sid d) = connections d"
  "connections (cancel_wait sid d) = connections d" "connections (clear_pending_close sid d) = connections d"
  "connections (grace_close sid gen d) = connections d" "connections (reap sids d) = connections d"
  "connections (fst (on_poll_lost sid d)) = connections d"
  "connections (fst (poll_timer w p clk d)) = connections d"
  "connections (fst (stop_wait_begin w ev k clk d)) = connections d"
proof -
  show "connections (fst (stop_wait_begin w ev k clk d)) = connections d"
    using connections_of_books [OF poll_books_begin]
    by (simp add: park_new_def register_wait_def clear_pending_close_def split: option.split)
qed (simp_all add: connections_of_books [OF poll_books_reap] connections_of_books [OF poll_books_timer]
      touch_busy_def park_drop_def cancel_wait_def clear_pending_close_def grace_close_def on_poll_lost_def Let_def
      split: option.split)

lemma connections_event [simp]: "connections (fst (handle_event w ev clk d)) = connections d"
proof -
  let ?d = "clear_pending_close (ev_session_id ev) (touch_busy (clk 0) d)"
  obtain x where x: "prompt_submit w ev (clk 1) (clk 2) ?d = cancel_wait (ev_session_id ev) x"
    "poll_books x = poll_books ?d"
    using prompt_submit_books by blast
  have "connections x = connections d" using connections_of_books [OF x(2)] by simp
  with x(1) show ?thesis by (simp add: handle_event_def Let_def split: event_kind.split)
qed

lemma connections_prune [simp]: "connections (fst (prune w t d)) = connections d"
  by (simp add: prune_eq Let_def)

lemma connections_dispatch: "dispatch w v pid rb clk d = Some (d', r, down) \<Longrightarrow> connections d' = connections d"
  by (cases rb) (auto simp: dispatch_def Let_def case_prod_unfold)

text \<open>A turn of the reading loop changes its own connection only, and never the count.\<close>

lemma phase_answer: "cn_phase (answer sv ok ident rb x) = Reading \<or> cn_phase (answer sv ok ident rb x) = Leaving"
  by (simp add: answer_def case_prod_unfold)

lemma phase_write [simp]: "cn_phase (fst (write_body sv ok ident rb x)) = cn_phase x"
  by (simp add: write_body_def split: sum.split)

lemma note_line_fields [simp]:
  "cn_phase (note_line sv late line x) = cn_phase x" "cn_written (note_line sv late line x) = cn_written x"
  "cn_gone (note_line sv late line x) = cn_gone x"
  by (simp_all add: note_line_def)

lemma read_shape:
  assumes "net_conns n c = Some x" and "cn_phase x = Reading"
  shows "\<exists>y. net_conns (conn_read sv ok clk input c x n) = (net_conns n)(c \<mapsto> y) \<and> cn_phase y \<noteq> Accepted"
    and "next_conn (conn_read sv ok clk input c x n) = next_conn n"
proof -
  have same: "\<exists>y. net_conns n = (net_conns n)(c \<mapsto> y) \<and> cn_phase y \<noteq> Accepted"
    using assms by (intro exI [of _ x]) auto
  have phases: "cn_phase (answer sv ok ident rb y) \<noteq> Accepted" for ident rb y
    using phase_answer [of sv ok ident rb y] by auto
  show "\<exists>y. net_conns (conn_read sv ok clk input c x n) = (net_conns n)(c \<mapsto> y) \<and> cn_phase y \<noteq> Accepted"
    using assms same phases
    by (auto simp: conn_read_def Let_def split: option.split line_action.split poll_result.split prod.split)
  show "next_conn (conn_read sv ok clk input c x n) = next_conn n"
    by (simp add: conn_read_def Let_def split: option.split line_action.split poll_result.split prod.split)
qed

lemma read_connections: "connections (net_daemon (conn_read sv ok clk input c x n)) = connections (net_daemon n)"
proof -
  have "connections d = connections (net_daemon n)"
    if "stop_wait_begin w ev k clk (net_daemon n) = (d, res)" for w ev k d res
    using connections_ops(9) [of w ev k clk "net_daemon n"] that by simp
  then show ?thesis
    by (auto simp: conn_read_def Let_def end_poll_def connections_dispatch
        split: option.split line_action.split poll_result.split prod.split)
qed

lemma count_set:
  assumes "count_ok n" and "net_conns n c = Some x" and "cn_phase x \<noteq> Accepted"
    and "net_conns m = (net_conns n)(c \<mapsto> y)" and "cn_phase y \<noteq> Accepted"
    and "next_conn m = next_conn n" and "connections (net_daemon m) = connections (net_daemon n)"
  shows "count_ok m"
proof -
  have "started (net_conns m) = started (net_conns n)"
    using assms(2-5) by (auto simp: started_update) (auto simp: started_def)
  with assms show ?thesis by (auto simp: count_ok_def)
qed

lemma count_step: "net_step n n' \<Longrightarrow> count_ok n \<Longrightarrow> count_ok n'"
proof (induction rule: net_step.induct)
  case (accepts n)
  then have "started ((net_conns n)(next_conn n \<mapsto> fresh_conn)) = started (net_conns n)"
    by (auto simp: started_update fresh_conn_def started_def count_ok_def)
  with accepts show ?case by (auto simp: count_ok_def less_Suc_eq)
next
  case (starts n c x t)
  then have fin: "finite (started (net_conns n))" "c \<notin> started (net_conns n)"
    using started_finite [of "net_conns n" "next_conn n"] by (auto simp: count_ok_def started_def)
  with starts show ?case by (auto simp: count_ok_def conn_open_def started_update)
next
  case (finishes n c x t)
  then have fin: "finite (started (net_conns n))" "c \<in> started (net_conns n)"
    using started_finite [of "net_conns n" "next_conn n"] by (auto simp: count_ok_def started_def)
  with finishes show ?case by (auto simp: count_ok_def conn_closed_def started_update card_Diff_singleton)
next
  case (reads n c x sv ok clk input)
  obtain y where y: "net_conns (conn_read sv ok clk input c x n) = (net_conns n)(c \<mapsto> y)" "cn_phase y \<noteq> Accepted"
    using read_shape(1) [OF reads(2,3)] by blast
  show ?case
    by (rule count_set [OF reads(4,2) _ y]) (simp_all add: reads(3) read_connections read_shape(2) [OF reads(2,3)])
next
  case (peer_lost n c x ident k p d gen)
  then have "connections d = connections (net_daemon n)" by (metis connections_ops(7) fst_conv)
  then show ?case by (intro count_set [OF peer_lost(6,2), where y = "x\<lparr>cn_phase := Leaving, cn_gone := True\<rparr>"]) (simp_all add: peer_lost(3) end_poll_def)
next
  case (timer_wakes n c x ident k p w clk d rb sv ok)
  then have "connections d = connections (net_daemon n)" by (metis connections_ops(8) fst_conv)
  then show ?case
    using phase_answer [of sv ok ident rb x]
    by (intro count_set [OF timer_wakes(7,2)]) (auto simp: timer_wakes(3) end_poll_def poll_done_def)
next
  case (timer_goes_on n k p w clk d q)
  then have "connections d = connections (net_daemon n)" by (metis connections_ops(8) fst_conv)
  with timer_goes_on show ?case by (simp add: count_ok_def)
next
  case (stray_line n c x ident k sv line)
  then show ?case by (intro count_set [OF stray_line(4,2), where y = "note_line sv True line x"]) simp_all
next
  case (poll_released n c x ident k p sv ok)
  then show ?case
    using phase_answer [of sv ok ident RespWaited x]
    by (intro count_set [OF poll_released(6,2)]) (auto simp: end_poll_def poll_done_def)
qed (auto simp: count_ok_def notify_waiters_def)

section \<open>The polls and their connections\<close>

definition awaits :: "(nat \<Rightarrow> conn option) \<Rightarrow> nat \<Rightarrow> nat \<Rightarrow> bool" where
  "awaits F c k \<longleftrightarrow> (\<exists>x ident. F c = Some x \<and> cn_phase x = Polling ident k)"

definition owned :: "(nat \<Rightarrow> poll option) \<Rightarrow> (nat \<Rightarrow> conn option) \<Rightarrow> bool" where
  "owned P F \<longleftrightarrow> (\<forall>k. P k \<noteq> None \<longleftrightarrow> (\<exists>c. awaits F c k)) \<and> (\<forall>c c' k. awaits F c k \<and> awaits F c' k \<longrightarrow> c = c')"

text \<open>How a step may change the polls and the connections together.\<close>

lemma awaits_update:
  "awaits (F(c := y)) c' k \<longleftrightarrow>
     (if c' = c then (\<exists>x ident. y = Some x \<and> cn_phase x = Polling ident k) else awaits F c' k)"
  by (auto simp: awaits_def)

lemma owned_idle:
  assumes "owned P F" and "\<And>k. \<not> awaits F c k" and "\<And>x ident k. y = Some x \<Longrightarrow> cn_phase x \<noteq> Polling ident k"
  shows "owned P (F(c := y))"
proof -
  have "awaits (F(c := y)) c' k = awaits F c' k" for c' k
    using assms(2,3) by (auto simp: awaits_update)
  with assms(1) show ?thesis by (simp add: owned_def)
qed

lemma owned_release:
  assumes "owned P F" and "awaits F c k" and "\<And>ident k. cn_phase y \<noteq> Polling ident k"
  shows "owned (P(k := None)) (F(c \<mapsto> y))"
proof -
  have "awaits (F(c \<mapsto> y)) c' j \<longleftrightarrow> awaits F c' j \<and> j \<noteq> k" for c' j
    using assms by (auto simp: awaits_update owned_def) (auto simp: awaits_def)
  with assms(1) show ?thesis unfolding owned_def by (auto; blast)
qed

lemma owned_park:
  assumes "owned P F" and "P k = None" and "\<And>k. \<not> awaits F c k" and "cn_phase y = Polling ident k"
  shows "owned (P(k \<mapsto> p)) (F(c \<mapsto> y))"
proof -
  have "awaits (F(c \<mapsto> y)) c' j \<longleftrightarrow> awaits F c' j \<or> c' = c \<and> j = k" for c' j
    using assms(3,4) by (auto simp: awaits_update)
  with assms(1,2) show ?thesis unfolding owned_def by (auto; blast)
qed

lemma owned_poll: "owned P F \<Longrightarrow> P k \<noteq> None \<Longrightarrow> owned (P(k \<mapsto> q)) F"
  by (auto simp: owned_def)

lemmas owned_intros =
  owned_idle owned_idle [unfolded fun_upd_def] owned_release owned_release [unfolded fun_upd_def]
  owned_poll owned_poll [unfolded fun_upd_def]

lemma owned_same_phase:
  assumes "owned P F" and "F c = Some x" and "cn_phase y = cn_phase x"
  shows "owned P (F(c \<mapsto> y))"
proof -
  have "awaits (F(c \<mapsto> y)) = awaits F" using assms(2,3) by (auto simp: awaits_def fun_eq_iff)
  with assms(1) show ?thesis by (simp add: owned_def)
qed

lemma phase_idle:
  "F c = Some x \<Longrightarrow> (\<And>ident k. cn_phase x \<noteq> Polling ident k) \<Longrightarrow> \<not> awaits F c k"
  by (simp add: awaits_def)

lemma owned_read:
  assumes own: "owned (sys_polls (net_sys n)) (net_conns n)" and new: "sys_polls (net_sys n) (next_poll (net_sys n)) = None"
    and x: "net_conns n c = Some x" "cn_phase x = Reading"
  shows "owned (sys_polls (net_sys (conn_read sv ok clk input c x n))) (net_conns (conn_read sv ok clk input c x n))"
proof -
  have idle: "\<not> awaits (net_conns n) c k" for k using x by (simp add: phase_idle)
  have phases: "cn_phase (answer sv ok ident rb y) \<noteq> Polling ident' k" for ident rb y ident' k
    using phase_answer [of sv ok ident rb y] by auto
  have unpolled: "(sys_polls (net_sys n))(next_poll (net_sys n) := None) = sys_polls (net_sys n)"
    using new by auto
  show ?thesis
    using own new x phases
    by (auto simp: conn_read_def Let_def end_poll_def unpolled intro!: owned_idle [OF own idle] owned_park [OF own new idle]
        split: option.split line_action.split poll_result.split prod.split)
qed

lemma owned_step:
  "net_step n n' \<Longrightarrow> books_ok (net_sys n) \<Longrightarrow> count_ok n \<Longrightarrow> owned (sys_polls (net_sys n)) (net_conns n) \<Longrightarrow>
   owned (sys_polls (net_sys n')) (net_conns n')"
proof (induction rule: net_step.induct)
  case (accepts n)
  then have "\<not> awaits (net_conns n) (next_conn n) k" for k by (auto simp: count_ok_def awaits_def)
  then have "owned (sys_polls (net_sys n)) ((net_conns n)(next_conn n \<mapsto> fresh_conn))"
    by (rule owned_idle [OF accepts(4)]) (auto simp: fresh_conn_def)
  then show ?case by (simp add: fun_upd_def)
next
  case (starts n c x t)
  then show ?case by (auto simp: awaits_def intro!: owned_intros)
next
  case (finishes n c x t)
  then show ?case by (auto simp: awaits_def intro!: owned_intros)
next
  case (reads n c x sv ok clk input)
  have "sys_polls (net_sys n) (next_poll (net_sys n)) = None" using reads(4) by (auto simp: books_ok_def)
  with reads show ?case by (intro owned_read)
next
  case (peer_lost n c x ident k p d gen)
  then show ?case by (auto simp: end_poll_def awaits_def intro!: owned_intros)
next
  case (timer_wakes n c x ident k p w clk d rb sv ok)
  then show ?case using phase_answer [of sv ok ident rb x]
    by (auto simp: end_poll_def poll_done_def awaits_def intro!: owned_intros)
next
  case (poll_released n c x ident k p sv ok)
  then show ?case using phase_answer [of sv ok ident RespWaited x]
    by (auto simp: end_poll_def poll_done_def awaits_def intro!: owned_intros)
next
  case (stray_line n c x ident k sv line)
  then show ?case using owned_same_phase [of _ "net_conns n" c x "note_line sv True line x"]
    by (simp add: fun_upd_def)
next
  case (timer_goes_on n k p w clk d q)
  then show ?case by (auto intro!: owned_intros)
qed (auto simp: notify_waiters_def)

section \<open>Requests and answers\<close>

text \<open>The request a connection has not answered yet, while its poll is suspended.\<close>

definition unanswered :: "conn \<Rightarrow> u64 list" where
  "unanswered x = (case cn_phase x of Polling ident k \<Rightarrow> [ident] | _ \<Rightarrow> [])"

definition talk_ok :: "conn \<Rightarrow> bool" where
  "talk_ok x \<longleftrightarrow> subseq (map resp_id (cn_written x) @ unanswered x) (asked_in_turn x)
     \<and> (\<not> cn_gone x \<longrightarrow> asked_in_turn x = map resp_id (cn_written x) @ unanswered x)"

lemma resp_id_respond [simp]: "resp_id (respond ident rb) = ident"
  by (simp add: respond_def)

text \<open>A connection whose last request, with the given id, is not answered yet.\<close>

definition talk_open :: "u64 \<Rightarrow> conn \<Rightarrow> bool" where
  "talk_open ident x \<longleftrightarrow> subseq (map resp_id (cn_written x) @ [ident]) (asked_in_turn x)
     \<and> (\<not> cn_gone x \<longrightarrow> asked_in_turn x = map resp_id (cn_written x) @ [ident])"

lemma asked_update [simp]:
  "asked_in_turn (x\<lparr>cn_phase := ph\<rparr>) = asked_in_turn x" "asked_in_turn (x\<lparr>cn_written := rs\<rparr>) = asked_in_turn x"
  "asked_in_turn (x\<lparr>cn_gone := b\<rparr>) = asked_in_turn x"
  by (simp_all add: asked_in_turn_def)

lemma asked_ignored [simp]: "asked_in_turn (note_line sv True line x) = asked_in_turn x"
  by (simp add: asked_in_turn_def note_line_def)

lemma asked_line:
  "on_line (sv_from_json sv) line = SkipLine \<Longrightarrow> asked_in_turn (note_line sv False line x) = asked_in_turn x"
  "on_line (sv_from_json sv) line = AnswerLine r \<Longrightarrow>
     asked_in_turn (note_line sv False line x) = asked_in_turn x @ [resp_id r]"
  "on_line (sv_from_json sv) line = ParkPoll ident ev \<Longrightarrow>
     asked_in_turn (note_line sv False line x) = asked_in_turn x @ [ident]"
  "on_line (sv_from_json sv) line = DispatchBody ident rb \<Longrightarrow>
     asked_in_turn (note_line sv False line x) = asked_in_turn x @ [ident] \<and> dispatch w v pid rb clk d \<noteq> None"
  by (auto simp: on_line_def asked_in_turn_def note_line_def dispatch_def Let_def case_prod_unfold
      split: if_splits sum.splits request_body.splits)

lemma talk_opens:
  assumes "talk_ok x" and "unanswered x = []" and "asked_in_turn (note_line sv False line x) = asked_in_turn x @ [ident]"
  shows "talk_open ident (note_line sv False line x)"
  using assms by (auto simp: talk_ok_def talk_open_def intro: list_emb_append_mono)

lemma talk_polling: "cn_phase x = Polling ident k \<Longrightarrow> talk_ok x \<longleftrightarrow> talk_open ident x"
  by (simp add: talk_ok_def talk_open_def unanswered_def)

lemma talk_suspend: "talk_open ident x \<Longrightarrow> talk_ok (x\<lparr>cn_phase := Polling ident k\<rparr>)"
  by (simp add: talk_ok_def talk_open_def unanswered_def)

lemma talk_close:
  "talk_open ident x \<Longrightarrow> subseq (map resp_id (cn_written x)) (asked_in_turn x)"
  using subseq_order.order_trans [OF prefix_imp_subseq, of _ "map resp_id (cn_written x) @ [ident]"]
  by (simp add: talk_open_def)

lemma talk_write:
  assumes "talk_open ident x" and "unanswered (x\<lparr>cn_phase := ph\<rparr>) = []"
  shows "talk_ok ((fst (write_body sv ok ident rb x))\<lparr>cn_phase := ph\<rparr>)"
  using assms talk_close [OF assms(1)]
  by (auto simp: talk_ok_def talk_open_def write_body_def unanswered_def split: sum.split)

lemma talk_answer: "talk_open ident x \<Longrightarrow> talk_ok (answer sv ok ident rb x)"
  using talk_write [of ident x _ sv ok rb] by (simp add: answer_def case_prod_unfold unanswered_def)

lemma talk_read:
  assumes talk: "\<And>c x. net_conns n c = Some x \<Longrightarrow> talk_ok x" and x: "net_conns n c = Some x" "cn_phase x = Reading"
    and y: "net_conns (conn_read sv ok clk input c x n) c' = Some y"
  shows "talk_ok y"
proof (cases input)
  case None
  have "talk_ok (x\<lparr>cn_phase := Leaving\<rparr>)" using talk [OF x(1)] x(2) by (simp add: talk_ok_def unanswered_def)
  with None y talk show ?thesis by (auto simp: conn_read_def split: if_splits)
next
  case (Some line)
  let ?x = "note_line sv False line x"
  have ok: "talk_ok x" "unanswered x = []" using talk [OF x(1)] x(2) by (simp_all add: unanswered_def)
  note opens = talk_opens [OF ok]
  show ?thesis
  proof (cases "on_line (sv_from_json sv) line")
    case SkipLine
    then have "talk_ok ?x" using ok x(2) asked_line(1) by (simp add: talk_ok_def unanswered_def)
    with SkipLine Some y talk show ?thesis by (auto simp: conn_read_def split: if_splits)
  next
    case (AnswerLine r)
    let ?y = "fst (write_body sv ok (resp_id r) (resp_body r) ?x)"
    have open_y: "talk_ok (?y\<lparr>cn_phase := Reading\<rparr>)"
      by (rule talk_write [OF opens [OF asked_line(2) [OF AnswerLine]]]) (simp add: unanswered_def)
    have "cn_phase ?y = Reading" using x(2) by simp
    then have "?y\<lparr>cn_phase := Reading\<rparr> = ?y" by (metis conn.surjective conn.update_convs(1))
    with open_y have ok_y: "talk_ok ?y" by argo
    from AnswerLine Some y have "(if c' = c then Some ?y else net_conns n c') = Some y"
      by (simp add: conn_read_def Let_def)
    then show ?thesis using talk ok_y by (metis option.inject)
  next
    case (ParkPoll ident ev)
    then have open_x: "talk_open ident ?x" by (rule opens [OF asked_line(3)])
    obtain d res where b: "stop_wait_begin (sv_world sv) ev (next_poll (net_sys n)) clk (net_daemon n) = (d, res)"
      by (metis prod.exhaust)
    show ?thesis
    proof (cases res)
      case (Answer rb)
      with ParkPoll Some b y have "(if c' = c then Some (answer sv ok ident rb ?x) else net_conns n c') = Some y"
        by (simp add: conn_read_def Let_def)
      then show ?thesis using talk talk_answer [OF open_x] by (metis option.inject)
    next
      case (Suspend p)
      with ParkPoll Some b y
      have "(if c' = c then Some (?x\<lparr>cn_phase := Polling ident (next_poll (net_sys n))\<rparr>) else net_conns n c') = Some y"
        by (simp add: conn_read_def Let_def)
      then show ?thesis using talk talk_suspend [OF open_x] by (metis option.inject)
    qed
  next
    case (DispatchBody ident rb)
    then have open_x: "talk_open ident ?x" using opens asked_line(4) by blast
    obtain d r down where "dispatch (sv_world sv) (sv_version sv) (sv_pid sv) rb clk (net_daemon n) = Some (d, r, down)"
      using asked_line(4) [OF DispatchBody] by (metis option.exhaust prod_cases3)
    with DispatchBody Some y have "(if c' = c then Some (answer sv ok ident r ?x) else net_conns n c') = Some y"
      by (simp add: conn_read_def Let_def)
    then show ?thesis using talk talk_answer [OF open_x] by (metis option.inject)
  qed
qed

lemma talk_step:
  "net_step n n' \<Longrightarrow> (\<And>c x. net_conns n c = Some x \<Longrightarrow> talk_ok x) \<Longrightarrow> net_conns n' c = Some y \<Longrightarrow> talk_ok y"
proof (induction arbitrary: c y rule: net_step.induct)
  case (accepts n)
  then show ?case by (auto simp: fresh_conn_def talk_ok_def unanswered_def asked_in_turn_def split: if_splits)
next
  case (starts n c' x t)
  then have "talk_ok (x\<lparr>cn_phase := Reading\<rparr>)" by (force simp: talk_ok_def unanswered_def)
  with starts show ?case by (auto split: if_splits)
next
  case (reads n c' x sv ok clk input)
  then show ?case by (blast intro: talk_read)
next
  case (stray_line n c' x ident k sv line)
  then have "talk_ok x" by blast
  then have "talk_ok (note_line sv True line x)" by (simp add: talk_ok_def unanswered_def)
  with stray_line show ?case by (auto split: if_splits)
next
  case (peer_lost n c' x ident k p d gen)
  then have "talk_open ident x" using talk_polling by blast
  then have "talk_ok (x\<lparr>cn_phase := Leaving, cn_gone := True\<rparr>)"
    using talk_close by (simp add: talk_ok_def unanswered_def)
  with peer_lost show ?case by (auto split: if_splits)
next
  case (timer_wakes n c' x ident k p w clk d rb sv ok)
  then have "talk_open ident x" using talk_polling by blast
  with timer_wakes show ?case by (auto simp: poll_done_def intro: talk_answer split: if_splits)
next
  case (poll_released n c' x ident k p sv ok)
  then have "talk_open ident x" using talk_polling by blast
  with poll_released show ?case by (auto simp: poll_done_def intro: talk_answer split: if_splits)
next
  case (finishes n c' x t)
  then show ?case by (auto split: if_splits)
qed (auto simp: notify_waiters_def)

section \<open>Properties\<close>

definition net_ok :: "net \<Rightarrow> bool" where
  "net_ok n \<longleftrightarrow> books_ok (net_sys n) \<and> count_ok n \<and> owned (sys_polls (net_sys n)) (net_conns n)
     \<and> (\<forall>c x. net_conns n c = Some x \<longrightarrow> talk_ok x)"

interpretation process: step_invariant net_step net_ok
proof unfold_locales
  fix n n'
  assume step: "net_step n n'" and ok: "net_ok n"
  obtain C where "sys_run (net_sys n) C (net_sys n')" using net_step_runs [OF step] by blast
  then have "books_ok (net_sys n')" using ok by (auto simp: net_ok_def intro: books.along)
  moreover have "\<And>c x. net_conns n' c = Some x \<Longrightarrow> talk_ok x"
    using talk_step [OF step] ok by (auto simp: net_ok_def)
  ultimately show "net_ok n'"
    using ok count_step [OF step] owned_step [OF step] by (simp add: net_ok_def)
qed

lemma net_start_ok: "net_ok (net_start ps st t)"
  using books_initial [of ps st t]
  by (simp add: net_ok_def net_start_def count_ok_def owned_def awaits_def started_def)
    (simp add: initial_sys_def new_daemon_def)

lemma net_reachable_ok: "net_step\<^sup>*\<^sup>* (net_start ps st t) n \<Longrightarrow> net_ok n"
  by (erule process.reachable) (rule net_start_ok)

text \<open>What a step does to a suspended poll.\<close>

lemma read_frame:
  assumes "net_conns n c = Some x" and "sys_polls (net_sys n) (next_poll (net_sys n)) = None"
    and "c' \<noteq> c" and "sys_polls (net_sys n) k = Some p"
  shows "sys_polls (net_sys (conn_read sv ok clk input c x n)) k = Some p"
    and "net_conns (conn_read sv ok clk input c x n) c' = net_conns n c'"
    and "net_notified (conn_read sv ok clk input c x n) = net_notified n"
    and "net_shutdowns n \<le> net_shutdowns (conn_read sv ok clk input c x n)"
  using assms
  by (auto simp: conn_read_def Let_def end_poll_def split: option.split line_action.split poll_result.split prod.split)

lemma shutdown_notifies:
  "net_step n n' \<Longrightarrow> sys_polls (net_sys n) k = Some p \<Longrightarrow> net_shutdowns n' < net_shutdowns n \<Longrightarrow> k \<in> net_notified n'"
proof (induction rule: net_step.induct)
  case (reads n c x sv ok clk input)
  have "net_shutdowns n \<le> net_shutdowns (conn_read sv ok clk input c x n)"
    by (simp add: conn_read_def Let_def split: option.split line_action.split poll_result.split prod.split)
  with reads show ?case by simp
qed (auto simp: notify_waiters_def poll_done_def)

lemma poll_done_fate:
  "sys_polls (net_sys (poll_done sv ok c x ident k p d rb n)) = (sys_polls (net_sys n))(k := None)"
  "net_conns (poll_done sv ok c x ident k p d rb n) = (net_conns n)(c \<mapsto> answer sv ok ident rb x)"
  "net_notified (poll_done sv ok c x ident k p d rb n) = net_notified n"
  "cn_written (answer sv ok ident rb x) = cn_written x @ [respond ident rb] \<or> cn_gone (answer sv ok ident rb x)"
  by (auto simp: poll_done_def end_poll_def answer_def write_body_def split: sum.split)

lemma notified_fate:
  "net_step n n' \<Longrightarrow> net_ok n \<Longrightarrow> net_conns n c = Some x \<Longrightarrow> cn_phase x = Polling ident k \<Longrightarrow>
   sys_polls (net_sys n) k = Some p \<Longrightarrow> k \<in> net_notified n \<Longrightarrow>
   sys_polls (net_sys n') k = Some p \<and> awaits (net_conns n') c k \<and> k \<in> net_notified n'
   \<or> sys_polls (net_sys n') k = None \<and> (\<exists>y. net_conns n' c = Some y
       \<and> ((\<exists>rb. cn_written y = cn_written x @ [respond ident rb]) \<or> cn_gone y))
   \<or> (\<exists>w clk d q. poll_timer w p clk (net_daemon n) = (d, Suspend q)
        \<and> sys_polls (net_sys n') k = Some q \<and> k \<notin> net_notified n')"
proof (induction rule: net_step.induct)
  case (accepts n)
  then have "c \<noteq> next_conn n" by (auto simp: net_ok_def count_ok_def)
  with accepts show ?case by (simp add: awaits_def)
next
  case (starts n c' x' t)
  then have "c \<noteq> c'" by auto
  with starts show ?case by (simp add: awaits_def)
next
  case (reads n c' x' sv ok clk input)
  then have "c \<noteq> c'" and "sys_polls (net_sys n) (next_poll (net_sys n)) = None"
    by (auto simp: net_ok_def books_ok_def)
  with reads show ?case using read_frame [OF reads(2)] by (simp add: awaits_def)
next
  case (stray_line n c' x' ident' k' sv line)
  then show ?case by (auto simp: awaits_def)
next
  case (peer_lost n c' x' ident' k' p' d gen)
  then have "c' = c \<longleftrightarrow> k' = k" by (auto simp: net_ok_def owned_def awaits_def)
  with peer_lost show ?case by (cases "k' = k") (simp_all add: awaits_def end_poll_def)
next
  case (timer_wakes n c' x' ident' k' p' w clk d rb sv ok)
  then have "c' = c \<longleftrightarrow> k' = k" by (auto simp: net_ok_def owned_def awaits_def)
  with timer_wakes show ?case
    using poll_done_fate(4) [of sv ok ident rb x] by (cases "k' = k") (auto simp: awaits_def poll_done_fate(1-3))
next
  case (poll_released n c' x' ident' k' p' sv ok)
  then have "c' = c \<longleftrightarrow> k' = k" by (auto simp: net_ok_def owned_def awaits_def)
  with poll_released show ?case
    using poll_done_fate(4) [of sv ok ident RespWaited x] by (cases "k' = k") (auto simp: awaits_def poll_done_fate(1-3))
next
  case (timer_goes_on n k' p' w clk d q)
  then show ?case by (cases "k' = k") (auto simp: awaits_def)
next
  case (finishes n c' x' t)
  then have "c \<noteq> c'" by auto
  with finishes show ?case by (simp add: awaits_def)
qed (auto simp: awaits_def notify_waiters_def)

text \<open>A daemon on which a client has parked a poll.\<close>

definition sample_service :: service where
  "sample_service = \<lparr>sv_world = sample_world,
     sv_from_json = (\<lambda>line. if line = ''stop'' then Inr \<lparr>req_proto = PROTO_VERSION, req_id = 7, req_body = StopWait sample_stop\<rparr>
                            else if line = ''down'' then Inr \<lparr>req_proto = PROTO_VERSION, req_id = 6, req_body = Shutdown True\<rparr>
                            else Inl ''?''),
     sv_to_json = (\<lambda>_. Inr ''{}''), sv_version = ''1'', sv_pid = 1\<rparr>"

abbreviation sample_start :: net where
  "sample_start \<equiv> net_start \<lparr>base = ''/h''\<rparr> empty_store 0"

definition sample_conn :: net where
  "sample_conn = set_conn 0 (fresh_conn\<lparr>cn_phase := Reading\<rparr>)
     (sample_start\<lparr>next_conn := 1, net_sys := (net_sys sample_start)\<lparr>sys_daemon := conn_open 5 (net_daemon sample_start)\<rparr>\<rparr>)"

definition sample_read :: "string \<Rightarrow> net \<Rightarrow> net" where
  "sample_read line n = conn_read sample_service True (\<lambda>_. 9) (Some line) 0 (the (net_conns n 0)) n"

lemma sample_conn_reached: "net_step\<^sup>*\<^sup>* sample_start sample_conn"
proof -
  let ?n = "set_conn 0 fresh_conn (sample_start\<lparr>next_conn := 1\<rparr>)"
  have "net_step sample_start ?n" using accepts [of sample_start] by (simp add: net_start_def)
  moreover have "net_step ?n sample_conn"
    using starts [of ?n 0 fresh_conn 5] by (simp add: net_start_def fresh_conn_def sample_conn_def)
  ultimately show ?thesis by (meson r_into_rtranclp rtranclp_trans)
qed

lemma sample_conn_fields [simp]:
  "net_conns sample_conn 0 = Some (fresh_conn\<lparr>cn_phase := Reading\<rparr>)" "net_up sample_conn"
  "next_poll (net_sys sample_conn) = 0" "net_shutdowns sample_conn = 0"
  by (simp_all add: sample_conn_def net_start_def initial_sys_def)

lemma sample_service_fields [simp]:
  "sv_world sample_service = sample_world" "encode_frame (sv_to_json sample_service) r = Inr (''{}'' @ [nl])"
  by (simp_all add: sample_service_def encode_frame_def)

lemma sample_lines:
  "on_line (sv_from_json sample_service) ''stop'' = ParkPoll 7 sample_stop"
  "on_line (sv_from_json sample_service) ''down'' = DispatchBody 6 (Shutdown True)"
  "on_line (sv_from_json sample_service) ''hi'' = AnswerLine (respond 0 (RespError BadRequest ''bad request: ?''))"
  by code_simp+

lemma sample_noted:
  "note_line sample_service False ''hi'' x = x\<lparr>cn_asked := cn_asked x @ [(0, False)]\<rparr>"
proof -
  have "trim ''hi'' \<noteq> []" by code_simp
  then show ?thesis by (simp add: note_line_def sample_service_def)
qed

lemma sample_read_step:
  "net_up n \<Longrightarrow> net_conns n 0 = Some x \<Longrightarrow> cn_phase x = Reading \<Longrightarrow> net_step\<^sup>*\<^sup>* m n \<Longrightarrow> net_step\<^sup>*\<^sup>* m (sample_read line n)"
  unfolding sample_read_def by (rule rtranclp.rtrancl_into_rtrancl, assumption, rule reads) simp_all

text \<open>A connection that asked for a shutdown and then parked a poll, before the shutdown takes place.\<close>

lemma sample_down_fields:
  "net_up (sample_read ''down'' sample_conn)" "net_shutdowns (sample_read ''down'' sample_conn) = 1"
  "next_poll (net_sys (sample_read ''down'' sample_conn)) = 0"
  "net_daemon (sample_read ''down'' sample_conn) = touch_busy 9 (net_daemon sample_conn)"
  "\<exists>x. net_conns (sample_read ''down'' sample_conn) 0 = Some x \<and> cn_phase x = Reading"
  by (simp_all add: sample_read_def conn_read_def Let_def sample_lines dispatch_def answer_def write_body_def)

lemma sample_parked:
  obtains n p where "net_step\<^sup>*\<^sup>* sample_start n" and "net_up n" and "net_shutdowns n = 1"
    and "sys_polls (net_sys n) 0 = Some p"
proof -
  let ?n = "sample_read ''down'' sample_conn"
  obtain x where x: "net_conns ?n 0 = Some x" "cn_phase x = Reading" using sample_down_fields(5) by blast
  have "net_step\<^sup>*\<^sup>* sample_start ?n" by (rule sample_read_step [OF sample_conn_fields(2,1)]) (simp_all add: sample_conn_reached)
  then have run: "net_step\<^sup>*\<^sup>* sample_start (sample_read ''stop'' ?n)"
    by (rule sample_read_step [OF sample_down_fields(1) x])
  have "case snd (stop_wait_begin sample_world sample_stop 0 (\<lambda>_. 9) (touch_busy 9 (net_daemon sample_conn))) of
      Suspend p \<Rightarrow> True | Answer r \<Rightarrow> False"
    by code_simp
  then obtain d p where b: "stop_wait_begin sample_world sample_stop 0 (\<lambda>_. 9) (net_daemon ?n) = (d, Suspend p)"
    unfolding sample_down_fields(4)
    by (metis (no_types, lifting) poll_result.case(1) poll_result.exhaust prod.collapse)
  show thesis
    by (rule that [OF run, of p])
      (simp_all add: sample_read_def [of "''stop''"] conn_read_def Let_def sample_lines sample_down_fields(1-3) b)
qed

text \<open>C9. The quiet reaper never stops the daemon under a session that waits for it: when it decides to, no
  connection is being served, no poll is suspended and no session counts as parked.\<close>

theorem quiet_exit_unparked:
  assumes "net_step\<^sup>*\<^sup>* (net_start ps st t0) n" and "quiet_exit w t (net_daemon n)"
  shows "(\<forall>c x. net_conns n c = Some x \<longrightarrow> cn_phase x = Accepted)
    \<and> (\<forall>k. sys_polls (net_sys n) k = None) \<and> (\<forall>sid. \<not> is_parked sid (net_daemon n))"
proof -
  have ok: "net_ok n" by (rule net_reachable_ok [OF assms(1)])
  then have "finite (started (net_conns n))"
    using started_finite [of "net_conns n" "next_conn n"] by (simp add: net_ok_def count_ok_def)
  with assms(2) ok have "started (net_conns n) = {}"
    by (simp add: quiet_exit_def is_quiet_def net_ok_def count_ok_def)
  then have idle: "\<forall>c x. net_conns n c = Some x \<longrightarrow> cn_phase x = Accepted" by (auto simp: started_def)
  then have "\<not> awaits (net_conns n) c k" for c k by (auto simp: awaits_def)
  with ok have none: "\<forall>k. sys_polls (net_sys n) k = None" by (simp add: net_ok_def owned_def)
  then have "live (net_sys n) sid = {}" for sid by (simp add: live_def)
  with ok none idle show ?thesis by (simp add: net_ok_def parked_iff_live)
qed

theorem quiet_exit_unparked_witness:
  "quiet_exit sample_world 1200 (net_daemon sample_start) \<and> \<not> is_parked ''s'' (net_daemon sample_start)"
proof -
  have "quiet_exit sample_world 1200 (net_daemon sample_start)" by code_simp
  with quiet_exit_unparked [OF rtranclp.rtrancl_refl this] show ?thesis by blast
qed

text \<open>C12. Every request that a connection reads in its turn gets one answer, in the order of the requests and
  under its own id (0 for a line that does not parse), as long as no write failed and the peer stayed: only
  the poll that is suspended is still open. A line that is read while a poll is suspended is dropped and never
  answered. After a failure the answers written are still answers to requests read in their turn, in order,
  none twice.\<close>

theorem answers_in_order:
  assumes "net_step\<^sup>*\<^sup>* (net_start ps st t0) n" and "net_conns n c = Some x"
  shows "subseq (map resp_id (cn_written x)) (asked_in_turn x)
    \<and> (\<not> cn_gone x \<longrightarrow> asked_in_turn x = map resp_id (cn_written x) @
         (case cn_phase x of Polling ident k \<Rightarrow> [ident] | _ \<Rightarrow> []))"
proof -
  have "talk_ok x" using net_reachable_ok [OF assms(1)] assms(2) by (simp add: net_ok_def)
  then show ?thesis
    using subseq_order.order_trans [OF prefix_imp_subseq, of _ "map resp_id (cn_written x) @ unanswered x"]
    by (simp add: talk_ok_def unanswered_def)
qed

theorem answers_in_order_witness:
  "\<exists>x. net_conns (sample_read ''hi'' sample_conn) 0 = Some x \<and> \<not> cn_gone x \<and> cn_asked x = [(0, False)]
     \<and> map resp_id (cn_written x) = [0]"
proof -
  obtain x where x: "net_conns (sample_read ''hi'' sample_conn) 0 = Some x"
    and f: "\<not> cn_gone x" "cn_asked x = [(0, False)]" "cn_phase x = Reading"
    by (simp add: sample_read_def conn_read_def Let_def sample_lines write_body_def fresh_conn_def sample_noted)
  have "net_step\<^sup>*\<^sup>* sample_start (sample_read ''hi'' sample_conn)"
    by (rule sample_read_step [OF sample_conn_fields(2,1)]) (simp_all add: sample_conn_reached)
  from conjunct2 [OF answers_in_order [OF this x]] have "asked_in_turn x = map resp_id (cn_written x)"
    unfolding f(3) conn_phase.case append_Nil2 using f(1) by (rule mp)
  then have "map resp_id (cn_written x) = [0]" by (simp add: asked_in_turn_def f(2))
  with x f show ?thesis by metis
qed

text \<open>C18. A shutdown request reaches every parked session. A suspended poll belongs to exactly one connection.
  The step that takes a shutdown request notifies the poll. A notified poll stays suspended and notified
  through whatever the rest of the process does, until its own connection answers it under the id of its
  request or loses its peer, which ends the poll, or until a timer of it fires and it waits on, which loses the
  notification. As long as it is notified and the process is up it can be answered \<open>Waited\<close> at once.\<close>

theorem shutdown_answers_polls:
  assumes "net_step\<^sup>*\<^sup>* (net_start ps st t0) n" and "sys_polls (net_sys n) k = Some p"
  shows "(\<exists>!c. awaits (net_conns n) c k)
    \<and> (\<exists>c x ident. net_conns n c = Some x \<and> cn_phase x = Polling ident k
         \<and> (\<forall>n'. net_step n n' \<longrightarrow> net_shutdowns n' < net_shutdowns n \<longrightarrow> k \<in> net_notified n')
         \<and> (\<forall>n'. net_step n n' \<longrightarrow> k \<in> net_notified n \<longrightarrow>
               sys_polls (net_sys n') k = Some p \<and> awaits (net_conns n') c k \<and> k \<in> net_notified n'
             \<or> sys_polls (net_sys n') k = None \<and> (\<exists>y. net_conns n' c = Some y
                 \<and> ((\<exists>rb. cn_written y = cn_written x @ [respond ident rb]) \<or> cn_gone y))
             \<or> (\<exists>w clk d q. poll_timer w p clk (net_daemon n) = (d, Suspend q)
                  \<and> sys_polls (net_sys n') k = Some q \<and> k \<notin> net_notified n'))
         \<and> (net_up n \<longrightarrow> k \<in> net_notified n \<longrightarrow>
              (\<forall>(sv::service) line. encode_frame (sv_to_json sv) (respond ident RespWaited) = Inr line \<longrightarrow>
                 (\<exists>n' y. net_step n n' \<and> net_conns n' c = Some y \<and> sys_polls (net_sys n') k = None
                    \<and> cn_written y = cn_written x @ [respond ident RespWaited]))))"
proof (intro conjI)
  have ok: "net_ok n" by (rule net_reachable_ok [OF assms(1)])
  then have own: "owned (sys_polls (net_sys n)) (net_conns n)" by (simp add: net_ok_def)
  then obtain c where c: "awaits (net_conns n) c k" using assms(2) unfolding owned_def by blast
  with own show "\<exists>!c. awaits (net_conns n) c k" unfolding owned_def by blast
  from c obtain x ident where x: "net_conns n c = Some x" "cn_phase x = Polling ident k" by (auto simp: awaits_def)
  have "\<exists>n' y. net_step n n' \<and> net_conns n' c = Some y \<and> sys_polls (net_sys n') k = None
      \<and> cn_written y = cn_written x @ [respond ident RespWaited]"
    if "net_up n" "k \<in> net_notified n" "encode_frame (sv_to_json sv) (respond ident RespWaited) = Inr line" for sv :: service and line
  proof -
    let ?n = "poll_done sv True c x ident k p (net_daemon n) RespWaited n"
    have "net_step n ?n" by (rule poll_released [OF that(1) x assms(2)]) (simp add: that(2))
    moreover have "net_conns ?n c = Some (answer sv True ident RespWaited x)" "sys_polls (net_sys ?n) k = None"
      by (simp_all add: poll_done_def end_poll_def)
    moreover have "cn_written (answer sv True ident RespWaited x) = cn_written x @ [respond ident RespWaited]"
      using that(3) by (simp add: answer_def write_body_def)
    ultimately show ?thesis by blast
  qed
  with x shutdown_notifies [OF _ assms(2)] notified_fate [OF _ ok x assms(2)]
  show "\<exists>c x ident. net_conns n c = Some x \<and> cn_phase x = Polling ident k
      \<and> (\<forall>n'. net_step n n' \<longrightarrow> net_shutdowns n' < net_shutdowns n \<longrightarrow> k \<in> net_notified n')
      \<and> (\<forall>n'. net_step n n' \<longrightarrow> k \<in> net_notified n \<longrightarrow>
            sys_polls (net_sys n') k = Some p \<and> awaits (net_conns n') c k \<and> k \<in> net_notified n'
          \<or> sys_polls (net_sys n') k = None \<and> (\<exists>y. net_conns n' c = Some y
              \<and> ((\<exists>rb. cn_written y = cn_written x @ [respond ident rb]) \<or> cn_gone y))
          \<or> (\<exists>w clk d q. poll_timer w p clk (net_daemon n) = (d, Suspend q)
               \<and> sys_polls (net_sys n') k = Some q \<and> k \<notin> net_notified n'))
      \<and> (net_up n \<longrightarrow> k \<in> net_notified n \<longrightarrow>
           (\<forall>(sv::service) line. encode_frame (sv_to_json sv) (respond ident RespWaited) = Inr line \<longrightarrow>
              (\<exists>n' y. net_step n n' \<and> net_conns n' c = Some y \<and> sys_polls (net_sys n') k = None
                 \<and> cn_written y = cn_written x @ [respond ident RespWaited])))"
    by (intro exI [of _ c] exI [of _ x] exI [of _ ident] conjI allI impI) (assumption | blast)+
qed

theorem shutdown_answers_polls_witness:
  "\<exists>n n'. net_step\<^sup>*\<^sup>* sample_start n \<and> net_step n n' \<and> 0 \<in> net_notified n' \<and> sys_polls (net_sys n') 0 \<noteq> None"
proof -
  obtain n p where n: "net_step\<^sup>*\<^sup>* sample_start n" "net_up n" "net_shutdowns n = 1"
    and p: "sys_polls (net_sys n) 0 = Some p"
    by (rule sample_parked)
  let ?n = "notify_waiters (n\<lparr>net_shutdowns := net_shutdowns n - 1\<rparr>)"
  have step: "net_step n ?n" by (rule request_shutdown) (simp_all add: n)
  have "net_shutdowns ?n < net_shutdowns n" "sys_polls (net_sys ?n) 0 = Some p"
    using p n by (simp_all add: notify_waiters_def)
  with n(1) step shutdown_answers_polls [OF n(1) p] show ?thesis by blast
qed

end
