(* ===== verification/Firing.thy ===== *)
theory Firing
  imports Daemon
begin

text \<open>
  When a fork is fired. The planner's other properties say what a wake may contain; this theory says
  that a fork whose idle deadline has passed is in it (\<open>handle_stop_wait\<close> of
  \<open>crates/autofork-daemon/src/daemon.rs\<close> over \<open>select_forks\<close> of \<open>planner.rs\<close>), and which fork of a
  session can never be in it, whatever deadline passes.
\<close>

section \<open>The refreshed roster\<close>

lemma roster_iff:
  "x \<in> set (roster sid st) \<longleftrightarrow>
     (\<exists>r \<in> set (fork_roster st). r_session_id r = sid \<and>
        x = \<lparr>re_fork_name = r_fork_name r, re_fork_path = r_fork_path r, re_queued_at = r_queued_at r,
             re_ran_at = r_ran_at r\<rparr>)"
  by (auto simp: roster_def)

definition queue_entries :: "string \<Rightarrow> i64 \<Rightarrow> fork_entry list \<Rightarrow> store \<Rightarrow> store" where
  "queue_entries sid t es = fold (\<lambda>e st. fst (queue_fork sid (entry_name e) (entry_path e) t st)) es"

lemma queue_entries_Cons [simp]:
  "queue_entries sid t [] st = st"
  "queue_entries sid t (e # es) st =
     queue_entries sid t es (fst (queue_fork sid (entry_name e) (entry_path e) t st))"
  by (simp_all add: queue_entries_def)

lemma queue_fork_rest [simp]:
  "sessions (fst (queue_fork sid n p t st)) = sessions st"
  "fork_fires (fst (queue_fork sid n p t st)) = fork_fires st"
  "fork_runs (fst (queue_fork sid n p t st)) = fork_runs st"
  by (simp_all add: queue_fork_def case_prod_unfold)

lemma queue_entries_rest [simp]:
  "sessions (queue_entries sid t es st) = sessions st"
  "fork_fires (queue_entries sid t es st) = fork_fires st"
  "fork_runs (queue_entries sid t es st) = fork_runs st"
  by (induction es arbitrary: st) simp_all

definition new_row :: "string \<Rightarrow> i64 \<Rightarrow> fork_entry \<Rightarrow> roster_tbl" where
  "new_row sid t e = \<lparr>r_session_id = sid, r_fork_name = entry_name e, r_fork_path = entry_path e,
     r_queued_at = t, r_ran_at = None\<rparr>"

lemma new_row_key [simp]: "r_session_id (new_row sid t e) = sid" "r_fork_name (new_row sid t e) = entry_name e"
  by (simp_all add: new_row_def)

lemma set_queue_fork:
  "set (fork_roster (fst (queue_fork sid (entry_name e) (entry_path e) t st))) =
     (if \<exists>r \<in> set (fork_roster st). roster_key r = (sid, entry_name e) then set (fork_roster st)
      else insert (new_row sid t e) (set (fork_roster st)))"
  using set_insert_or_ignore [of roster_key "new_row sid t e" "fork_roster st"]
  by (simp add: queue_fork_def case_prod_unfold new_row_def)

text \<open>Queueing keeps every row, adds rows of the entries only, and leaves a row for each entry.\<close>

lemma queue_entries_keeps: "set (fork_roster st) \<subseteq> set (fork_roster (queue_entries sid t es st))"
proof (induction es arbitrary: st)
  case (Cons x xs)
  have "set (fork_roster st) \<subseteq> set (fork_roster (fst (queue_fork sid (entry_name x) (entry_path x) t st)))"
    by (auto simp: set_queue_fork)
  also note Cons
  finally show ?case by simp
qed simp

lemma queue_entries_adds:
  "set (fork_roster (queue_entries sid t es st)) \<subseteq> set (fork_roster st) \<union> new_row sid t ` set es"
proof (induction es arbitrary: st)
  case (Cons x xs)
  have "set (fork_roster (fst (queue_fork sid (entry_name x) (entry_path x) t st))) \<subseteq>
      insert (new_row sid t x) (set (fork_roster st))"
    by (auto simp: set_queue_fork)
  with Cons [of "fst (queue_fork sid (entry_name x) (entry_path x) t st)"] show ?case by auto
qed simp

lemma queue_entries_has:
  "e \<in> set es \<Longrightarrow> \<exists>r \<in> set (fork_roster (queue_entries sid t es st)). roster_key r = (sid, entry_name e)"
proof (induction es arbitrary: st)
  case (Cons x xs)
  let ?st = "fst (queue_fork sid (entry_name x) (entry_path x) t st)"
  show ?case
  proof (cases "e = x")
    case True
    have "\<exists>r \<in> set (fork_roster ?st). roster_key r = (sid, entry_name x)"
      by (auto simp: set_queue_fork)
    with True show ?thesis using queue_entries_keeps [of ?st sid t xs] by fastforce
  next
    case False
    with Cons show ?thesis by simp
  qed
qed simp

lemma queue_entries_tags [simp]:
  "last_run_for_tags root tgs (queue_entries sid t es st) = last_run_for_tags root tgs st"
  by (simp add: last_run_for_tags_def tagged_runs_def)

lemma refresh_roster_eq:
  "refresh_roster w sid dir t d =
     with_store (queue_entries sid t
       (fst (discover_forks (w_from_yaml w) (w_fs w) dir (Some (user_forks_root d))))) d"
  by (simp add: refresh_roster_def queue_entries_def Let_def)

lemma refresh_rest [simp]:
  "is_latched x n k (the_store (refresh_roster w sid dir t d)) = is_latched x n k (the_store d)"
  "tag_throttled cfg root tgs t' (the_store (refresh_roster w sid dir t d)) =
     tag_throttled cfg root tgs t' (the_store d)"
  "user_forks_root (refresh_roster w sid dir t d) = user_forks_root d"
  by (simp_all add: refresh_roster_eq is_latched_def tag_throttled_def user_forks_root_def with_store_def
      cong: option.case_cong)

section \<open>Forks that may fire\<close>

text \<open>The entries a session sees.\<close>

definition visible :: "world \<Rightarrow> session_row \<Rightarrow> daemon \<Rightarrow> fork_entry list" where
  "visible w s d = fst (discover_forks (w_from_yaml w) (w_fs w) (cwd s) (Some (user_forks_root d)))"

lemma visible_sound:
  assumes "e \<in> set (visible w s d)"
  shows "entry_sound (w_from_yaml w) (w_fs w) e"
    and "e' \<in> set (visible w s d) \<Longrightarrow> entry_name e' = entry_name e \<Longrightarrow> e' = e"
  using discover_forks_sound [of "w_from_yaml w" "w_fs w" "cwd s" "Some (user_forks_root d)"] assms
  by (auto simp: visible_def list_all_iff distinct_map dest: inj_onD)

text \<open>A fork that the session queued earlier was queued from the file it has now.\<close>

definition settled :: "string \<Rightarrow> store \<Rightarrow> fork_entry \<Rightarrow> bool" where
  "settled sid st e \<longleftrightarrow>
     list_all (\<lambda>r. re_fork_name r = entry_name e \<longrightarrow> re_fork_path r = entry_path e) (roster sid st)"

text \<open>Nothing holds the fork back: its tags are enabled, no throttle covers it, and it has not fired in
  this pause or for one of its thresholds.\<close>

definition unblocked :: "session_row \<Rightarrow> config \<Rightarrow> i64 \<Rightarrow> store \<Rightarrow> fork_entry \<Rightarrow> bool" where
  "unblocked s cfg t st e \<longleftrightarrow>
     (let fd = def (entry_parsed e)
      in tags_allowed (tags fd) (effective_enable s cfg) (effective_disable s cfg)
       \<and> list_all (\<lambda>r. re_fork_name r = entry_name e \<longrightarrow> \<not> fork_throttled fd r t) (roster (session_id s) st)
       \<and> \<not> tag_throttled cfg (project_root s) (tags fd) t st
       \<and> list_all (\<lambda>trigger. case latch_key_for trigger (pause_epoch s) of
                        Some k \<Rightarrow> \<not> is_latched (session_id s) (entry_name e) k st
                      | None \<Rightarrow> True) (run_on fd))"

text \<open>A refresh adds the visible forks as they are, never run.\<close>

lemma refresh_rows:
  assumes e: "e \<in> set (visible w s d)" and x: "x \<in> set (roster (session_id s)
      (the_store (refresh_roster w (session_id s) (cwd s) t d)))" "re_fork_name x = entry_name e"
  shows "x \<in> set (roster (session_id s) (the_store d)) \<or> re_fork_path x = entry_path e \<and> re_ran_at x = None"
proof -
  let ?st = "queue_entries (session_id s) t (visible w s d) (the_store d)"
  have "x \<in> set (roster (session_id s) ?st)"
    using x(1) by (simp add: refresh_roster_eq visible_def)
  then obtain r where r: "r \<in> set (fork_roster ?st)" "r_session_id r = session_id s"
    "x = \<lparr>re_fork_name = r_fork_name r, re_fork_path = r_fork_path r, re_queued_at = r_queued_at r,
          re_ran_at = r_ran_at r\<rparr>"
    unfolding roster_iff by blast
  consider "r \<in> set (fork_roster (the_store d))"
    | e' where "e' \<in> set (visible w s d)" "r = new_row (session_id s) t e'"
    using r(1) queue_entries_adds by blast
  then show ?thesis
  proof cases
    case 1
    with r show ?thesis by (auto simp: roster_iff)
  next
    case 2
    with r(3) x(2) visible_sound(2) [OF e] show ?thesis by (auto simp: new_row_def)
  qed
qed

lemma refresh_has:
  assumes "e \<in> set (visible w s d)"
  shows "\<exists>x \<in> set (roster (session_id s) (the_store (refresh_roster w (session_id s) (cwd s) t d))).
    re_fork_name x = entry_name e"
proof -
  from queue_entries_has [OF assms] obtain r where
    "r \<in> set (fork_roster (queue_entries (session_id s) t (visible w s d) (the_store d)))"
    "roster_key r = (session_id s, entry_name e)" by blast
  then show ?thesis
    by (intro bexI [of _ "\<lparr>re_fork_name = r_fork_name r, re_fork_path = r_fork_path r,
        re_queued_at = r_queued_at r, re_ran_at = r_ran_at r\<rparr>"])
      (auto simp: refresh_roster_eq roster_iff visible_def)
qed

lemma refresh_keeps:
  assumes "e \<in> set (visible w s d)"
  shows "settled (session_id s) (the_store d) e \<Longrightarrow>
      settled (session_id s) (the_store (refresh_roster w (session_id s) (cwd s) t d)) e"
    and "unblocked s cfg t' (the_store d) e \<Longrightarrow>
      unblocked s cfg t' (the_store (refresh_roster w (session_id s) (cwd s) t d)) e"
  using refresh_rows [OF assms, of _ t]
  by (fastforce simp: settled_def unblocked_def list_all_iff Let_def fork_throttled_def split: option.splits)+

section \<open>Selection is complete\<close>

text \<open>The file of a queued visible fork, as the loop over the roster reads it.\<close>

lemma settled_read:
  assumes "e \<in> set (visible w s d)" and "settled sid st e"
    and "x \<in> set (roster sid st)" and "re_fork_name x = entry_name e"
  obtains content where "read_to_string (w_fs w) (re_fork_path x) = Inr content"
    "parse_fork_file (w_from_yaml w) (re_fork_name x) content = Fork (entry_parsed e)"
proof -
  have "re_fork_path x = entry_path e"
    using assms(2-4) by (auto simp: settled_def list_all_iff)
  with visible_sound(1) [OF assms(1)] assms(4) show thesis
    by (auto simp: entry_sound_def intro: that)
qed

lemma select_complete:
  assumes e: "e \<in> set (visible w s d)" and st: "settled (session_id s) (the_store d) e"
    and free: "unblocked s cfg t (the_store d) e"
    and hit: "m \<in> set ms" "trigger \<in> set (run_on (def (entry_parsed e)))"
      "hit (default_idle_deadline_secs cfg) m trigger"
  shows "entry_name e \<in> sel_name ` set (snd (select_forks w s cfg ms tq t d))"
proof -
  let ?d = "refresh_roster w (session_id s) (cwd s) tq d" and ?fd = "def (entry_parsed e)"
  note st' = refresh_keeps(1) [OF e st, of tq] and free' = refresh_keeps(2) [OF e free, of tq]
  from refresh_has [OF e, of tq] obtain x where x: "x \<in> set (roster (session_id s) (the_store ?d))"
    "re_fork_name x = entry_name e" by blast
  from settled_read [OF e st' x] obtain content where
    contents: "read_to_string (w_fs w) (re_fork_path x) = Inr content"
      "parse_fork_file (w_from_yaml w) (re_fork_name x) content = Fork (entry_parsed e)" .
  obtain c where c: "match_moments ?fd ms (default_idle_deadline_secs cfg) = Some c"
    using hit match_moments_None by fastforce
  then have "c \<in> set (run_on ?fd)" using match_moments_Some by blast
  with free' x c have "\<exists>y. select_entry w s cfg ms t (the_store ?d) x = Some y \<and> sel_name y = entry_name e"
    by (auto simp: select_entry_def contents [unfolded x(2)] Let_def unblocked_def list_all_iff split: option.splits)
  with x(1) show ?thesis
    by (force simp: select_forks_def Let_def set_map_filter)
qed

section \<open>From the request to the wake\<close>

text \<open>A response that wakes the session for a fork: it names it among those to spawn or to hold.\<close>

definition wakes_for :: "session_row \<Rightarrow> string \<Rightarrow> poll_result \<Rightarrow> bool" where
  "wakes_for s name res \<longleftrightarrow>
     (\<exists>rts held. res = Answer (RespWake (build_wake_payload (session_id s) (conversation_id s)
                                       (project_root s) rts held))
        \<and> name \<in> due_name ` set rts \<union> held_name ` set held)"

text \<open>The moments a poll has seen by now.\<close>

abbreviation poll_moments :: "poll \<Rightarrow> i64 \<Rightarrow> fork_moment list" where
  "poll_moments p now \<equiv>
     elapsed_moments (poll_tokens p) (poll_max_tokens p) (poll_baseline p) (poll_deadlines p) now"

lemma wake_lists_names:
  "sel_name ` set selected = due_name ` set (wake_roots selected) \<union> held_name ` set (wake_held selected)"
  using arg_cong [OF wake_names, of set_mset selected] by simp

lemma issue_wakes:
  assumes "name \<in> sel_name ` set (snd (select_forks w (poll_session p) (poll_cfg p) (poll_moments p (clk 0)) (clk 1) (clk 2) d))"
  shows "wakes_for (poll_session p) name (snd (issue w p clk d))"
proof -
  let ?r = "select_forks w (poll_session p) (poll_cfg p) (poll_moments p (clk 0)) (clk 1) (clk 2) d"
  from assms have "snd ?r \<noteq> []" by auto
  then have "snd (issue w p clk d) = Answer (RespWake (build_wake_payload (session_id (poll_session p))
      (conversation_id (poll_session p)) (project_root (poll_session p)) (wake_roots (snd ?r)) (wake_held (snd ?r))))"
    by (simp add: issue_def Let_def case_prod_unfold build_wake_eq)
  with assms show ?thesis unfolding wakes_for_def wake_lists_names by blast
qed

text \<open>The paths of the daemon never change while a poll begins, so the poll's deadlines are those of the
  forks its session sees.\<close>

lemma paths_ops [simp]:
  "paths_of (touch_busy t d) = paths_of d" "paths_of (clear_pending_close sid d) = paths_of d"
  "paths_of (fst (ingest_transcript w ev t d)) = paths_of d" "paths_of (register_wait sid k d) = paths_of d"
  "paths_of (park_new sid d) = paths_of d"
  by (simp_all add: touch_busy_def clear_pending_close_def ingest_transcript_def register_wait_def park_new_def
      split: option.split)

lemma visible_paths: "paths_of d = paths_of d' \<Longrightarrow> visible w s d = visible w s d'"
  by (simp add: visible_def user_forks_root_def)

lemma release_paths [simp]: "paths_of (fst (release_due s t d)) = paths_of d"
  by (simp add: release_due_def note_wake_issued_def Let_def)

definition deadlines_of :: "world \<Rightarrow> config \<Rightarrow> session_row \<Rightarrow> daemon \<Rightarrow> u64 list" where
  "deadlines_of w cfg s d =
     idle_deadlines (map (\<lambda>e. def (entry_parsed e)) (visible w s d)) (default_idle_deadline_secs cfg)"

lemma fresh_poll_fields:
  "poll_session (fresh_poll w cfg toks t s d) = s" "poll_cfg (fresh_poll w cfg toks t s d) = cfg"
  "poll_deadlines (fresh_poll w cfg toks t s d) = deadlines_of w cfg s d"
  by (simp_all add: fresh_poll_def deadlines_of_def visible_def Let_def)

lemma debounce_phase: "debounce w p clk d = (d', Suspend q) \<Longrightarrow> \<exists>ph. q = p\<lparr>poll_phase := ph\<rparr>"
  by (auto simp: issue_def debounce_def Let_def case_prod_unfold split: option.splits if_splits)

lemma stop_registered_paths [simp]: "paths_of (stop_registered w ev k clk d) = paths_of d"
  by (simp add: stop_registered_def stop_ingested_def stop_recorded_def Let_def)

lemma begin_fresh:
  assumes "stop_wait_begin w ev k clk d = (d', Suspend p)"
  shows "\<exists>s d1 ph. p = (stop_poll w ev clk d s d1)\<lparr>poll_phase := ph\<rparr> \<and> paths_of d1 = paths_of d"
proof -
  let ?d3 = "\<lambda>s. fst (release_due s (clk 3) (stop_registered w ev k clk d))"
  let ?p = "\<lambda>s. stop_poll w ev clk d s (?d3 s)"
  from assms obtain s where
    "debounce w (?p s) (\<lambda>i. clk (7 + i)) (fst (due_now w (?p s) (\<lambda>i. clk (4 + i)) (?d3 s))) = (d', Suspend p)
     \<or> p = await (?p s) (poll_deadlines (?p s))"
    by (auto simp: stop_wait_begin_eq case_prod_unfold Let_def split: bool.splits option.splits)
  then obtain ph where "p = (?p s)\<lparr>poll_phase := ph\<rparr>"
    using debounce_phase unfolding await_def by blast
  moreover have "paths_of (?d3 s) = paths_of d" by simp
  ultimately show ?thesis by blast
qed

lemma begin_deadlines:
  assumes "stop_wait_begin w ev k clk d = (d', Suspend p)"
  shows "poll_deadlines p = deadlines_of w (poll_cfg p) (poll_session p) d"
proof -
  from begin_fresh [OF assms] obtain s d1 ph where
    "p = (stop_poll w ev clk d s d1)\<lparr>poll_phase := ph\<rparr>" "paths_of d1 = paths_of d" by blast
  then show ?thesis by (simp add: stop_poll_def fresh_poll_fields deadlines_of_def visible_paths [of d1 d])
qed

lemma deadlines_of_idle:
  assumes "e \<in> set (visible w s d)" and "Idle a \<in> set (run_on (def (entry_parsed e)))"
    and "0 < effective_idle a (default_idle_deadline_secs cfg)"
  shows "effective_idle a (default_idle_deadline_secs cfg) \<in> set (deadlines_of w cfg s d)"
  using assms by (auto simp: deadlines_of_def set_idle_deadlines wanted_deadlines_def)

section \<open>Due forks are fired\<close>

lemma due_now_True:
  assumes "m \<in> set (poll_moments p (clk 0))"
    and "name \<in> sel_name ` set (snd (select_forks w (poll_session p) (poll_cfg p) (poll_moments p (clk 0))
          (clk 1) (clk 2) d))"
  shows "due_now w p clk d =
    (refresh_roster w (session_id (poll_session p)) (cwd (poll_session p)) (clk 1) d, True)"
proof -
  have "poll_moments p (clk 0) \<noteq> []" using assms(1) by auto
  moreover have "snd (select_forks w (poll_session p) (poll_cfg p) (poll_moments p (clk 0)) (clk 1) (clk 2) d) \<noteq> []"
    using assms(2) by auto
  ultimately show ?thesis by (simp add: due_now_def Let_def case_prod_unfold select_forks_fst)
qed

text \<open>A fork is due for a poll: its session sees it, no other file is queued under its name, nothing holds
  it back, and a moment the poll has reached by \<open>now\<close> hits one of its triggers.\<close>

definition fork_due :: "world \<Rightarrow> poll \<Rightarrow> i64 \<Rightarrow> i64 \<Rightarrow> daemon \<Rightarrow> fork_entry \<Rightarrow> bool" where
  "fork_due w p now t d e \<longleftrightarrow>
     List.member (visible w (poll_session p) d) e
   \<and> settled (session_id (poll_session p)) (the_store d) e
   \<and> unblocked (poll_session p) (poll_cfg p) t (the_store d) e
   \<and> list_ex (\<lambda>m. list_ex (hit (default_idle_deadline_secs (poll_cfg p)) m) (run_on (def (entry_parsed e))))
       (poll_moments p now)"

lemma fork_due_selected:
  assumes "fork_due w p now t d e"
  shows "entry_name e \<in> sel_name ` set (snd (select_forks w (poll_session p) (poll_cfg p) (poll_moments p now) tq t d))"
  using assms select_complete [of e w "poll_session p" d "poll_cfg p" t _ "poll_moments p now"]
  by (auto simp: fork_due_def list_ex_iff)

lemma fork_due_moment: "fork_due w p now t d e \<Longrightarrow> poll_moments p now \<noteq> []"
  by (auto simp: fork_due_def)

lemma fork_due_phase [simp]: "fork_due w (p\<lparr>poll_phase := ph\<rparr>) now t d e = fork_due w p now t d e"
  by (simp add: fork_due_def)

text \<open>A refresh of the roster leaves a fork due.\<close>

lemma fork_due_refresh:
  "fork_due w p now t d e \<Longrightarrow>
   fork_due w p now t (refresh_roster w (session_id (poll_session p)) (cwd (poll_session p)) tq d) e"
  using refresh_keeps [of e w "poll_session p" d] by (simp add: fork_due_def visible_def)

lemma issue_due: "fork_due w p (clk 0) (clk 2) d e \<Longrightarrow> wakes_for (poll_session p) (entry_name e) (snd (issue w p clk d))"
  by (rule issue_wakes [OF fork_due_selected])

text \<open>The wake a poll owes a fork: it is given at once; or the poll enters the debounce window, and the
  timer that ends the window gives it, whatever has happened meanwhile, if the fork is due then.\<close>

definition owes_wake :: "poll \<Rightarrow> fork_entry \<Rightarrow> poll_result \<Rightarrow> bool" where
  "owes_wake p e res \<longleftrightarrow>
     wakes_for (poll_session p) (entry_name e) res
     \<or> 0 < wake_debounce_secs (poll_cfg p)
       \<and> (\<exists>q. res = Suspend q \<and> q = p\<lparr>poll_phase := Debounce\<rparr>
            \<and> (\<forall>w clk d. fork_due w q (clk 0) (clk 2) d e \<longrightarrow>
                 wakes_for (poll_session p) (entry_name e) (snd (poll_timer w q clk d))))"

text \<open>An evaluation that finds a fork due is followed by its wake: in between only the roster was
  refreshed.\<close>

lemma due_then_woken:
  assumes "fork_due w p (c 0) (c 2) d e" and "fork_due w p (c' 0) (c' 2) d e"
  shows "snd (due_now w p c d)"
    and "owes_wake p e (snd (debounce w p c' (fst (due_now w p c d))))"
proof -
  let ?s = "poll_session p"
  let ?d = "refresh_roster w (session_id ?s) (cwd ?s) (c 1) d"
  from fork_due_moment [OF assms(1)] obtain m where m: "m \<in> set (poll_moments p (c 0))" by fastforce
  have due: "due_now w p c d = (?d, True)" by (rule due_now_True [OF m fork_due_selected [OF assms(1)]])
  then show "snd (due_now w p c d)" by simp
  have at_once: "wakes_for ?s (entry_name e) (snd (issue w p c' ?d))"
    by (rule issue_due [OF fork_due_refresh [OF assms(2)]])
  have later: "wakes_for ?s (entry_name e) (snd (poll_timer w' (p\<lparr>poll_phase := Debounce\<rparr>) clk d'))"
    if "fork_due w' (p\<lparr>poll_phase := Debounce\<rparr>) (clk 0) (clk 2) d' e" for w' clk d'
    using issue_due [OF that] by simp
  from at_once later show "owes_wake p e (snd (debounce w p c' (fst (due_now w p c d))))"
    by (simp add: due owes_wake_def debounce_def)
qed

lemma elapsed_mono: "now \<le> now' \<Longrightarrow> set (elapsed_moments toks mx b ds now) \<subseteq> set (elapsed_moments toks mx b ds now')"
  by (auto simp: elapsed_moments_def split: option.split)

text \<open>A deadline that has passed is a moment of the poll.\<close>

lemma fork_due_idle:
  assumes "e \<in> set (visible w (poll_session p) d)" and "Idle a \<in> set (run_on (def (entry_parsed e)))"
    and "settled (session_id (poll_session p)) (the_store d) e"
    and "unblocked (poll_session p) (poll_cfg p) t (the_store d) e"
    and "effective_idle a (default_idle_deadline_secs (poll_cfg p)) = dl" and "0 < dl"
    and "dl \<in> set (poll_deadlines p)" and "i64_add (poll_baseline p) (u64_as_i64 dl) \<le> now"
  shows "fork_due w p now t d e"
proof -
  have "IdleMoment dl \<in> set (poll_moments p now)" using assms by (simp add: elapsed_idle)
  moreover have "hit (default_idle_deadline_secs (poll_cfg p)) (IdleMoment dl) (Idle a)" using assms by simp
  ultimately have "\<exists>m \<in> set (poll_moments p now). \<exists>x \<in> set (run_on (def (entry_parsed e))).
      hit (default_idle_deadline_secs (poll_cfg p)) m x"
    using assms(2) by blast
  with assms(1,3,4) show ?thesis by (simp add: fork_due_def list_ex_iff)
qed

text \<open>The timer of a poll whose fork is due.\<close>

lemma timer_owes:
  assumes "fork_due w p (clk 0) (clk 2) d e" and "fork_due w p (clk 3) (clk 5) d e"
  shows "owes_wake p e (snd (poll_timer w (p\<lparr>poll_phase := Deadlines ds\<rparr>) clk d))"
proof -
  let ?q = "p\<lparr>poll_phase := Deadlines ds\<rparr>"
  have "snd (due_now w ?q clk d)" "owes_wake ?q e (snd (debounce w ?q (\<lambda>i. clk (3 + i)) (fst (due_now w ?q clk d))))"
    using due_then_woken [of w ?q clk d e "\<lambda>i. clk (3 + i)"] assms by simp_all
  then show ?thesis by (simp add: owes_wake_def case_prod_unfold split: bool.splits)
qed

text \<open>C3. A fork whose idle deadline has passed is fired. Let a Stop have parked its poll when the session saw
  some fork with that deadline, and let one of the poll's timers fire when the deadline of a fork that the
  session sees then has passed since the baseline of the pause; the files may have changed in between. If
  nothing holds the fork back (its tags are enabled, it is not throttled, neither this pause nor one of its
  thresholds has fired it, and the session has no other path queued under its name), the poll answers with a
  wake that names it, or it enters the debounce window, and the timer that ends the window answers with
  such a wake under the same conditions.\<close>

theorem idle_fork_woken:
  assumes started: "stop_wait_begin w0 ev k clk0 d0 = (d1, Suspend p)" and home: "paths_of d = paths_of d0"
    and seen: "e_then \<in> set (visible w0 (poll_session p) d0)" "Idle a_then \<in> set (run_on (def (entry_parsed e_then)))"
      "effective_idle a_then (default_idle_deadline_secs (poll_cfg p)) = dl"
    and q: "q = p\<lparr>poll_phase := ph\<rparr>" "ph \<noteq> ParkedForever"
    and e: "e \<in> set (visible w (poll_session p) d)" "Idle a \<in> set (run_on (def (entry_parsed e)))"
    and dl: "effective_idle a (default_idle_deadline_secs (poll_cfg p)) = dl" "0 < dl"
    and passed: "i64_add (poll_baseline p) (u64_as_i64 dl) \<le> clk 0" "clk 0 \<le> clk 3"
    and st: "settled (session_id (poll_session p)) (the_store d) e"
    and free: "unblocked (poll_session p) (poll_cfg p) (clk 2) (the_store d) e"
      "unblocked (poll_session p) (poll_cfg p) (clk 5) (the_store d) e"
  shows "if ph = Debounce then wakes_for (poll_session p) (entry_name e) (snd (poll_timer w q clk d))
    else owes_wake p e (snd (poll_timer w q clk d))"
proof -
  have mem: "dl \<in> set (poll_deadlines p)"
    using begin_deadlines [OF started] deadlines_of_idle [OF seen(1,2), of "poll_cfg p"] seen(3) dl(2) by simp
  have due: "fork_due w p (clk 0) (clk 2) d e" by (rule fork_due_idle [OF e st free(1) dl mem passed(1)])
  have due': "fork_due w p (clk 3) (clk 5) d e" by (rule fork_due_idle [OF e st free(2) dl mem]) (use passed in simp)
  show ?thesis
  proof (cases ph)
    case Debounce
    with due issue_due [of w q clk d e] show ?thesis by (simp add: q(1))
  next
    case (Deadlines ds)
    with q(1) timer_owes [OF due due'] show ?thesis by simp
  qed (use q in simp)
qed

text \<open>The sample session stops at time 9; its fork is due ten minutes later.\<close>

definition sample_visible :: fork_entry where
  "sample_visible = sample_entry ''/p/.autofork/forks/a.md'' ''/p/.autofork/forks''"

lemma sample_due:
  "case stop_wait_begin sample_world sample_stop 0 (\<lambda>_. 9) sample_daemon of
     (d, Answer r) \<Rightarrow> False
   | (d, Suspend p) \<Rightarrow>
       paths_of d = paths_of sample_daemon \<and> poll_baseline p = 9 \<and> default_idle_deadline_secs (poll_cfg p) = 600
     \<and> sample_visible \<in> set (visible sample_world (poll_session p) d)
     \<and> settled (session_id (poll_session p)) (the_store d) sample_visible
     \<and> unblocked (poll_session p) (poll_cfg p) 700 (the_store d) sample_visible"
  by code_simp

theorem idle_fork_woken_witness:
  "\<exists>d p. stop_wait_begin sample_world sample_stop 0 (\<lambda>_. 9) sample_daemon = (d, Suspend p)
     \<and> wakes_for (poll_session p) ''a'' (snd (poll_timer sample_world (p\<lparr>poll_phase := Debounce\<rparr>) (\<lambda>_. 700) d))"
proof -
  obtain d p where p: "stop_wait_begin sample_world sample_stop 0 (\<lambda>_. 9) sample_daemon = (d, Suspend p)"
    using sample_due by (auto split: prod.splits poll_result.splits)
  have e: "entry_name sample_visible = ''a''" "Idle None \<in> set (run_on (def (entry_parsed sample_visible)))"
    by (simp_all add: sample_visible_def sample_entry_def default_fork_def_def default_run_on_def)
  have passed: "i64_add 9 (u64_as_i64 600) \<le> 700" by code_simp
  from sample_due p have "paths_of d = paths_of sample_daemon" "poll_baseline p = 9"
    "default_idle_deadline_secs (poll_cfg p) = 600"
    "sample_visible \<in> set (visible sample_world (poll_session p) d)"
    "settled (session_id (poll_session p)) (the_store d) sample_visible"
    "unblocked (poll_session p) (poll_cfg p) 700 (the_store d) sample_visible"
    by simp_all
  moreover from this have "sample_visible \<in> set (visible sample_world (poll_session p) sample_daemon)"
    using visible_paths [of d sample_daemon] by simp
  ultimately
  have "wakes_for (poll_session p) ''a'' (snd (poll_timer sample_world (p\<lparr>poll_phase := Debounce\<rparr>) (\<lambda>_. 700) d))"
    using idle_fork_woken [OF p, where d = d and e_then = sample_visible and a_then = None and dl = 600 and ph = Debounce
        and q = "p\<lparr>poll_phase := Debounce\<rparr>" and w = sample_world and e = sample_visible and a = None
        and clk = "\<lambda>_. 700"] e passed
    by (simp add: effective_idle_def del: poll_timer.simps)
  with p show ?thesis by blast
qed

text \<open>Releasing held forks leaves what may hold another fork back.\<close>

lemma fold_delete_rest:
  "fork_roster (fold (\<lambda>dep. delete_pending_dep sid (pd_fork_name dep)) ds st) = fork_roster st"
  "fork_fires (fold (\<lambda>dep. delete_pending_dep sid (pd_fork_name dep)) ds st) = fork_fires st"
  "fork_runs (fold (\<lambda>dep. delete_pending_dep sid (pd_fork_name dep)) ds st) = fork_runs st"
  "sessions (fold (\<lambda>dep. delete_pending_dep sid (pd_fork_name dep)) ds st) = sessions st"
  by (induction ds arbitrary: st) (simp_all add: delete_pending_dep_def)

lemma released_same:
  assumes "release_due s t d = (d', answer)"
  shows "roster sid (the_store d') = roster sid (the_store d)"
    and "is_latched sid n k (the_store d') = is_latched sid n k (the_store d)"
    and "tag_throttled cfg root tgs t' (the_store d') = tag_throttled cfg root tgs t' (the_store d)"
proof -
  have "fork_roster (the_store d') = fork_roster (the_store d) \<and> fork_fires (the_store d') = fork_fires (the_store d)
      \<and> fork_runs (the_store d') = fork_runs (the_store d) \<and> sessions (the_store d') = sessions (the_store d)"
    using assms
    by (auto simp: release_due_def Let_def note_wake_issued_def with_store_def fold_delete_rest split: if_splits)
  then show "roster sid (the_store d') = roster sid (the_store d)"
    "is_latched sid n k (the_store d') = is_latched sid n k (the_store d)"
    "tag_throttled cfg root tgs t' (the_store d') = tag_throttled cfg root tgs t' (the_store d)"
    by (simp_all add: roster_def is_latched_def tag_throttled_def last_run_for_tags_def tagged_runs_def
        cong: option.case_cong)
qed

text \<open>C4. A fork that is due when a turn ends is fired by that Stop. Let the transcript's gauge above one of its
  thresholds, or an idle deadline that passed earlier in the pause, make a visible fork due that nothing holds
  back (as in C3). If held dependents are released, the Stop answers with these alone, and nothing holds the
  fork back afterwards either; otherwise the poll answers with a wake that names the fork, or it enters the
  debounce window, and the timer that ends the window answers with such a wake if the fork is still due.\<close>

theorem due_at_stop_woken:
  assumes d2: "d2 = stop_registered w ev k clk d" and p: "p = stop_poll w ev clk d s d2"
    and s: "get_session (ev_session_id ev) (the_store d2) = Some s"
    and due: "fork_due w p (clk 4) (clk 6) d2 e" "fork_due w p (clk 7) (clk 9) d2 e"
  shows "case release_due s (clk 3) d2 of
      (d3, Some payload) \<Rightarrow> stop_wait_begin w ev k clk d = (d3, Answer (RespWake payload))
        \<and> settled (session_id s) (the_store d3) e \<and> unblocked s (poll_cfg p) (clk 6) (the_store d3) e
    | (d3, None) \<Rightarrow> owes_wake p e (snd (stop_wait_begin w ev k clk d))"
proof (cases "release_due s (clk 3) d2")
  case (Pair d3 answer)
  let ?c = "\<lambda>i. clk (4 + i)" and ?c' = "\<lambda>i. clk (7 + i)"
  have s': "poll_session p = s" by (simp add: p stop_poll_def fresh_poll_fields)
  have begin_eq: "stop_wait_begin w ev k clk d = (case (d3, answer) of
        (d3, Some payload) \<Rightarrow> (d3, Answer (RespWake payload))
      | (d3, None) \<Rightarrow> (let p = stop_poll w ev clk d s d3
          in (case due_now w p ?c d3 of
                (d4, True) \<Rightarrow> debounce w p ?c' d4 | (d4, False) \<Rightarrow> (d4, Suspend (await p (poll_deadlines p))))))"
    unfolding stop_wait_begin_eq Let_def d2 [symmetric] using s Pair by simp
  show ?thesis
  proof (cases answer)
    case None
    with Pair have d3: "d3 = d2" by (auto simp: release_due_def Let_def split: if_splits)
    have "snd (due_now w p ?c d2)" "owes_wake p e (snd (debounce w p ?c' (fst (due_now w p ?c d2))))"
      using due_then_woken [of w p ?c d2 e ?c'] due by simp_all
    then show ?thesis using None Pair begin_eq by (simp add: d3 p [symmetric] case_prod_unfold)
  next
    case (Some payload)
    have "settled (session_id s) (the_store d3) e" "unblocked s (poll_cfg p) (clk 6) (the_store d3) e"
      using due(1) s' released_same [OF Pair] 
      by (simp_all add: fork_due_def settled_def unblocked_def Let_def cong: option.case_cong)
    then show ?thesis using Some Pair begin_eq by simp
  qed
qed

text \<open>The sample session stops again at time 700, in the same pause.\<close>

definition sample_parked :: daemon where
  "sample_parked = fst (stop_wait_begin sample_world sample_stop 0 (\<lambda>_. 9) sample_daemon)"

lemma sample_due_at_stop:
  "let d2 = stop_registered sample_world sample_stop 1 (\<lambda>_. 700) sample_parked
   in (case get_session ''s'' (the_store d2) of
         None \<Rightarrow> False
       | Some s \<Rightarrow>
           (let p = stop_poll sample_world sample_stop (\<lambda>_. 700) sample_parked s d2
            in filter (releasable (session_id s) (the_store d2)) (list_pending_deps (session_id s) (the_store d2)) = []
             \<and> fork_due sample_world p 700 700 d2 sample_visible))"
  by code_simp

theorem due_at_stop_woken_witness:
  "\<exists>p. owes_wake p sample_visible (snd (stop_wait_begin sample_world sample_stop 1 (\<lambda>_. 700) sample_parked))"
proof -
  let ?d2 = "stop_registered sample_world sample_stop 1 (\<lambda>_. 700) sample_parked"
  let ?p = "\<lambda>s. stop_poll sample_world sample_stop (\<lambda>_. 700) sample_parked s ?d2"
  have sid: "ev_session_id sample_stop = ''s''" by (simp add: sample_stop_def sample_event_def)
  from sample_due_at_stop obtain s where s: "get_session (ev_session_id sample_stop) (the_store ?d2) = Some s"
    and none: "filter (releasable (session_id s) (the_store ?d2)) (list_pending_deps (session_id s) (the_store ?d2)) = []"
    and due: "fork_due sample_world (?p s) 700 700 ?d2 sample_visible"
    by (auto simp: Let_def sid split: option.splits)
  have "release_due s 700 ?d2 = (?d2, None)" using none by (simp add: release_due_def Let_def)
  with due_at_stop_woken [OF refl refl s due due] show ?thesis by auto
qed

section \<open>Every deadline has its timer\<close>

text \<open>A parked poll after \<open>n\<close> timers, the \<open>i\<close>-th with the clock \<open>clks i\<close>, on the state \<open>dm i\<close> the daemon and \<open>ws i\<close>
  its surroundings have then.\<close>

fun poll_after :: "(nat \<Rightarrow> world) \<Rightarrow> (nat \<Rightarrow> nat \<Rightarrow> i64) \<Rightarrow> (nat \<Rightarrow> daemon) \<Rightarrow> poll \<Rightarrow> nat \<Rightarrow> poll_result" where
  "poll_after ws clks dm p 0 = Suspend p"
| "poll_after ws clks dm p (Suc n) =
     (case poll_after ws clks dm p n of
        Answer r \<Rightarrow> Answer r
      | Suspend q \<Rightarrow> snd (poll_timer (ws n) q (clks n) (dm n)))"

lemma due_now_phase [simp]: "due_now w (p\<lparr>poll_phase := ph\<rparr>) clk d = due_now w p clk d"
  by (simp add: due_now_def Let_def)

lemma begin_waits:
  assumes "stop_wait_begin w ev k clk d = (d', Suspend p)" and "poll_phase p = Deadlines ds"
  shows "ds = poll_deadlines p"
proof -
  have "poll_phase q \<noteq> Deadlines ds" if "debounce w x c y = (d', Suspend q)" for x c y q
    using that by (auto simp: debounce_def issue_def Let_def case_prod_unfold split: if_splits option.splits)
  with assms show ?thesis
    by (auto simp: stop_wait_begin_eq Let_def case_prod_unfold await_def split: option.splits bool.splits if_splits)
qed

lemma poll_marches:
  assumes "poll_phase p = Deadlines (poll_deadlines p)" and "n < length (poll_deadlines p)"
    and "\<forall>i < n. \<not> snd (due_now (ws i) p (clks i) (dm i))"
  shows "poll_after ws clks dm p n = Suspend (p\<lparr>poll_phase := Deadlines (drop n (poll_deadlines p))\<rparr>)"
  using assms(2,3)
proof (induction n)
  case 0
  then show ?case using assms(1) by (cases p) simp
next
  case (Suc n)
  then have "snd (due_now (ws n) p (clks n) (dm n)) = False" by simp
  with Suc show ?case
    by (simp add: case_prod_unfold await_def drop_Suc tl_drop split: bool.split)
qed

text \<open>C25. No deadline is passed over. While a poll is parked, its timers fire for its deadlines in ascending
  order, one timer for each, as long as no fork is found due; when the timer of the deadline of a visible fork
  that nothing holds back (as in C3) fires, at its time or later, either an earlier timer has found a fork due,
  or this one gives the fork its wake, at once or at the end of the debounce window if the fork is due then.\<close>

theorem deadline_has_timer:
  assumes started: "stop_wait_begin w ev k clk0 d0 = (d1, Suspend p)" "poll_phase p = Deadlines ds"
    and e: "e \<in> set (visible (ws n) (poll_session p) (dm n))" "Idle a \<in> set (run_on (def (entry_parsed e)))"
    and st: "settled (session_id (poll_session p)) (the_store (dm n)) e"
    and free: "unblocked (poll_session p) (poll_cfg p) (clks n 2) (the_store (dm n)) e"
      "unblocked (poll_session p) (poll_cfg p) (clks n 5) (the_store (dm n)) e"
    and n: "n < length ds" "effective_idle a (default_idle_deadline_secs (poll_cfg p)) = ds ! n"
    and passed: "i64_add (poll_baseline p) (u64_as_i64 (ds ! n)) \<le> clks n 0" "clks n 0 \<le> clks n 3"
  shows "sorted ds \<and> ((\<exists>i < n. snd (due_now (ws i) p (clks i) (dm i)))
    \<or> poll_after ws clks dm p n = Suspend (p\<lparr>poll_phase := Deadlines (drop n ds)\<rparr>)
      \<and> owes_wake p e (poll_after ws clks dm p (Suc n)))"
proof -
  have ds: "ds = poll_deadlines p" by (rule begin_waits [OF started])
  have deadlines: "poll_deadlines p = deadlines_of w (poll_cfg p) (poll_session p) d0"
    by (rule begin_deadlines [OF started(1)])
  have pos: "0 < ds ! n"
    using nth_mem [OF n(1)] by (auto simp: ds deadlines deadlines_of_def set_idle_deadlines wanted_deadlines_def)
  have mem: "ds ! n \<in> set (poll_deadlines p)" using nth_mem [OF n(1)] by (simp add: ds)
  have due: "fork_due (ws n) p (clks n 0) (clks n 2) (dm n) e"
    by (rule fork_due_idle [OF e st free(1) n(2) pos mem passed(1)])
  have due': "fork_due (ws n) p (clks n 3) (clks n 5) (dm n) e"
    by (rule fork_due_idle [OF e st free(2) n(2) pos mem]) (use passed in simp)
  have "poll_after ws clks dm p n = Suspend (p\<lparr>poll_phase := Deadlines (drop n ds)\<rparr>)"
    if "\<forall>i < n. \<not> snd (due_now (ws i) p (clks i) (dm i))"
    using poll_marches [of p n ws clks dm] that n(1) started(2) by (simp add: ds)
  moreover have "sorted ds" by (simp add: ds deadlines deadlines_of_def idle_deadlines_def)
  moreover have "owes_wake p e (poll_after ws clks dm p (Suc n))"
    if "poll_after ws clks dm p n = Suspend (p\<lparr>poll_phase := Deadlines (drop n ds)\<rparr>)"
    using timer_owes [OF due due', of "drop n ds"] that by (simp del: poll_timer.simps)
  ultimately show ?thesis by blast
qed

theorem deadline_has_timer_witness:
  "\<exists>p. snd (stop_wait_begin sample_world sample_stop 0 (\<lambda>_. 9) sample_daemon) = Suspend p
     \<and> owes_wake p sample_visible (poll_after (\<lambda>_. sample_world) (\<lambda>_ _. 700) (\<lambda>_. sample_parked) p (Suc 0))"
proof -
  have "case snd (stop_wait_begin sample_world sample_stop 0 (\<lambda>_. 9) sample_daemon) of
      Answer r \<Rightarrow> False | Suspend p \<Rightarrow> poll_phase p = Deadlines [600]"
    by code_simp
  then obtain p where p: "stop_wait_begin sample_world sample_stop 0 (\<lambda>_. 9) sample_daemon = (sample_parked, Suspend p)"
    "poll_phase p = Deadlines [600]"
    by (auto simp: sample_parked_def prod_eq_iff split: poll_result.splits)
  have e: "Idle None \<in> set (run_on (def (entry_parsed sample_visible)))"
    by (simp add: sample_visible_def sample_entry_def default_fork_def_def default_run_on_def)
  have passed: "i64_add 9 (u64_as_i64 600) \<le> 700" by code_simp
  have "poll_baseline p = 9" "default_idle_deadline_secs (poll_cfg p) = 600"
    "sample_visible \<in> set (visible sample_world (poll_session p) sample_parked)"
    "settled (session_id (poll_session p)) (the_store sample_parked) sample_visible"
    "unblocked (poll_session p) (poll_cfg p) 700 (the_store sample_parked) sample_visible"
    using sample_due p(1) by simp_all
  note facts = this
  have "\<not> (\<exists>i < 0::nat. snd (due_now sample_world p (\<lambda>_. 700) sample_parked))" by simp
  with deadline_has_timer [OF p, where ws = "\<lambda>_. sample_world" and dm = "\<lambda>_. sample_parked" and n = 0
      and clks = "\<lambda>_ _. 700" and e = sample_visible and a = None, OF facts(3) e facts(4,5,5)]
  have "owes_wake p sample_visible (poll_after (\<lambda>_. sample_world) (\<lambda>_ _. 700) (\<lambda>_. sample_parked) p (Suc 0))"
    using facts(1,2) passed by (simp add: effective_idle_def del: poll_timer.simps poll_after.simps)
  with p show ?thesis by auto
qed

section \<open>Forks that are not fired\<close>

lemma match_context_first:
  assumes "find (hit dflt (ContextMoment pt (Some mx))) (run_on fd) = Some c"
  shows "match_moments fd (elapsed_moments (Some pt) mx b ds now) dflt = Some c"
  using assms by (simp add: elapsed_moments_def)

text \<open>C20. A threshold that has fired hides the fork's other triggers. The gauge is matched before the idle
  deadlines, and only the first trigger that is hit is checked against its latch: as long as the gauge stays
  above a threshold that has fired once, a visible fork with that threshold, which the session has queued under no
  other path, is selected neither for its idle trigger, at whatever deadline of whatever pause, nor for a threshold that comes later in its list.\<close>

theorem threshold_hides_idle:
  assumes e: "e \<in> set (visible w s d)" and st: "settled (session_id s) (the_store d) e"
    and c: "find (hit (default_idle_deadline_secs cfg) (ContextMoment pt (Some mx))) (run_on (def (entry_parsed e))) = Some c"
    and latched: "is_latched (session_id s) (entry_name e) (label c) (the_store d)"
  shows "entry_name e \<notin>
    sel_name ` set (snd (select_forks w s cfg (elapsed_moments (Some pt) mx b ds now) tq t d))"
proof
  assume "entry_name e \<in> sel_name ` set (snd (select_forks w s cfg (elapsed_moments (Some pt) mx b ds now) tq t d))"
  then obtain y where y: "y \<in> set (snd (select_forks w s cfg (elapsed_moments (Some pt) mx b ds now) tq t d))"
    "sel_name y = entry_name e" by auto
  let ?st = "the_store (refresh_roster w (session_id s) (cwd s) tq d)"
  from y(1) obtain x where x: "x \<in> set (roster (session_id s) ?st)"
    "select_entry w s cfg (elapsed_moments (Some pt) mx b ds now) t ?st x = Some y"
    by (elim select_forks_elem) (simp add: select_forks_fst)
  from x(2) y(2) have name: "re_fork_name x = entry_name e" by (elim select_entry_Some) simp
  from settled_read [OF e refresh_keeps(1) [OF e st] x(1) name] obtain content where
    contents: "read_to_string (w_fs w) (re_fork_path x) = Inr content"
      "parse_fork_file (w_from_yaml w) (re_fork_name x) content = Fork (entry_parsed e)" .
  have "hit (default_idle_deadline_secs cfg) (ContextMoment pt (Some mx)) c" using c find_Some_elem by fastforce
  then have "latch_key_for c (pause_epoch s) = Some (label c)" by (cases c) simp_all
  with x(2) latched show False
    by (auto simp: select_entry_def contents [unfolded name] name match_context_first [OF c] Let_def split: if_splits)
qed

text \<open>The sample fork with both kinds of trigger, its threshold reached and fired: after ten idle minutes
  it is selected only where there is no gauge.\<close>

definition sample_both :: world where
  "sample_both = sample_world\<lparr>w_from_yaml := (\<lambda>_. Some (empty_raw_fork\<lparr>raw_marker := Some (YBool True),
     raw_run_on := Some [YString ''idle'', YMapping [(YString ''context_tokens'', YNumber (PosInt 1000))]]\<rparr>))\<rparr>"

definition sample_both_entry :: fork_entry where
  "sample_both_entry = \<lparr>entry_name = ''a'', entry_path = ''/p/.autofork/forks/a.md'',
     entry_root = ''/p/.autofork/forks'',
     entry_parsed = \<lparr>def = default_fork_def\<lparr>run_on := [Idle None, ContextTokens 1000]\<rparr>,
       body = ''/p/.autofork/forks/a.md'', warnings = []\<rparr>\<rparr>"

definition sample_fired :: daemon where
  "sample_fired = with_store (\<lambda>st. fst (try_latch_fire ''s'' ''a'' ''context_tokens:1000'' 5 st)) sample_daemon"

theorem threshold_hides_idle_witness:
  "''a'' \<notin> sel_name ` set (snd (select_forks sample_both (sample_session 1) default_config
      (elapsed_moments (Some 170000) 200000 0 [600] 700) 700 700 sample_fired))
   \<and> ''a'' \<in> sel_name ` set (snd (select_forks sample_both (sample_session 1) default_config
      (elapsed_moments None 200000 0 [600] 700) 700 700 sample_fired))"
proof
  have visible: "sample_both_entry \<in> set (visible sample_both (sample_session 1) sample_fired)"
    by code_simp
  have settled: "settled (session_id (sample_session 1)) (the_store sample_fired) sample_both_entry"
    by code_simp
  have hit: "find (hit (default_idle_deadline_secs default_config) (ContextMoment 170000 (Some 200000)))
       (run_on (def (entry_parsed sample_both_entry))) = Some (ContextTokens 1000)"
    by (simp add: sample_both_entry_def)
  have latched: "is_latched (session_id (sample_session 1)) (entry_name sample_both_entry) (label (ContextTokens 1000))
       (the_store sample_fired)"
    by code_simp
  have name: "entry_name sample_both_entry = ''a''" by (simp add: sample_both_entry_def)
  show "''a'' \<notin> sel_name ` set (snd (select_forks sample_both (sample_session 1) default_config
      (elapsed_moments (Some 170000) 200000 0 [600] 700) 700 700 sample_fired))"
    by (rule threshold_hides_idle [OF visible settled hit latched, unfolded name])
  have "List.member (map sel_name (snd (select_forks sample_both (sample_session 1) default_config
      (elapsed_moments None 200000 0 [600] 700) 700 700 sample_fired))) ''a''"
    by code_simp
  then show "''a'' \<in> sel_name ` set (snd (select_forks sample_both (sample_session 1) default_config
      (elapsed_moments None 200000 0 [600] 700) 700 700 sample_fired))"
    by simp
qed

text \<open>Queueing never touches the row of a fork that is queued.\<close>

lemma queue_entries_existing:
  assumes "\<exists>r \<in> set (fork_roster st). roster_key r = (sid, name)"
    and "r \<in> set (fork_roster (queue_entries sid t es st))" and "roster_key r = (sid, name)"
  shows "r \<in> set (fork_roster st)"
  using assms(1,2)
proof (induction es arbitrary: st)
  case (Cons e es)
  let ?st = "fst (queue_fork sid (entry_name e) (entry_path e) t st)"
  have "\<exists>r \<in> set (fork_roster ?st). roster_key r = (sid, name)"
    using Cons.prems(1) by (auto simp: set_queue_fork)
  with Cons have r: "r \<in> set (fork_roster ?st)" by simp
  show ?case
  proof (cases "\<exists>x \<in> set (fork_roster st). roster_key x = (sid, entry_name e)")
    case True
    with r show ?thesis by (simp add: set_queue_fork)
  next
    case False
    with Cons.prems(1) have "roster_key (new_row sid t e) \<noteq> (sid, name)" by auto
    then have "r \<noteq> new_row sid t e" using assms(3) by blast
    with r False show ?thesis unfolding set_queue_fork if_not_P [OF False] by simp
  qed
qed simp

text \<open>The path under which a session has queued a fork does not lead to a fork any more.\<close>

definition stale_path :: "world \<Rightarrow> string \<Rightarrow> store \<Rightarrow> string \<Rightarrow> bool" where
  "stale_path w sid st name \<longleftrightarrow>
     (let rows = filter (\<lambda>r. re_fork_name r = name) (roster sid st)
      in rows \<noteq> []
       \<and> list_all (\<lambda>r. case read_to_string (w_fs w) (re_fork_path r) of
             Inl err \<Rightarrow> True
           | Inr content \<Rightarrow> (case parse_fork_file (w_from_yaml w) name content of Fork parsed \<Rightarrow> False | _ \<Rightarrow> True)) rows)"

text \<open>C22. A fork that has moved is lost to the session. A session keeps the path under which it first queued a
  fork; once there is no fork under this path, a fork of that name is never selected for the session, whatever
  the moments, although the session sees it under its new path and a refresh queues the forks it sees.\<close>

theorem stale_path_never_fires:
  assumes "stale_path w (session_id s) (the_store d) name"
  shows "name \<notin> sel_name ` set (snd (select_forks w s cfg ms tq t d))
    \<and> stale_path w (session_id s) (the_store (fst (select_forks w s cfg ms tq t d))) name"
proof -
  let ?st = "the_store (refresh_roster w (session_id s) (cwd s) tq d)"
  let ?rows = "\<lambda>st. {x \<in> set (roster (session_id s) st). re_fork_name x = name}"
  have old: "\<exists>r \<in> set (fork_roster (the_store d)). roster_key r = (session_id s, name)"
    using assms by (fastforce simp: stale_path_def filter_empty_conv roster_iff)
  have "?rows ?st \<subseteq> ?rows (the_store d)"
    using queue_entries_existing [OF old] by (auto simp: roster_iff refresh_roster_eq)
  moreover have "?rows (the_store d) \<subseteq> ?rows ?st"
    using queue_entries_keeps by (fastforce simp: roster_iff refresh_roster_eq)
  ultimately have same: "?rows ?st = ?rows (the_store d)" by blast
  then have "stale_path w (session_id s) ?st name \<longleftrightarrow> stale_path w (session_id s) (the_store d) name"
    unfolding stale_path_def Let_def list_all_iff set_filter filter_empty_conv by blast
  with assms have st: "stale_path w (session_id s) ?st name" by simp
  then have "stale_path w (session_id s) (the_store (fst (select_forks w s cfg ms tq t d))) name"
    by (simp add: select_forks_fst)
  moreover have "name \<notin> sel_name ` set (snd (select_forks w s cfg ms tq t d))"
  proof
    assume "name \<in> sel_name ` set (snd (select_forks w s cfg ms tq t d))"
    then obtain y where y: "y \<in> set (snd (select_forks w s cfg ms tq t d))" "sel_name y = name" by auto
    from y(1) obtain x where x: "x \<in> set (roster (session_id s) ?st)"
      "select_entry w s cfg ms t ?st x = Some y"
      by (elim select_forks_elem) (simp add: select_forks_fst)
    from x(2) y(2) have name: "re_fork_name x = name" by (elim select_entry_Some) simp
    from x(2) show False
      using st x(1) name
      by (auto simp: stale_path_def select_entry_def list_all_iff split: sum.splits fork_parse.splits)
  qed
  ultimately show ?thesis by blast
qed

text \<open>The sample session has the sample fork queued under the path of a project directory that is gone.\<close>

definition sample_moved_world :: world where
  "sample_moved_world = sample_world\<lparr>w_fs := sample_forks_fs\<lparr>read_to_string :=
     (\<lambda>p. if p = ''/old/.autofork/forks/a.md'' then Inl ''not found'' else read_to_string sample_forks_fs p)\<rparr>\<rparr>"

definition sample_moved :: daemon where
  "sample_moved = with_store (\<lambda>st. fst (queue_fork ''s'' ''a'' ''/old/.autofork/forks/a.md'' 5 st)) sample_daemon"

theorem stale_path_never_fires_witness:
  "List.member (visible sample_moved_world (sample_session 1) sample_moved) sample_visible
   \<and> ''a'' \<notin> sel_name ` set (snd (select_forks sample_moved_world (sample_session 1) default_config
        (elapsed_moments None 200000 0 [600] 700) 700 700 sample_moved))"
proof
  show "List.member (visible sample_moved_world (sample_session 1) sample_moved) sample_visible" by code_simp
  have "stale_path sample_moved_world (session_id (sample_session 1)) (the_store sample_moved) ''a''" by code_simp
  then show "''a'' \<notin> sel_name ` set (snd (select_forks sample_moved_world (sample_session 1) default_config
        (elapsed_moments None 200000 0 [600] 700) 700 700 sample_moved))"
    by (rule stale_path_never_fires [THEN conjunct1])
qed

text \<open>A poll whose second evaluation, after the debounce window, selects nothing waits for its
  cancellation only: the deadlines it has not reached are never served.\<close>

lemma debounce_drops_deadlines:
  assumes "poll_phase p = Debounce"
    and "snd (select_forks w (poll_session p) (poll_cfg p) (poll_moments p (clk 0)) (clk 1) (clk 2) d) = []"
  shows "\<exists>q. snd (poll_timer w p clk d) = Suspend q \<and> poll_deadlines q = poll_deadlines p
    \<and> (\<forall>w' clk' d'. poll_timer w' q clk' d' = (d', Suspend q))"
  using assms by (simp add: issue_def Let_def case_prod_unfold build_wake_eq)

end
