(* ===== verification/Locking.thy ===== *)
theory Locking
  imports Daemon
begin

text \<open>
  The planner at the granularity of the store's mutex. The functions of \<open>planner.rs\<close> lock the store for
  each access and release it in between, and the daemon runs its handlers on several threads; \<open>Planner\<close>
  and \<open>Polls\<close> take a handler between two suspension points as one step. Here phase C of
  \<open>handle_stop_wait\<close> (\<open>select_forks\<close> and \<open>build_wake\<close>) and \<open>release_due\<close> are written with a gap wherever the
  lock is free; a function \<open>env\<close> says what the other threads do in each gap. Without interference the
  functions are those of \<open>Planner\<close>; work for other sessions in the gaps changes nothing for a session; work
  for the same session may.
\<close>

section \<open>The planner with gaps\<close>

text \<open>The points at which the lock is free: after the roster was refreshed, before the throttles and before
  the latch of the \<open>i\<close>-th entry are read, before the wake is stamped, before it is noted; between finding the
  releasable dependents and deleting them, and before the release is noted.\<close>

datatype gap = AfterRefresh | BeforeThrottle nat | BeforeLatch nat | BeforeStamp | BeforeNote | BeforeDelete

type_synonym interference = "gap \<Rightarrow> daemon \<Rightarrow> daemon"

text \<open>The body of the selection loop, which reads the throttles from one store and the latch from a later one.\<close>

definition select_entry_at ::
  "world \<Rightarrow> session_row \<Rightarrow> config \<Rightarrow> fork_moment list \<Rightarrow> i64 \<Rightarrow> store \<Rightarrow> store \<Rightarrow> roster_entry \<Rightarrow> selected_fork option" where
  "select_entry_at w s cfg moments t st st' entry =
     (case read_to_string (w_fs w) (re_fork_path entry) of
        Inl _ \<Rightarrow> None
      | Inr content \<Rightarrow>
          (case parse_fork_file (w_from_yaml w) (re_fork_name entry) content of
             Fork parsed \<Rightarrow>
               (let fd = def parsed
                in if \<not> tags_allowed (tags fd) (effective_enable s cfg) (effective_disable s cfg) then None
                   else (case match_moments fd moments (default_idle_deadline_secs cfg) of
                           None \<Rightarrow> None
                         | Some trigger \<Rightarrow>
                             if fork_throttled fd entry t then None
                             else if tag_throttled cfg (project_root s) (tags fd) t st then None
                             else (let key = latch_key_for trigger (pause_epoch s)
                                   in if (case key of
                                            Some k \<Rightarrow> is_latched (session_id s) (re_fork_name entry) k st'
                                          | None \<Rightarrow> False)
                                      then None
                                      else Some \<lparr>sel_name = re_fork_name entry, sel_path = re_fork_path entry,
                                                 sel_trigger = label trigger, sel_overlap = overlap fd,
                                                 sel_after = after fd, sel_tags = tags fd,
                                                 sel_latch_key = key\<rparr>)))
           | _ \<Rightarrow> None))"

fun select_loop ::
  "interference \<Rightarrow> world \<Rightarrow> session_row \<Rightarrow> config \<Rightarrow> fork_moment list \<Rightarrow> i64 \<Rightarrow> nat \<Rightarrow> roster_entry list \<Rightarrow>
   daemon \<Rightarrow> daemon \<times> selected_fork list" where
  "select_loop env w s cfg moments t i [] d = (d, [])"
| "select_loop env w s cfg moments t i (entry # entries) d =
     (let d1 = env (BeforeThrottle i) d;
          d2 = env (BeforeLatch i) d1;
          hit = select_entry_at w s cfg moments t (the_store d1) (the_store d2) entry;
          (d3, rest) = select_loop env w s cfg moments t (i + 1) entries d2
      in (d3, (case hit of Some x \<Rightarrow> x # rest | None \<Rightarrow> rest)))"

definition select_forks_locked ::
  "interference \<Rightarrow> world \<Rightarrow> session_row \<Rightarrow> config \<Rightarrow> fork_moment list \<Rightarrow> i64 \<Rightarrow> i64 \<Rightarrow> daemon \<Rightarrow>
   daemon \<times> selected_fork list" where
  "select_forks_locked env w s cfg moments t_queue t d =
     (let d = env AfterRefresh (refresh_roster w (session_id s) (cwd s) t_queue d)
      in select_loop env w s cfg moments t 0 (roster (session_id s) (the_store d)) d)"

definition build_wake_locked ::
  "interference \<Rightarrow> session_row \<Rightarrow> selected_fork list \<Rightarrow> i64 \<Rightarrow> i64 \<Rightarrow> daemon \<Rightarrow> daemon \<times> string option" where
  "build_wake_locked env s selected t t_note d =
     (if selected = [] then (d, None)
      else (let (st, rts, held) = stamp_forks (session_id s) t selected (the_store d);
                d = note_wake_issued (session_id s) t_note (env BeforeNote (d\<lparr>the_store := st\<rparr>))
            in (d, Some (build_wake_payload (session_id s) (conversation_id s) (project_root s) rts held))))"

definition issue_locked ::
  "interference \<Rightarrow> world \<Rightarrow> poll \<Rightarrow> (nat \<Rightarrow> i64) \<Rightarrow> daemon \<Rightarrow> daemon \<times> poll_result" where
  "issue_locked env w p clk d =
     (let moments = elapsed_moments (poll_tokens p) (poll_max_tokens p) (poll_baseline p) (poll_deadlines p) (clk 0)
      in (case select_forks_locked env w (poll_session p) (poll_cfg p) moments (clk 1) (clk 2) d of
            (d, selected) \<Rightarrow>
              (case build_wake_locked env (poll_session p) selected (clk 3) (clk 4) (env BeforeStamp d) of
                 (d, Some payload) \<Rightarrow> (d, Answer (RespWake payload))
               | (d, None) \<Rightarrow> (d, Suspend (p\<lparr>poll_phase := ParkedForever\<rparr>)))))"

definition release_due_locked ::
  "interference \<Rightarrow> session_row \<Rightarrow> i64 \<Rightarrow> daemon \<Rightarrow> daemon \<times> string option" where
  "release_due_locked env s t_note d =
     (let sid = session_id s;
          released = filter (releasable sid (the_store d)) (list_pending_deps sid (the_store d))
      in if released = [] then (d, None)
         else (let d = env BeforeDelete d;
                   d = with_store (fold (\<lambda>dep. delete_pending_dep sid (pd_fork_name dep)) released) d;
                   d = note_wake_issued sid t_note (env BeforeNote d)
               in (d, Some (build_release_payload sid (conversation_id s) (project_root s)
                              (map dep_due released)))))"

section \<open>Without interference\<close>

abbreviation alone :: interference where
  "alone \<equiv> (\<lambda>g d. d)"

lemma select_entry_at_same: "select_entry_at w s cfg ms t st st entry = select_entry w s cfg ms t st entry"
  by (simp add: select_entry_at_def select_entry_def)

lemma select_loop_alone:
  "select_loop alone w s cfg ms t i entries d = (d, List.map_filter (select_entry w s cfg ms t (the_store d)) entries)"
  by (induction entries arbitrary: i)
    (simp_all add: List.map_filter_simps select_entry_at_same Let_def split: option.split)

lemma select_forks_alone: "select_forks_locked alone w s cfg ms tq t d = select_forks w s cfg ms tq t d"
  by (simp add: select_forks_locked_def select_forks_def select_loop_alone Let_def)

lemma issue_alone: "issue_locked alone w p clk d = issue w p clk d"
  by (simp add: issue_locked_def issue_def select_forks_alone build_wake_locked_def build_wake_def Let_def)

lemma release_alone: "release_due_locked alone s t d = release_due s t d"
  by (simp add: release_due_locked_def release_due_def Let_def)

section \<open>Work for other sessions in the gaps\<close>

text \<open>The other threads work for other sessions: their store operations are not this session's.\<close>

definition elsewhere :: "string \<Rightarrow> interference \<Rightarrow> bool" where
  "elsewhere sid env \<longleftrightarrow>
     (\<forall>g d. \<exists>ops. the_store (env g d) = apply_ops ops (the_store d) \<and> list_all (\<lambda>op. op_session op \<noteq> sid) ops)"

lemma elsewhere_rows: "elsewhere sid env \<Longrightarrow> session_rows sid (the_store (env g d)) = session_rows sid (the_store d)"
  unfolding elsewhere_def by (metis session_rows_frames)

lemma rows_reads:
  assumes "session_rows sid st = session_rows sid st'"
  shows "roster sid st = roster sid st'" "is_latched sid name key st = is_latched sid name key st'"
    "list_pending_deps sid st = list_pending_deps sid st'"
    "fork_completed_since sid name since st = fork_completed_since sid name since st'"
  by (simp_all only: reads_of_rows assms)

lemma rows_ops:
  assumes "session_rows sid st = session_rows sid st'" and "list_all (\<lambda>op. op_session op = sid) ops"
  shows "session_rows sid (apply_ops ops st) = session_rows sid (apply_ops ops st')"
  using assms
proof (induction ops arbitrary: st st')
  case (Cons op ops)
  from Cons.prems have "session_rows sid (apply_op op st) = session_rows sid (apply_op op st')"
    by (intro session_rows_local) simp_all
  then have "session_rows sid (apply_ops ops (apply_op op st)) = session_rows sid (apply_ops ops (apply_op op st'))"
    by (rule Cons.IH) (use Cons.prems in simp)
  then show ?case by (simp add: apply_ops_def)
qed (simp add: apply_ops_def)

lemma no_tag_throttles: "tag_throttles cfg = (\<lambda>_. None) \<Longrightarrow> \<not> tag_throttled cfg root tgs t st"
  by (simp add: tag_throttled_def list_ex_iff)

lemma select_entry_rows:
  assumes "session_rows (session_id s) st' = session_rows (session_id s) st0" and "tag_throttles cfg = (\<lambda>_. None)"
  shows "select_entry_at w s cfg ms t st st' entry = select_entry w s cfg ms t st0 entry"
  by (simp add: select_entry_at_def select_entry_def no_tag_throttles [OF assms(2)]
      rows_reads(2) [OF assms(1)] Let_def split: sum.split fork_parse.split option.split)

text \<open>A relation between two daemons that a session cannot tell apart.\<close>

abbreviation same_rows :: "string \<Rightarrow> daemon \<Rightarrow> daemon \<Rightarrow> bool" where
  "same_rows sid d d' \<equiv> session_rows sid (the_store d) = session_rows sid (the_store d')"

lemma select_loop_elsewhere:
  assumes "elsewhere (session_id s) env" and "tag_throttles cfg = (\<lambda>_. None)"
    and "same_rows (session_id s) d d0"
  shows "snd (select_loop env w s cfg ms t i entries d) =
      List.map_filter (select_entry w s cfg ms t (the_store d0)) entries
    \<and> same_rows (session_id s) (fst (select_loop env w s cfg ms t i entries d)) d0"
  using assms(3)
proof (induction entries arbitrary: i d)
  case (Cons entry entries)
  let ?d1 = "env (BeforeThrottle i) d" and ?d2 = "env (BeforeLatch i) (env (BeforeThrottle i) d)"
  have rows: "same_rows (session_id s) ?d2 d0"
    using Cons.prems by (simp only: elsewhere_rows [OF assms(1)])
  then have "select_entry_at w s cfg ms t (the_store ?d1) (the_store ?d2) entry =
      select_entry w s cfg ms t (the_store d0) entry"
    by (rule select_entry_rows) (rule assms(2))
  with Cons.IH [OF rows, of "i + 1"] show ?case
    by (simp add: Let_def case_prod_unfold List.map_filter_simps split: option.split)
qed (simp add: List.map_filter_simps)

lemma select_forks_elsewhere:
  assumes "elsewhere (session_id s) env" and "tag_throttles cfg = (\<lambda>_. None)"
  shows "snd (select_forks_locked env w s cfg ms tq t d) = snd (select_forks w s cfg ms tq t d)
    \<and> same_rows (session_id s) (fst (select_forks_locked env w s cfg ms tq t d)) (fst (select_forks w s cfg ms tq t d))"
proof -
  let ?d = "refresh_roster w (session_id s) (cwd s) tq d"
  have rows: "same_rows (session_id s) (env AfterRefresh ?d) ?d" by (rule elsewhere_rows [OF assms(1)])
  from select_loop_elsewhere [OF assms this] rows_reads(1) [OF this] show ?thesis
    by (simp add: select_forks_locked_def select_forks_def Let_def)
qed

lemma build_wake_elsewhere:
  assumes "elsewhere (session_id s) env" and "same_rows (session_id s) d d0"
  shows "snd (build_wake_locked env s sel t tn d) = snd (build_wake s sel t tn d0)
    \<and> same_rows (session_id s) (fst (build_wake_locked env s sel t tn d)) (fst (build_wake s sel t tn d0))"
proof -
  have "session_rows (session_id s) (apply_ops (wake_ops (session_id s) t sel) (the_store d)) =
      session_rows (session_id s) (apply_ops (wake_ops (session_id s) t sel) (the_store d0))"
    by (rule rows_ops [OF assms(2) wake_ops_session])
  with assms show ?thesis
    by (simp add: build_wake_locked_def build_wake_eq stamp_forks_eq elsewhere_rows)
qed

lemma release_elsewhere:
  assumes "elsewhere (session_id s) env"
  shows "snd (release_due_locked env s t d) = snd (release_due s t d)
    \<and> same_rows (session_id s) (fst (release_due_locked env s t d)) (fst (release_due s t d))"
proof -
  let ?del = "\<lambda>xs. map (\<lambda>dep. DeletePendingDep (session_id s) (pd_fork_name dep)) xs"
  have del: "fold (\<lambda>dep. delete_pending_dep (session_id s) (pd_fork_name dep)) xs st = apply_ops (?del xs) st" for xs st
    by (induction xs arbitrary: st) (simp_all add: apply_ops_def)
  have rows: "session_rows (session_id s) (apply_ops (?del xs) (the_store (env BeforeDelete d))) =
      session_rows (session_id s) (apply_ops (?del xs) (the_store d))" for xs
    by (rule rows_ops [OF elsewhere_rows [OF assms]]) (simp add: list_all_iff)
  show ?thesis
    by (simp add: release_due_locked_def release_due_def Let_def elsewhere_rows [OF assms] del rows)
qed

section \<open>Properties\<close>

text \<open>C11. Phase C of a poll and the release of dependents do not depend on what the daemon does for other
  sessions meanwhile: whatever operations of other sessions run whenever the store's lock is free, the poll
  gets the answer it would get alone, and the session's rows, its issued runs apart, end up the same. (Tag
  throttles are excepted: they are shared by the sessions of a project.)\<close>

theorem planning_atomic:
  assumes "elsewhere (session_id (poll_session p)) env" and "tag_throttles (poll_cfg p) = (\<lambda>_. None)"
  shows "snd (issue_locked env w p clk d) = snd (issue w p clk d)
    \<and> session_rows (session_id (poll_session p)) (the_store (fst (issue_locked env w p clk d))) =
        session_rows (session_id (poll_session p)) (the_store (fst (issue w p clk d)))
    \<and> snd (release_due_locked env (poll_session p) t d) = snd (release_due (poll_session p) t d)
    \<and> session_rows (session_id (poll_session p)) (the_store (fst (release_due_locked env (poll_session p) t d))) =
        session_rows (session_id (poll_session p)) (the_store (fst (release_due (poll_session p) t d)))"
proof -
  let ?sid = "session_id (poll_session p)"
  let ?ms = "elapsed_moments (poll_tokens p) (poll_max_tokens p) (poll_baseline p) (poll_deadlines p) (clk 0)"
  let ?a = "select_forks_locked env w (poll_session p) (poll_cfg p) ?ms (clk 1) (clk 2) d"
  let ?b = "select_forks w (poll_session p) (poll_cfg p) ?ms (clk 1) (clk 2) d"
  note sel = select_forks_elsewhere [OF assms, of w ?ms "clk 1" "clk 2" d]
  then have "same_rows ?sid (env BeforeStamp (fst ?a)) (fst ?b)" by (simp add: elsewhere_rows [OF assms(1)])
  note wake = build_wake_elsewhere [OF assms(1) this, of "snd ?b" "clk 3" "clk 4"]
  have "snd (issue_locked env w p clk d) = snd (issue w p clk d)"
    "same_rows ?sid (fst (issue_locked env w p clk d)) (fst (issue w p clk d))"
    using sel wake by (auto simp: issue_locked_def issue_def Let_def case_prod_unfold split: option.split)
  with release_elsewhere [OF assms(1)] show ?thesis by blast
qed

definition sample_poll :: poll where
  "sample_poll = \<lparr>poll_session = sample_session 1, poll_cfg = default_config, poll_tokens = None,
     poll_max_tokens = 200000, poll_baseline = 0, poll_deadlines = [600], poll_phase = Debounce\<rparr>"

theorem planning_atomic_witness:
  "snd (issue_locked (\<lambda>g. with_store (close_session ''other'')) sample_world sample_poll (\<lambda>_. 700) sample_daemon)
     = snd (issue sample_world sample_poll (\<lambda>_. 700) sample_daemon)"
proof -
  have "elsewhere (session_id (poll_session sample_poll)) (\<lambda>g. with_store (close_session ''other''))"
    unfolding elsewhere_def
    by (intro allI exI [of _ "[CloseSession ''other'']"]) (simp add: apply_ops_def sample_poll_def sample_session_def)
  moreover have "tag_throttles (poll_cfg sample_poll) = (\<lambda>_. None)"
    by (simp add: sample_poll_def default_config_def)
  ultimately show ?thesis
    using planning_atomic [of sample_poll _ sample_world "\<lambda>_. 700" sample_daemon] by blast
qed

text \<open>C38. Polls of one session are not protected from each other in the same way: a poll that has selected its
  forks issues its wake even when another poll of the session has issued one, for the same forks, before
  this one takes the lock to stamp them. The result of \<open>try_latch_fire\<close>, which would tell, is dropped.\<close>

theorem concurrent_polls_both_wake:
  assumes "snd (issue w p clk d) = Answer (RespWake payload)"
  shows "snd (issue_locked (\<lambda>g d. if g = BeforeStamp then fst (issue w p' clk' d) else d) w p clk d) =
    Answer (RespWake payload)"
proof -
  let ?env = "\<lambda>g d. if g = BeforeStamp then fst (issue w p' clk' d) else d"
  have "select_loop ?env w s cfg ms t i entries d = select_loop alone w s cfg ms t i entries d" for s cfg ms t i entries d
    by (induction entries arbitrary: i d) simp_all
  then have sel: "select_forks_locked ?env w s cfg ms tq t d = select_forks w s cfg ms tq t d" for s cfg ms tq t d
    by (simp add: select_forks_locked_def flip: select_forks_alone)
  show ?thesis
    using assms by (auto simp: issue_locked_def issue_def sel build_wake_locked_def build_wake_eq stamp_forks_eq
        Let_def case_prod_unfold split: option.splits if_splits)
qed

theorem concurrent_polls_both_wake_witness:
  "\<exists>payload. snd (issue sample_world sample_poll (\<lambda>_. 700) sample_daemon) = Answer (RespWake payload)
     \<and> snd (issue_locked (\<lambda>g d. if g = BeforeStamp then fst (issue sample_world sample_poll (\<lambda>_. 700) d) else d)
              sample_world sample_poll (\<lambda>_. 700) sample_daemon) = Answer (RespWake payload)"
proof -
  have "case snd (issue sample_world sample_poll (\<lambda>_. 700) sample_daemon) of
      Answer r \<Rightarrow> (case r of RespWake payload \<Rightarrow> True | _ \<Rightarrow> False) | Suspend p \<Rightarrow> False"
    by code_simp
  then obtain payload where "snd (issue sample_world sample_poll (\<lambda>_. 700) sample_daemon) = Answer (RespWake payload)"
    by (auto split: poll_result.splits response_body.splits)
  with concurrent_polls_both_wake [OF this] show ?thesis by blast
qed

end
