(* ===== verification/Client.thy ===== *)
theory Client
  imports Protocol Config "HOL-Library.Monad_Syntax"
begin

text \<open>
  The daemon client of the command line, \<open>crates/autofork/src/client.rs\<close>. What the operating system
  does is a parameter: a record of the system calls the source makes, over a state of their own.
  Times are milliseconds. A loop that polls a lock or a socket may not end when the clock stands
  still, so these are partial functions, \<open>None\<close> where they do not return; the lemmas of section
  \<open>Deadlines\<close> show that they return when the clock advances. serde_json's serialisation of a request
  and its parse of a response are parameters, too.
\<close>

section \<open>The system\<close>

text \<open>Streams and files are numbered. A failed call returns its error's text, or \<open>None\<close> where the
  source drops the text.\<close>

record 's os =
  os_env :: "string \<Rightarrow> string option"
  os_fs :: "'s \<Rightarrow> fs"
  os_exe :: "path option"
  os_now :: "'s \<Rightarrow> nat \<times> 's"
  os_sleep :: "nat \<Rightarrow> 's \<Rightarrow> 's"
  os_connect :: "path \<Rightarrow> 's \<Rightarrow> nat option \<times> 's"
  os_read_timeout :: "nat \<Rightarrow> nat \<Rightarrow> 's \<Rightarrow> string option \<times> 's"
  os_write_timeout :: "nat \<Rightarrow> nat \<Rightarrow> 's \<Rightarrow> string option \<times> 's"
  os_write_all :: "nat \<Rightarrow> string \<Rightarrow> 's \<Rightarrow> string option \<times> 's"
  os_clone :: "nat \<Rightarrow> 's \<Rightarrow> (string + nat) \<times> 's"
  os_read_line :: "nat \<Rightarrow> 's \<Rightarrow> (string + string) \<times> 's"
  os_close :: "nat \<Rightarrow> 's \<Rightarrow> 's"
  os_mkdirs :: "path \<Rightarrow> 's \<Rightarrow> 's"
  os_open_lock :: "path \<Rightarrow> 's \<Rightarrow> nat option \<times> 's"
  os_flock :: "nat \<Rightarrow> 's \<Rightarrow> bool \<times> 's"
  os_remove :: "path \<Rightarrow> 's \<Rightarrow> 's"
  os_open_log :: "path \<Rightarrow> 's \<Rightarrow> (string + nat) \<times> 's"
  os_spawn :: "path \<Rightarrow> nat \<Rightarrow> nat \<Rightarrow> 's \<Rightarrow> string option \<times> 's"

section \<open>Errors and connections\<close>

datatype client_error = NotRunning | Io string | Protocol string

fun show_client_error :: "client_error \<Rightarrow> string" where
  "show_client_error NotRunning = ''daemon not running''"
| "show_client_error (Io e) = ''io: '' @ e"
| "show_client_error (Protocol m) = ''protocol: '' @ m"

record client =
  cl_stream :: nat
  cl_next_id :: u64

definition connect :: "'s os \<Rightarrow> paths \<Rightarrow> nat \<Rightarrow> 's \<Rightarrow> (client_error + client) \<times> 's" where
  "connect os ps timeout s =
     (case os_connect os (socket (os_env os) ps) s of
        (None, s) \<Rightarrow> (Inl NotRunning, s)
      | (Some stream, s) \<Rightarrow>
          (case os_read_timeout os stream timeout s of
             (Some e, s) \<Rightarrow> (Inl (Io e), os_close os stream s)
           | (None, s) \<Rightarrow>
               (case os_write_timeout os stream timeout s of
                  (Some e, s) \<Rightarrow> (Inl (Io e), os_close os stream s)
                | (None, s) \<Rightarrow> (Inr \<lparr>cl_stream = stream, cl_next_id = 1\<rparr>, s))))"

section \<open>Locks\<close>

definition try_flock :: "'s os \<Rightarrow> path \<Rightarrow> 's \<Rightarrow> nat option \<times> 's" where
  "try_flock os p s =
     (let s = (case parent p of Some dir \<Rightarrow> os_mkdirs os dir s | None \<Rightarrow> s)
      in (case os_open_lock os p s of
            (None, s) \<Rightarrow> (None, s)
          | (Some f, s) \<Rightarrow>
              (case os_flock os f s of
                 (True, s) \<Rightarrow> (Some f, s)
               | (False, s) \<Rightarrow> (None, os_close os f s))))"

partial_function (option) flock_until :: "'s os \<Rightarrow> path \<Rightarrow> nat \<Rightarrow> 's \<Rightarrow> (nat option \<times> 's) option" where
  [code]: "flock_until os p deadline s =
     (case try_flock os p s of
        (Some f, s) \<Rightarrow> Some (Some f, s)
      | (None, s) \<Rightarrow>
          (case os_now os s of
             (t, s) \<Rightarrow> if deadline \<le> t then Some (None, s)
                       else flock_until os p deadline (os_sleep os 25 s)))"

section \<open>Spawning the daemon\<close>

definition daemon_binary :: "'s os \<Rightarrow> 's \<Rightarrow> path option" where
  "daemon_binary os s =
     (case Option.bind (os_exe os) parent of
        None \<Rightarrow> None
      | Some dir \<Rightarrow>
          (let candidate = path_join dir ''autofork-daemon''
           in if is_file (os_fs os s) candidate then Some candidate else None))"

text \<open>Open the log twice and start the binary with it; the files are closed on return.\<close>

definition launch_daemon :: "'s os \<Rightarrow> paths \<Rightarrow> 's \<Rightarrow> (client_error + unit) \<times> 's" where
  "launch_daemon os ps s =
     (case daemon_binary os s of
        None \<Rightarrow> (Inl (Protocol ''autofork-daemon binary not found next to the CLI''), s)
      | Some bin \<Rightarrow>
          (let s = (case parent (daemon_log ps) of Some dir \<Rightarrow> os_mkdirs os dir s | None \<Rightarrow> s)
           in (case os_open_log os (daemon_log ps) s of
                 (Inl e, s) \<Rightarrow> (Inl (Io e), s)
               | (Inr log, s) \<Rightarrow>
                   (case os_clone os log s of
                      (Inl e, s) \<Rightarrow> (Inl (Io e), os_close os log s)
                    | (Inr log2, s) \<Rightarrow>
                        (case os_spawn os bin log log2 s of
                           (r, s) \<Rightarrow>
                             (case r of Some e \<Rightarrow> Inl (Io e) | None \<Rightarrow> Inr (),
                              os_close os log2 (os_close os log s)))))))"

text \<open>With the spawn lock held: spawn unless a daemon answers or holds its lock.\<close>

definition spawn_if_dead :: "'s os \<Rightarrow> paths \<Rightarrow> 's \<Rightarrow> (client_error + unit) \<times> 's" where
  "spawn_if_dead os ps s =
     (case os_connect os (socket (os_env os) ps) s of
        (Some stream, s) \<Rightarrow> (Inr (), os_close os stream s)
      | (None, s) \<Rightarrow>
          (case try_flock os (daemon_lock ps) s of
             (None, s) \<Rightarrow> (Inr (), s)
           | (Some lock, s) \<Rightarrow>
               launch_daemon os ps (os_close os lock (os_remove os (socket (os_env os) ps) s))))"

definition spawn_daemon_locked :: "'s os \<Rightarrow> paths \<Rightarrow> nat \<Rightarrow> 's \<Rightarrow> ((client_error + unit) \<times> 's) option" where
  "spawn_daemon_locked os ps deadline s =
     do { (lock, s) \<leftarrow> flock_until os (spawn_lock ps) deadline s;
          (case lock of
             None \<Rightarrow> Some (Inr (), s)
           | Some f \<Rightarrow> (case spawn_if_dead os ps s of (r, s) \<Rightarrow> Some (r, os_close os f s))) }"

definition spawn_daemon_detached :: "'s os \<Rightarrow> paths \<Rightarrow> 's \<Rightarrow> 's option" where
  "spawn_daemon_detached os ps s =
     (case os_now os s of
        (t, s) \<Rightarrow> map_option snd (spawn_daemon_locked os ps (t + 500) s))"

partial_function (option) connect_loop ::
    "'s os \<Rightarrow> paths \<Rightarrow> nat \<Rightarrow> 's \<Rightarrow> ((client_error + client) \<times> 's) option" where
  [code]: "connect_loop os ps deadline s =
     (case connect os ps 30000 s of
        (Inr c, s) \<Rightarrow> Some (Inr c, s)
      | (Inl e, s) \<Rightarrow>
          (case os_now os s of
             (t, s) \<Rightarrow> if t < deadline then connect_loop os ps deadline (os_sleep os 50 s)
                       else Some (Inl e, s)))"

definition connect_or_spawn :: "'s os \<Rightarrow> paths \<Rightarrow> nat \<Rightarrow> 's \<Rightarrow> ((client_error + client) \<times> 's) option" where
  "connect_or_spawn os ps budget s =
     (case os_now os s of
        (t, s) \<Rightarrow>
          (case connect os ps budget s of
             (Inr c, s) \<Rightarrow> Some (Inr c, s)
           | (Inl _, s) \<Rightarrow>
               do { (r, s) \<leftarrow> spawn_daemon_locked os ps (t + budget) s;
                    (case r of
                       Inl e \<Rightarrow> Some (Inl e, s)
                     | Inr _ \<Rightarrow> connect_loop os ps (t + budget) s) }))"

section \<open>Requests\<close>

definition client_request ::
  "'s os \<Rightarrow> (request \<Rightarrow> string + string) \<Rightarrow> (string \<Rightarrow> string + response) \<Rightarrow> request_body \<Rightarrow> client \<Rightarrow> 's \<Rightarrow>
   (client_error + response_body) \<times> client \<times> 's" where
  "client_request os to_json from_json body c s =
     (let req = \<lparr>req_proto = PROTO_VERSION, req_id = cl_next_id c, req_body = body\<rparr>;
          c = c\<lparr>cl_next_id := cl_next_id c + 1\<rparr>
      in (case encode_frame to_json req of
            Inl e \<Rightarrow> (Inl (Protocol e), c, s)
          | Inr line \<Rightarrow>
              (case os_write_all os (cl_stream c) line s of
                 (Some e, s) \<Rightarrow> (Inl (Io e), c, s)
               | (None, s) \<Rightarrow>
                   (case os_clone os (cl_stream c) s of
                      (Inl e, s) \<Rightarrow> (Inl (Io e), c, s)
                    | (Inr reader, s) \<Rightarrow>
                        (case os_read_line os reader s of
                           (Inl e, s) \<Rightarrow> (Inl (Io e), c, os_close os reader s)
                         | (Inr resp_line, s) \<Rightarrow>
                             (if resp_line = [] then Inl (Protocol ''connection closed'')
                              else (case from_json (trim resp_line) of
                                      Inl e \<Rightarrow> Inl (Protocol e)
                                    | Inr resp \<Rightarrow> Inr (resp_body resp)),
                              c, os_close os reader s))))))"

text \<open>The Stop hook's request, with the read timeout of four hours.\<close>

definition stop_wait ::
  "'s os \<Rightarrow> (request \<Rightarrow> string + string) \<Rightarrow> (string \<Rightarrow> string + response) \<Rightarrow> event \<Rightarrow> client \<Rightarrow> 's \<Rightarrow>
   (client_error + response_body) \<times> client \<times> 's" where
  "stop_wait os to_json from_json ev c s =
     (case os_read_timeout os (cl_stream c) (4 * 3600 * 1000) s of
        (Some e, s) \<Rightarrow> (Inl (Io e), c, s)
      | (None, s) \<Rightarrow> client_request os to_json from_json (StopWait ev) c s)"

section \<open>Versions\<close>

definition version_parts :: "string \<Rightarrow> u64 list" where
  "version_parts s =
     (let ns = map (\<lambda>part. case parse_u64 (takeWhile is_ascii_digit part) of Some n \<Rightarrow> n | None \<Rightarrow> 0)
                 (take 3 (split_on CHR ''.'' (trim s)))
      in ns @ replicate (3 - length ns) 0)"

definition semver_lt :: "string \<Rightarrow> string \<Rightarrow> bool" where
  "semver_lt a b \<longleftrightarrow> version_parts a < version_parts b"

definition outdated :: "string \<Rightarrow> client_error + response_body \<Rightarrow> bool" where
  "outdated mine answer =
     (case answer of
        Inr (RespHelloInfo version) \<Rightarrow> semver_lt version mine
      | Inr (RespError code message) \<Rightarrow> True
      | Inl _ \<Rightarrow> True
      | Inr _ \<Rightarrow> False)"

partial_function (option) await_release :: "'s os \<Rightarrow> path \<Rightarrow> nat \<Rightarrow> 's \<Rightarrow> 's option" where
  [code]: "await_release os p deadline s =
     (case os_now os s of
        (t, s) \<Rightarrow>
          if t < deadline then
            (case try_flock os p s of
               (Some f, s) \<Rightarrow> Some (os_close os f s)
             | (None, s) \<Rightarrow> await_release os p deadline (os_sleep os 100 s))
          else Some s)"

definition ensure_current_version ::
  "'s os \<Rightarrow> (request \<Rightarrow> string + string) \<Rightarrow> (string \<Rightarrow> string + response) \<Rightarrow> string \<Rightarrow> paths \<Rightarrow> client \<Rightarrow> 's \<Rightarrow>
   ((client_error + client) \<times> 's) option" where
  "ensure_current_version os to_json from_json mine ps c s =
     (case client_request os to_json from_json (Hello mine) c s of
        (answer, c, s) \<Rightarrow>
          if \<not> outdated mine answer then Some (Inr c, s)
          else (case client_request os to_json from_json (Shutdown True) c s of
                  (_, c, s) \<Rightarrow>
                    (case os_now os (os_close os (cl_stream c) s) of
                       (t, s) \<Rightarrow>
                         do { s \<leftarrow> await_release os (daemon_lock ps) (t + 120000) s;
                              connect_or_spawn os ps 10000 s })))"

section \<open>Deadlines\<close>

text \<open>The clock runs, under a time \<open>tm\<close> of the system's states: no call of the polling loops turns it
  back, a reading lies between the times before and after it, and a sleep takes at least as long as asked.\<close>

definition clock_runs :: "'s os \<Rightarrow> ('s \<Rightarrow> nat) \<Rightarrow> bool" where
  "clock_runs os tm \<longleftrightarrow>
     (\<forall>s. tm s \<le> fst (os_now os s) \<and> fst (os_now os s) \<le> tm (snd (os_now os s)))
   \<and> (\<forall>n s. tm s + n \<le> tm (os_sleep os n s))
   \<and> (\<forall>p s. tm s \<le> tm (snd (os_connect os p s)))
   \<and> (\<forall>f n s. tm s \<le> tm (snd (os_read_timeout os f n s)))
   \<and> (\<forall>f n s. tm s \<le> tm (snd (os_write_timeout os f n s)))
   \<and> (\<forall>f s. tm s \<le> tm (os_close os f s))
   \<and> (\<forall>p s. tm s \<le> tm (os_mkdirs os p s))
   \<and> (\<forall>p s. tm s \<le> tm (snd (os_open_lock os p s)))
   \<and> (\<forall>f s. tm s \<le> tm (snd (os_flock os f s)))"

lemma time_connect: "clock_runs os tm \<Longrightarrow> tm s \<le> tm (snd (connect os ps n s))"
  unfolding clock_runs_def connect_def
  by (auto simp: case_prod_unfold split: option.split) (meson order.trans)+

lemma time_try_flock: "clock_runs os tm \<Longrightarrow> tm s \<le> tm (snd (try_flock os p s))"
  unfolding clock_runs_def try_flock_def
  by (auto simp: case_prod_unfold Let_def split: option.split bool.split) (meson order.trans)+

text \<open>A loop whose every round returns or lowers a measure returns.\<close>

lemma loop_returns:
  assumes "\<And>s. (\<exists>r. F s = Some r) \<or> (\<exists>s'. F s = F s' \<and> (m :: 's \<Rightarrow> nat) s' < m s)"
  shows "\<exists>r. F s = Some r"
  using assms by (induction s rule: measure_induct_rule [of m]) metis

text \<open>Between two rounds of a polling loop lies a reading before the deadline and a sleep.\<close>

lemma round_measure:
  assumes "clock_runs os tm" and "tm s \<le> tm s1" and "os_now os s1 = (t, s2)" and "t < deadline"
    and "tm s2 \<le> tm s3" and "0 < n"
  shows "deadline - tm (os_sleep os n s3) < deadline - tm s"
proof -
  have "tm s1 \<le> t" "t \<le> tm s2" using assms(1,3) by (auto simp: clock_runs_def dest: spec [of _ s1])
  moreover have "tm s3 + n \<le> tm (os_sleep os n s3)" using assms(1) by (simp add: clock_runs_def)
  ultimately show ?thesis using assms(2,4-6) by linarith
qed

lemma flock_until_returns:
  assumes "clock_runs os tm"
  shows "\<exists>r. flock_until os p deadline s = Some r"
proof (rule loop_returns [of "flock_until os p deadline" "\<lambda>s. deadline - tm s"])
  fix s
  obtain f s1 where f: "try_flock os p s = (f, s1)" by (rule prod.exhaust)
  obtain t s2 where t: "os_now os s1 = (t, s2)" by (rule prod.exhaust)
  have "tm s \<le> tm s1" using time_try_flock [OF assms, of s p] f by simp
  then have "t < deadline \<Longrightarrow> deadline - tm (os_sleep os 25 s2) < deadline - tm s"
    using round_measure [OF assms _ t] by simp
  then show "(\<exists>r. flock_until os p deadline s = Some r) \<or>
      (\<exists>s'. flock_until os p deadline s = flock_until os p deadline s' \<and> deadline - tm s' < deadline - tm s)"
    using f t by (cases f; cases "t < deadline") (auto simp: flock_until.simps [of os p deadline s])
qed

lemma connect_loop_returns:
  assumes "clock_runs os tm"
  shows "\<exists>r. connect_loop os ps deadline s = Some r"
proof (rule loop_returns [of "connect_loop os ps deadline" "\<lambda>s. deadline - tm s"])
  fix s
  obtain r s1 where r: "connect os ps 30000 s = (r, s1)" by (rule prod.exhaust)
  obtain t s2 where t: "os_now os s1 = (t, s2)" by (rule prod.exhaust)
  have "tm s \<le> tm s1" using time_connect [OF assms, of s ps 30000] r by simp
  then have "t < deadline \<Longrightarrow> deadline - tm (os_sleep os 50 s2) < deadline - tm s"
    using round_measure [OF assms _ t] by simp
  then show "(\<exists>r. connect_loop os ps deadline s = Some r) \<or>
      (\<exists>s'. connect_loop os ps deadline s = connect_loop os ps deadline s' \<and> deadline - tm s' < deadline - tm s)"
    using r t by (cases r; cases "t < deadline") (auto simp: connect_loop.simps [of os ps deadline s])
qed

lemma await_release_returns:
  assumes "clock_runs os tm"
  shows "\<exists>r. await_release os p deadline s = Some r"
proof (rule loop_returns [of "await_release os p deadline" "\<lambda>s. deadline - tm s"])
  fix s
  obtain t s1 where t: "os_now os s = (t, s1)" by (rule prod.exhaust)
  obtain f s2 where f: "try_flock os p s1 = (f, s2)" by (rule prod.exhaust)
  have "tm s1 \<le> tm s2" using time_try_flock [OF assms, of s1 p] f by simp
  then have "t < deadline \<Longrightarrow> deadline - tm (os_sleep os 100 s2) < deadline - tm s"
    using round_measure [OF assms order.refl t] by simp
  then show "(\<exists>r. await_release os p deadline s = Some r) \<or>
      (\<exists>s'. await_release os p deadline s = await_release os p deadline s' \<and> deadline - tm s' < deadline - tm s)"
    using f t by (cases f; cases "t < deadline") (auto simp: await_release.simps [of os p deadline s])
qed

lemma spawn_daemon_locked_returns:
  assumes "clock_runs os tm"
  shows "\<exists>r. spawn_daemon_locked os ps deadline s = Some r"
proof -
  obtain lock s1 where "flock_until os (spawn_lock ps) deadline s = Some (lock, s1)"
    using flock_until_returns [OF assms, of "spawn_lock ps" deadline s] by auto
  then show ?thesis
    by (auto simp: spawn_daemon_locked_def split: option.split prod.split)
qed

lemma connect_or_spawn_returns:
  assumes "clock_runs os tm"
  shows "\<exists>r. connect_or_spawn os ps budget s = Some r"
proof -
  obtain t s1 where t: "os_now os s = (t, s1)" by (rule prod.exhaust)
  obtain r s2 where r: "connect os ps budget s1 = (r, s2)" by (rule prod.exhaust)
  obtain u s3 where u: "spawn_daemon_locked os ps (t + budget) s2 = Some (u, s3)"
    using spawn_daemon_locked_returns [OF assms, of ps "t + budget" s2] by auto
  show ?thesis
    using connect_loop_returns [OF assms, of ps "t + budget" s3] t r u
    by (cases r; cases u) (auto simp: connect_or_spawn_def)
qed

lemma ensure_current_version_returns:
  assumes "clock_runs os tm"
  shows "\<exists>r. ensure_current_version os tj fj mine ps c s = Some r"
proof -
  obtain a c1 s1 where a: "client_request os tj fj (Hello mine) c s = (a, c1, s1)" by (metis prod.exhaust)
  obtain b c2 s2 where b: "client_request os tj fj (Shutdown True) c1 s1 = (b, c2, s2)" by (metis prod.exhaust)
  obtain t s3 where t: "os_now os (os_close os (cl_stream c2) s2) = (t, s3)" by (rule prod.exhaust)
  obtain s4 where "await_release os (daemon_lock ps) (t + 120000) s3 = Some s4"
    using await_release_returns [OF assms, of "daemon_lock ps" "t + 120000" s3] by auto
  then show ?thesis
    using connect_or_spawn_returns [OF assms, of ps 10000 s4] a b t
    by (auto simp: ensure_current_version_def)
qed

section \<open>Properties\<close>

text \<open>The client always returns: whatever the sockets, locks and files do, when the clock runs,
  connecting to a daemon, with or without starting one, and replacing an outdated daemon come to a result
  or an error.\<close>

theorem client_returns:
  assumes "clock_runs os tm"
  shows "(\<exists>r s'. connect_or_spawn os ps budget s = Some (r, s'))
    \<and> (\<exists>s'. spawn_daemon_detached os ps s = Some s')
    \<and> (\<exists>r s'. ensure_current_version os to_json from_json mine ps c s = Some (r, s'))"
proof (intro conjI)
  show "\<exists>r s'. connect_or_spawn os ps budget s = Some (r, s')"
    using connect_or_spawn_returns [OF assms, of ps budget s] by auto
  obtain t s1 where "os_now os s = (t, s1)" by (rule prod.exhaust)
  then show "\<exists>s'. spawn_daemon_detached os ps s = Some s'"
    using spawn_daemon_locked_returns [OF assms, of ps "t + 500" s1] by (auto simp: spawn_daemon_detached_def)
  show "\<exists>r s'. ensure_current_version os to_json from_json mine ps c s = Some (r, s')"
    using ensure_current_version_returns [OF assms, of to_json from_json mine ps c s] by auto
qed

text \<open>A system whose state is its clock, in which nothing answers and every lock is taken.\<close>

definition no_files :: fs where
  "no_files = \<lparr>read_to_string = (\<lambda>_. Inl ''no such file''), read_bytes = (\<lambda>_. None), is_dir = (\<lambda>_. False),
     is_file = (\<lambda>_. False), path_exists = (\<lambda>_. False), read_dir = (\<lambda>_. None), canonicalize = (\<lambda>_. None)\<rparr>"

definition sample_os :: "nat os" where
  "sample_os = \<lparr>os_env = Map.empty, os_fs = (\<lambda>_. no_files), os_exe = None, os_now = (\<lambda>s. (s, s)),
     os_sleep = (\<lambda>n s. s + n), os_connect = (\<lambda>_ s. (None, s)), os_read_timeout = (\<lambda>_ _ s. (None, s)),
     os_write_timeout = (\<lambda>_ _ s. (None, s)), os_write_all = (\<lambda>_ _ s. (Some ''broken pipe'', s)),
     os_clone = (\<lambda>f s. (Inr f, s)), os_read_line = (\<lambda>_ s. (Inr [], s)), os_close = (\<lambda>_ s. s),
     os_mkdirs = (\<lambda>_ s. s), os_open_lock = (\<lambda>_ s. (Some 1, s)), os_flock = (\<lambda>_ s. (False, s)),
     os_remove = (\<lambda>_ s. s), os_open_log = (\<lambda>_ s. (Inr 2, s)), os_spawn = (\<lambda>_ _ _ s. (None, s))\<rparr>"

lemma sample_clock: "clock_runs sample_os (\<lambda>s. s)"
  by (simp add: clock_runs_def sample_os_def)

theorem client_returns_witness:
  "\<exists>r s'. connect_or_spawn sample_os \<lparr>base = ''/h''\<rparr> 120 7 = Some (r, s')"
  using client_returns [OF sample_clock] by blast

lemma show_u64_digits: "x \<in> set (show_u64 n) \<Longrightarrow> is_ascii_digit x"
  by (simp add: show_u64_def show_nat_digits)

lemma show_u64_nonempty [simp]: "show_u64 n \<noteq> []"
  by (simp add: show_u64_def)

lemma show_u64_whole [simp]: "takeWhile is_ascii_digit (show_u64 n) = show_u64 n"
  using show_u64_digits by (simp add: takeWhile_eq_all_conv)

lemma show_u64_no_dot: "CHR ''.'' \<notin> set (show_u64 n)"
  using show_u64_digits [of "CHR ''.''" n] by (auto simp: is_ascii_digit_def)

lemma show_u64_ends: "ascii_graphic (hd (show_u64 n))" "ascii_graphic (last (show_u64 n))"
  using is_ascii_digit_graphic show_u64_digits last_in_set hd_in_set show_u64_nonempty by blast+

definition version_text :: "u64 \<Rightarrow> u64 \<Rightarrow> u64 \<Rightarrow> string" where
  "version_text a b c = show_u64 a @ ''.'' @ show_u64 b @ ''.'' @ show_u64 c"

lemma split_version: "split_on CHR ''.'' (version_text a b c) = [show_u64 a, show_u64 b, show_u64 c]"
  using show_u64_no_dot by (simp add: version_text_def split_on_append split_on_no_sep)

lemma trim_version: "trim (version_text a b c) = version_text a b c"
  by (rule trim_graphic) (simp_all add: version_text_def show_u64_ends)

lemma version_printed: "version_parts (version_text a b c) = [a, b, c]"
  by (simp add: version_parts_def Let_def split_version trim_version)

text \<open>\<open>semver_lt\<close> orders printed versions by major, minor and patch number, as numbers.\<close>

theorem semver_lt_numeric:
  "semver_lt (version_text a b c) (version_text a' b' c') \<longleftrightarrow>
     a < a' \<or> a = a' \<and> (b < b' \<or> b = b' \<and> c < c')"
  by (simp add: semver_lt_def version_printed)

end
