(* ===== verification/Migrations.thy ===== *)
theory Migrations
  imports Rust_Prelude
begin

text \<open>
  Opening the store, \<open>Store::init\<close> of \<open>crates/autofork-core/src/store.rs\<close>: the schema batches that
  bring a database from its recorded \<open>user_version\<close> to version 5. A schema is its tables with their
  column names, and its indexes; a batch runs in one transaction, and the version is written once,
  after the last batch. Column types and constraints, the pragmas for journalling and the file
  itself are not modelled.
\<close>

section \<open>The model\<close>

record database =
  user_version :: int
  db_tables :: "(string \<times> string list) list"
  db_indexes :: "string list"

datatype ddl =
    CreateTableIfNotExists string "string list"
  | CreateIndexIfNotExists string string
  | AddColumn string string

text \<open>Adding a column to a missing table, or one the table already has, is an error.\<close>

fun exec_ddl :: "ddl \<Rightarrow> database \<Rightarrow> database option" where
  "exec_ddl (CreateTableIfNotExists tbl cols) db =
     Some (case map_of (db_tables db) tbl of
             Some _ \<Rightarrow> db
           | None \<Rightarrow> db\<lparr>db_tables := db_tables db @ [(tbl, cols)]\<rparr>)"
| "exec_ddl (CreateIndexIfNotExists idx tbl) db =
     (case map_of (db_tables db) tbl of
        None \<Rightarrow> None
      | Some _ \<Rightarrow>
          Some (if idx \<in> set (db_indexes db) then db else db\<lparr>db_indexes := db_indexes db @ [idx]\<rparr>))"
| "exec_ddl (AddColumn tbl col) db =
     (case map_of (db_tables db) tbl of
        None \<Rightarrow> None
      | Some cols \<Rightarrow>
          if col \<in> set cols then None
          else Some (db\<lparr>db_tables :=
                 map (\<lambda>(t, cs). if t = tbl then (t, cs @ [col]) else (t, cs)) (db_tables db)\<rparr>))"

fun exec_batch :: "ddl list \<Rightarrow> database \<Rightarrow> database option" where
  "exec_batch [] db = Some db"
| "exec_batch (d # ds) db = Option.bind (exec_ddl d db) (exec_batch ds)"

definition SCHEMA_VERSION :: int where
  "SCHEMA_VERSION = 5"

definition batch_1 :: "ddl list" where
  "batch_1 =
     [CreateTableIfNotExists ''sessions''
        [''session_id'', ''project_root'', ''cwd'', ''transcript_path'', ''status'', ''last_activity'',
         ''forks_ran_at'', ''transcript_offset'', ''prompt_tokens'', ''model'', ''created_at''],
      CreateTableIfNotExists ''fork_roster''
        [''session_id'', ''fork_name'', ''fork_path'', ''queued_at'', ''ran_at''],
      CreateTableIfNotExists ''fork_fires'' [''session_id'', ''fork_name'', ''trigger_label'', ''fired_at''],
      CreateTableIfNotExists ''fork_runs''
        [''id'', ''session_id'', ''fork_name'', ''trigger_label'', ''state'', ''started_at'',
         ''finished_at'', ''fork_session_id'', ''cost_usd'', ''error''],
      CreateTableIfNotExists ''reports''
        [''id'', ''run_id'', ''origin_session_id'', ''project_root'', ''fork_name'', ''trigger_label'',
         ''kind'', ''body'', ''created_at'', ''delivered_at'', ''delivered_to_session''],
      CreateIndexIfNotExists ''idx_reports_pending'' ''reports'',
      CreateIndexIfNotExists ''idx_runs_session'' ''fork_runs'']"

definition batch_2 :: "ddl list" where
  "batch_2 = [AddColumn ''sessions'' ''enable_tags'', AddColumn ''sessions'' ''disable_tags'']"

definition batch_3 :: "ddl list" where
  "batch_3 = [AddColumn ''fork_runs'' ''tags'']"

definition batch_4 :: "ddl list" where
  "batch_4 = [AddColumn ''sessions'' ''pause_epoch'', AddColumn ''sessions'' ''pause_started_at'']"

definition batch_5 :: "ddl list" where
  "batch_5 =
     [CreateTableIfNotExists ''fork_spawns''
        [''session_id'', ''tool_use_id'', ''task_id'', ''fork_name'', ''status'', ''spawned_at'',
         ''terminal_at''],
      CreateTableIfNotExists ''pending_deps''
        [''session_id'', ''fork_name'', ''fork_path'', ''trigger_label'', ''overlap'', ''preds'',
         ''created_at'']]"

definition migrations :: "(int \<times> ddl list) list" where
  "migrations = [(1, batch_1), (2, batch_2), (3, batch_3), (4, batch_4), (5, batch_5)]"

definition due_batches :: "int \<Rightarrow> ddl list list" where
  "due_batches version = map snd (filter (\<lambda>(v, _). version < v) migrations)"

fun exec_batches :: "ddl list list \<Rightarrow> database \<Rightarrow> database option" where
  "exec_batches [] db = Some db"
| "exec_batches (b # bs) db = Option.bind (exec_batch b db) (exec_batches bs)"

definition init_db :: "database \<Rightarrow> database option" where
  "init_db db =
     map_option (\<lambda>db. db\<lparr>user_version := SCHEMA_VERSION\<rparr>) (exec_batches (due_batches (user_version db)) db)"

section \<open>Upgrades\<close>

definition fresh_db :: database where
  "fresh_db = \<lparr>user_version = 0, db_tables = [], db_indexes = []\<rparr>"

text \<open>A process that stopped while it initialised a database: its first \<open>k\<close> batches are
  committed, the version is not written.\<close>

definition interrupted_init :: "nat \<Rightarrow> database \<Rightarrow> database option" where
  "interrupted_init k db = exec_batches (take k (due_batches (user_version db))) db"

text \<open>A column of a table stays.\<close>

definition has_column :: "string \<Rightarrow> string \<Rightarrow> database \<Rightarrow> bool" where
  "has_column tbl col db = (case map_of (db_tables db) tbl of Some cols \<Rightarrow> col \<in> set cols | None \<Rightarrow> False)"

definition columns_kept :: "database \<Rightarrow> database \<Rightarrow> bool" where
  "columns_kept db db' \<longleftrightarrow>
     (\<forall>tbl cols. map_of (db_tables db) tbl = Some cols \<longrightarrow> (\<exists>more. map_of (db_tables db') tbl = Some (cols @ more)))"

lemma columns_kept_refl [simp]: "columns_kept db db"
  by (simp add: columns_kept_def)

lemma columns_kept_trans: "columns_kept a b \<Longrightarrow> columns_kept b c \<Longrightarrow> columns_kept a c"
  by (fastforce simp: columns_kept_def)

lemma kept_has_column: "columns_kept db db' \<Longrightarrow> has_column tbl col db \<Longrightarrow> has_column tbl col db'"
  by (fastforce simp: columns_kept_def has_column_def split: option.splits)

lemma map_of_extend:
  "map_of (map (\<lambda>(t, cs). if t = tbl then (t, cs @ [col]) else (t, cs)) xs) k =
     map_option (\<lambda>cs. if k = tbl then cs @ [col] else cs) (map_of xs k)"
  by (induction xs) auto

lemma exec_ddl_keeps: "exec_ddl d db = Some db' \<Longrightarrow> columns_kept db db' \<and> user_version db' = user_version db"
  by (cases d) (auto simp: columns_kept_def map_of_extend map_add_def split: option.splits if_splits)

lemma exec_batch_keeps: "exec_batch ds db = Some db' \<Longrightarrow> columns_kept db db' \<and> user_version db' = user_version db"
  by (induction ds arbitrary: db)
    (fastforce simp: bind_eq_Some_conv dest: exec_ddl_keeps intro: columns_kept_trans)+

lemma exec_batches_keep: "exec_batches bs db = Some db' \<Longrightarrow> columns_kept db db' \<and> user_version db' = user_version db"
  by (induction bs arbitrary: db)
    (fastforce simp: bind_eq_Some_conv dest: exec_batch_keeps intro: columns_kept_trans)+

text \<open>A batch is a sequence of statements, and batches one after the other are one.\<close>

lemma exec_batch_append: "exec_batch (xs @ ys) db = Option.bind (exec_batch xs db) (exec_batch ys)"
proof (induction xs arbitrary: db)
  case (Cons d ds)
  then show ?case by (cases "exec_ddl d db") simp_all
qed simp

lemma exec_batches_concat: "exec_batches bs = exec_batch (concat bs)"
proof
  fix db
  show "exec_batches bs db = exec_batch (concat bs) db"
  proof (induction bs arbitrary: db)
    case (Cons b bs)
    then show ?case by (cases "exec_batch b db") (simp_all add: exec_batch_append)
  qed simp
qed

text \<open>Adding a column twice fails; creating twice is creating once.\<close>

lemma add_column_once:
  "exec_batch ds db = Some db' \<Longrightarrow> AddColumn tbl col \<in> set ds \<Longrightarrow> has_column tbl col db'"
proof (induction ds arbitrary: db)
  case (Cons d ds)
  then obtain db1 where 1: "exec_ddl d db = Some db1" "exec_batch ds db1 = Some db'"
    by (auto simp: bind_eq_Some_conv)
  show ?case
  proof (cases "d = AddColumn tbl col")
    case True
    then have "has_column tbl col db1"
      using 1(1) by (auto simp: has_column_def map_of_extend split: option.splits if_splits)
    then show ?thesis using exec_batch_keeps [OF 1(2)] kept_has_column by blast
  qed (use Cons 1 in auto)
qed simp

lemma add_column_again:
  "has_column tbl col db \<Longrightarrow> AddColumn tbl col \<in> set ds \<Longrightarrow> exec_batch ds db = None"
proof (induction ds arbitrary: db)
  case (Cons d ds)
  show ?case
  proof (cases "exec_ddl d db")
    case (Some db1)
    then have "d \<noteq> AddColumn tbl col" using Cons.prems(1) by (auto simp: has_column_def split: option.splits if_splits)
    moreover have "has_column tbl col db1"
      using exec_ddl_keeps [OF Some] Cons.prems(1) kept_has_column by blast
    ultimately show ?thesis using Some Cons by simp
  qed simp
qed simp

fun adds_column :: "ddl \<Rightarrow> bool" where
  "adds_column (AddColumn tbl col) = True"
| "adds_column _ = False"

text \<open>A statement that has had its effect.\<close>

fun done_already :: "ddl \<Rightarrow> database \<Rightarrow> bool" where
  "done_already (CreateTableIfNotExists tbl cols) db \<longleftrightarrow> map_of (db_tables db) tbl \<noteq> None"
| "done_already (CreateIndexIfNotExists idx tbl) db \<longleftrightarrow> map_of (db_tables db) tbl \<noteq> None \<and> idx \<in> set (db_indexes db)"
| "done_already (AddColumn tbl col) db \<longleftrightarrow> False"

lemma done_again: "done_already d db \<Longrightarrow> exec_ddl d db = Some db"
  by (cases d) auto

lemma done_after: "exec_ddl d db = Some db' \<Longrightarrow> \<not> adds_column d \<Longrightarrow> done_already d db'"
  by (cases d) (auto simp: map_add_def split: option.splits if_splits)

lemma done_stays: "done_already d db \<Longrightarrow> exec_ddl d' db = Some db' \<Longrightarrow> done_already d db'"
  by (cases d; cases d') (auto simp: map_of_extend map_add_def split: option.splits if_splits)

lemma done_stays_batch: "exec_batch ds db = Some db' \<Longrightarrow> done_already d db \<Longrightarrow> done_already d db'"
  by (induction ds arbitrary: db) (auto simp: bind_eq_Some_conv dest: done_stays)

lemma done_after_batch:
  "exec_batch ds db = Some db' \<Longrightarrow> \<not> list_ex adds_column ds \<Longrightarrow> \<forall>d \<in> set ds. done_already d db'"
proof (induction ds arbitrary: db)
  case (Cons d ds)
  then obtain db1 where 1: "exec_ddl d db = Some db1" "exec_batch ds db1 = Some db'"
    by (auto simp: bind_eq_Some_conv)
  with Cons show ?case using done_stays_batch [OF 1(2)] done_after [OF 1(1)] by auto
qed simp

lemma exec_done: "\<forall>d \<in> set ds. done_already d db \<Longrightarrow> exec_batch ds db = Some db"
  by (induction ds) (simp_all add: done_again)

text \<open>C32. Opening a store loses nothing: whatever database it is given, when it succeeds every table has its
  columns, in their order, with perhaps new ones behind them; the version is the current one, and opening the
  store again changes nothing.\<close>

theorem init_keeps_columns:
  assumes "init_db db = Some db'"
  shows "columns_kept db db' \<and> user_version db' = SCHEMA_VERSION \<and> init_db db' = Some db'"
proof -
  from assms obtain db1 where 1: "exec_batches (due_batches (user_version db)) db = Some db1"
    "db' = db1\<lparr>user_version := SCHEMA_VERSION\<rparr>"
    by (auto simp: init_db_def)
  have "due_batches SCHEMA_VERSION = []" by (simp add: due_batches_def migrations_def SCHEMA_VERSION_def)
  with 1 exec_batches_keep [OF 1(1)] show ?thesis by (simp add: init_db_def columns_kept_def)
qed

theorem init_keeps_columns_witness:
  "\<exists>db'. init_db fresh_db = Some db' \<and> user_version db' = 5 \<and> init_db db' = Some db'"
proof -
  have "init_db fresh_db \<noteq> None" by code_simp
  then obtain db' where db': "init_db fresh_db = Some db'" by blast
  from init_keeps_columns [OF this] db' show ?thesis by (simp add: SCHEMA_VERSION_def)
qed

text \<open>C33. An upgrade is restartable exactly as long as it has added no column. When the initialisation of a
  database, of whatever version, stops after some batches and before the version is written, then, if one of
  these batches adds a column, every later attempt to open the store fails; otherwise the next attempt ends as
  the first one would have.\<close>

theorem interrupted_init_restarts:
  assumes "interrupted_init k db = Some db1"
  shows "if list_ex (list_ex adds_column) (take k (due_batches (user_version db))) then init_db db1 = None
    else init_db db1 = init_db db"
proof -
  let ?bs = "due_batches (user_version db)"
  let ?run = "concat (take k ?bs)" and ?rest = "concat (drop k ?bs)"
  have all: "concat ?bs = ?run @ ?rest" by (metis append_take_drop_id concat_append)
  have run: "exec_batch ?run db = Some db1" using assms by (simp add: interrupted_init_def exec_batches_concat)
  then have version: "user_version db1 = user_version db" using exec_batch_keeps by blast
  have ex: "list_ex (list_ex adds_column) (take k ?bs) \<longleftrightarrow> (\<exists>tbl col. AddColumn tbl col \<in> set ?run)"
    by (force simp: list_ex_iff elim: adds_column.elims(2))
  show ?thesis
  proof (cases "list_ex (list_ex adds_column) (take k ?bs)")
    case True
    then obtain tbl col where "AddColumn tbl col \<in> set ?run" using ex by blast
    then have "exec_batch ?run db1 = None" using add_column_again add_column_once [OF run] by blast
    with True show ?thesis by (simp add: init_db_def version exec_batches_concat all exec_batch_append)
  next
    case False
    then have "\<not> list_ex adds_column ?run" by (auto simp: list_ex_iff)
    then have "exec_batch ?run db1 = Some db1" using exec_done done_after_batch [OF run] by blast
    with False run show ?thesis by (simp add: init_db_def version exec_batches_concat all exec_batch_append)
  qed
qed

theorem interrupted_init_restarts_witness:
  "Option.bind (interrupted_init 2 fresh_db) init_db = None
   \<and> Option.bind (interrupted_init 1 fresh_db) init_db = init_db fresh_db"
proof -
  have "interrupted_init 2 fresh_db \<noteq> None" "interrupted_init 1 fresh_db \<noteq> None" by code_simp+
  then obtain a b where db: "interrupted_init 2 fresh_db = Some a" "interrupted_init 1 fresh_db = Some b" by blast
  have "list_ex (list_ex adds_column) (take 2 (due_batches (user_version fresh_db)))"
    "\<not> list_ex (list_ex adds_column) (take 1 (due_batches (user_version fresh_db)))"
    by code_simp+
  with interrupted_init_restarts [OF db(1)] interrupted_init_restarts [OF db(2)] db show ?thesis by simp
qed

text \<open>A database of a newer release is taken as it is, but its version is set back.\<close>

lemma newer_version_lost: "SCHEMA_VERSION \<le> user_version db \<Longrightarrow> init_db db = Some (db\<lparr>user_version := SCHEMA_VERSION\<rparr>)"
  by (simp add: init_db_def due_batches_def migrations_def SCHEMA_VERSION_def)

end
