(* ===== verification/Startup.thy ===== *)
theory Startup
  imports Config
begin

text \<open>
  Daemons and clients that race to start one: \<open>main\<close> and \<open>async_main\<close> of
  \<open>crates/autofork-daemon/src/main.rs\<close> and \<open>spawn_daemon_locked\<close> with the lock probe of
  \<open>ensure_current_version\<close> of \<open>crates/autofork/src/client.rs\<close>, as a transition system. Any number of
  processes share one socket path and the two lock files of one base directory; daemons of another base
  directory that use the same socket path are outside the system. A step is one system call; locks are
  exclusive, and the kernel releases a lock when its holder exits or dies, which a process may do at any
  moment. The source discards the result of every removal of the socket, so a removal may leave the file.
\<close>

section \<open>The transition system\<close>

text \<open>Where a client is: waiting for the spawn lock; holding it; its connection having failed (for whatever
  reason); holding the daemon lock as well; having tried to remove the socket; about to launch; probing the daemon lock
  only; finished.\<close>

datatype cli_pc = Waiting | SpawnLocked | Unanswered | BothLocked | Unlinked | Launching | Probing | Finished

text \<open>Where a daemon is: just started; holding its lock; having tried to remove the old socket; serving; having
  tried to remove its own socket; gone. \<open>Absent\<close> is a process that does not exist yet.\<close>

datatype daemon_pc = Absent | Started | Locked | Cleaned | Serving | Closing | Gone

datatype holder = Cli nat | Dmn nat

text \<open>What is at the socket's path: nothing, a socket nobody listens on, or a daemon's.\<close>

datatype sock_file = NoFile | Stale | BoundBy nat

record race =
  rc_cli :: "nat \<Rightarrow> cli_pc"
  rc_daemon :: "nat \<Rightarrow> daemon_pc"
  rc_spawn_lock :: "nat option"
  rc_daemon_lock :: "holder option"
  rc_sock :: sock_file

abbreviation set_cli :: "nat \<Rightarrow> cli_pc \<Rightarrow> race \<Rightarrow> race" where
  "set_cli c pc s \<equiv> s\<lparr>rc_cli := (rc_cli s)(c := pc)\<rparr>"

abbreviation set_daemon :: "nat \<Rightarrow> daemon_pc \<Rightarrow> race \<Rightarrow> race" where
  "set_daemon d pc s \<equiv> s\<lparr>rc_daemon := (rc_daemon s)(d := pc)\<rparr>"

text \<open>A client ends, its locks with it.\<close>

definition cli_exit :: "nat \<Rightarrow> race \<Rightarrow> race" where
  "cli_exit c s = s\<lparr>rc_cli := (rc_cli s)(c := Finished),
     rc_spawn_lock := (if rc_spawn_lock s = Some c then None else rc_spawn_lock s),
     rc_daemon_lock := (if rc_daemon_lock s = Some (Cli c) then None else rc_daemon_lock s)\<rparr>"

text \<open>A daemon ends, its lock with it; a socket it still has stays behind.\<close>

definition daemon_exit :: "nat \<Rightarrow> race \<Rightarrow> race" where
  "daemon_exit d s = s\<lparr>rc_daemon := (rc_daemon s)(d := Gone),
     rc_daemon_lock := (if rc_daemon_lock s = Some (Dmn d) then None else rc_daemon_lock s),
     rc_sock := (if rc_sock s = BoundBy d then Stale else rc_sock s)\<rparr>"

inductive client_step :: "race \<Rightarrow> race \<Rightarrow> bool" where
  take_spawn_lock:
    "rc_cli s c = Waiting \<Longrightarrow> rc_spawn_lock s = None \<Longrightarrow>
     client_step s (set_cli c SpawnLocked (s\<lparr>rc_spawn_lock := Some c\<rparr>))"
| answered:
    "rc_cli s c = SpawnLocked \<Longrightarrow> rc_sock s = BoundBy d \<Longrightarrow> client_step s (cli_exit c s)"
| unanswered:
    "rc_cli s c = SpawnLocked \<Longrightarrow> client_step s (set_cli c Unanswered s)"
| daemon_alive:
    "rc_cli s c = Unanswered \<Longrightarrow> rc_daemon_lock s \<noteq> None \<Longrightarrow> client_step s (cli_exit c s)"
| take_daemon_lock:
    "rc_cli s c = Unanswered \<Longrightarrow> rc_daemon_lock s = None \<Longrightarrow>
     client_step s (set_cli c BothLocked (s\<lparr>rc_daemon_lock := Some (Cli c)\<rparr>))"
| unlink:
    "rc_cli s c = BothLocked \<Longrightarrow> client_step s (set_cli c Unlinked (s\<lparr>rc_sock := NoFile\<rparr>))"
| unlink_fails:
    "rc_cli s c = BothLocked \<Longrightarrow> client_step s (set_cli c Unlinked s)"
| drop_daemon_lock:
    "rc_cli s c = Unlinked \<Longrightarrow> client_step s (set_cli c Launching (s\<lparr>rc_daemon_lock := None\<rparr>))"
| launch:
    "rc_cli s c = Launching \<Longrightarrow> rc_daemon s d = Absent \<Longrightarrow>
     client_step s (cli_exit c (set_daemon d Started s))"
| probe:
    "rc_cli s c = Waiting \<Longrightarrow> rc_daemon_lock s = None \<Longrightarrow>
     client_step s (set_cli c Probing (s\<lparr>rc_daemon_lock := Some (Cli c)\<rparr>))"
| probed:
    "rc_cli s c = Probing \<Longrightarrow> client_step s (set_cli c Waiting (s\<lparr>rc_daemon_lock := None\<rparr>))"
| client_ends:
    "client_step s (cli_exit c s)"

inductive daemon_step :: "race \<Rightarrow> race \<Rightarrow> bool" where
  run_by_hand:
    "rc_daemon s d = Absent \<Longrightarrow> daemon_step s (set_daemon d Started s)"
| lock_taken:
    "rc_daemon s d = Started \<Longrightarrow> rc_daemon_lock s \<noteq> None \<Longrightarrow> daemon_step s (daemon_exit d s)"
| lock_free:
    "rc_daemon s d = Started \<Longrightarrow> rc_daemon_lock s = None \<Longrightarrow>
     daemon_step s (set_daemon d Locked (s\<lparr>rc_daemon_lock := Some (Dmn d)\<rparr>))"
| clean_socket:
    "rc_daemon s d = Locked \<Longrightarrow> daemon_step s (set_daemon d Cleaned (s\<lparr>rc_sock := NoFile\<rparr>))"
| clean_fails:
    "rc_daemon s d = Locked \<Longrightarrow> daemon_step s (set_daemon d Cleaned s)"
| bind:
    "rc_daemon s d = Cleaned \<Longrightarrow> rc_sock s = NoFile \<Longrightarrow>
     daemon_step s (set_daemon d Serving (s\<lparr>rc_sock := BoundBy d\<rparr>))"
| cannot_bind:
    "rc_daemon s d = Cleaned \<Longrightarrow> rc_sock s \<noteq> NoFile \<Longrightarrow> daemon_step s (daemon_exit d s)"
| shut_down:
    "rc_daemon s d = Serving \<Longrightarrow> daemon_step s (set_daemon d Closing (s\<lparr>rc_sock := NoFile\<rparr>))"
| shut_down_fails:
    "rc_daemon s d = Serving \<Longrightarrow> daemon_step s (set_daemon d Closing (s\<lparr>rc_sock := Stale\<rparr>))"
| daemon_ends:
    "rc_daemon s d \<noteq> Absent \<Longrightarrow> daemon_step s (daemon_exit d s)"

definition race_step :: "race \<Rightarrow> race \<Rightarrow> bool" where
  "race_step s s' \<longleftrightarrow> client_step s s' \<or> daemon_step s s'"

text \<open>At first there is no daemon, and perhaps a socket of one that died; every client may start.\<close>

definition race_start :: "race \<Rightarrow> bool" where
  "race_start s \<longleftrightarrow> rc_cli s = (\<lambda>_. Waiting) \<and> rc_daemon s = (\<lambda>_. Absent) \<and> rc_spawn_lock s = None
     \<and> rc_daemon_lock s = None \<and> rc_sock s \<in> {NoFile, Stale}"

section \<open>Who holds what\<close>

fun cli_has_daemon_lock :: "cli_pc \<Rightarrow> bool" where
  "cli_has_daemon_lock BothLocked = True"
| "cli_has_daemon_lock Unlinked = True"
| "cli_has_daemon_lock Probing = True"
| "cli_has_daemon_lock _ = False"

fun daemon_has_lock :: "daemon_pc \<Rightarrow> bool" where
  "daemon_has_lock Absent = False"
| "daemon_has_lock Started = False"
| "daemon_has_lock Gone = False"
| "daemon_has_lock _ = True"

definition locks_ok :: "race \<Rightarrow> bool" where
  "locks_ok s \<longleftrightarrow>
     (\<forall>c. cli_has_daemon_lock (rc_cli s c) \<longrightarrow> rc_daemon_lock s = Some (Cli c))
   \<and> (\<forall>d. daemon_has_lock (rc_daemon s d) \<longrightarrow> rc_daemon_lock s = Some (Dmn d))"

definition sock_ok :: "race \<Rightarrow> bool" where
  "sock_ok s \<longleftrightarrow>
     (\<forall>d. rc_daemon s d = Serving \<longleftrightarrow> rc_sock s = BoundBy d)
   \<and> (\<forall>d. rc_daemon s d = Cleaned \<longrightarrow> rc_sock s \<in> {NoFile, Stale})"

lemma ok_start: "race_start s \<Longrightarrow> locks_ok s \<and> sock_ok s"
  by (auto simp: race_start_def locks_ok_def sock_ok_def)

lemma locks_cli_exit: "locks_ok s \<Longrightarrow> locks_ok (cli_exit c s)"
  by (auto simp: locks_ok_def cli_exit_def)

lemma locks_daemon_exit: "locks_ok s \<Longrightarrow> locks_ok (daemon_exit d s)"
  by (auto simp: locks_ok_def daemon_exit_def)

text \<open>The daemon lock excludes.\<close>

lemma cli_lock_excludes:
  assumes "locks_ok s" and "cli_has_daemon_lock (rc_cli s c)"
  shows "\<not> daemon_has_lock (rc_daemon s d)" and "cli_has_daemon_lock (rc_cli s c') \<Longrightarrow> c' = c"
  using assms unfolding locks_ok_def by (metis option.inject holder.inject(1) holder.distinct(1))+

lemma daemon_lock_excludes:
  assumes "locks_ok s" and "daemon_has_lock (rc_daemon s d)"
  shows "daemon_has_lock (rc_daemon s d') \<Longrightarrow> d' = d"
  using assms unfolding locks_ok_def by (metis option.inject holder.inject(2))

lemma locks_release:
  assumes "locks_ok s" and "cli_has_daemon_lock (rc_cli s c)" and "\<not> cli_has_daemon_lock pc"
  shows "locks_ok (set_cli c pc (s\<lparr>rc_daemon_lock := None\<rparr>))"
  using assms(3) cli_lock_excludes [OF assms(1,2)] by (auto simp: locks_ok_def)

lemma locks_client: "client_step s s' \<Longrightarrow> locks_ok s \<Longrightarrow> locks_ok s'"
proof (induction rule: client_step.induct)
  case (launch s c d)
  then have "locks_ok (set_daemon d Started s)" by (auto simp: locks_ok_def)
  then show ?case by (rule locks_cli_exit)
next
  case (drop_daemon_lock s c)
  then show ?case by (intro locks_release) simp_all
next
  case (probed s c)
  then show ?case by (intro locks_release) simp_all
qed (simp_all add: locks_cli_exit, auto simp: locks_ok_def)

lemma locks_daemon: "daemon_step s s' \<Longrightarrow> locks_ok s \<Longrightarrow> locks_ok s'"
  by (induction rule: daemon_step.induct) (simp_all add: locks_daemon_exit, auto simp: locks_ok_def)

text \<open>The socket: whoever removes or creates it holds the daemon lock.\<close>

lemma sock_remove:
  assumes "sock_ok s" and "\<And>d. rc_daemon s d \<noteq> Serving"
  shows "sock_ok (s\<lparr>rc_sock := NoFile\<rparr>)"
  using assms by (auto simp: sock_ok_def)

lemma sock_cli: "sock_ok (s\<lparr>rc_cli := x\<rparr>) = sock_ok s" "sock_ok (s\<lparr>rc_spawn_lock := y\<rparr>) = sock_ok s"
  "sock_ok (s\<lparr>rc_daemon_lock := z\<rparr>) = sock_ok s" "sock_ok (cli_exit c s) = sock_ok s"
  by (simp_all add: sock_ok_def cli_exit_def)

lemma sock_daemon_exit: "sock_ok s \<Longrightarrow> sock_ok (daemon_exit d s)"
  by (auto simp: sock_ok_def daemon_exit_def)

lemma sock_set_daemon:
  assumes "sock_ok s" and "rc_daemon s d \<noteq> Serving" and "pc \<noteq> Serving" and "pc \<noteq> Cleaned"
  shows "sock_ok (set_daemon d pc s)"
proof -
  have "rc_sock s \<noteq> BoundBy d" using assms(1,2) by (auto simp: sock_ok_def)
  with assms show ?thesis by (auto simp: sock_ok_def)
qed

lemma sock_client: "client_step s s' \<Longrightarrow> locks_ok s \<Longrightarrow> sock_ok s \<Longrightarrow> sock_ok s'"
proof (induction rule: client_step.induct)
  case (unlink s c)
  then have "rc_daemon s d \<noteq> Serving" for d using cli_lock_excludes(1) [of s c d] by auto
  with unlink sock_remove show ?case by (simp add: sock_ok_def)
next
  case (launch s c d)
  then have "sock_ok (set_daemon d Started s)" by (intro sock_set_daemon) simp_all
  then show ?case by (simp only: sock_cli)
qed (auto simp: sock_ok_def cli_exit_def)

lemma sock_daemon: "daemon_step s s' \<Longrightarrow> locks_ok s \<Longrightarrow> sock_ok s \<Longrightarrow> sock_ok s'"
proof (induction rule: daemon_step.induct)
  case (clean_socket s d)
  then have "rc_daemon s d' \<noteq> Serving" for d' using daemon_lock_excludes [of s d d'] by auto
  with clean_socket show ?case by (auto simp: sock_ok_def)
next
  case (bind s d)
  then have "rc_daemon s d' \<noteq> Cleaned" if "d' \<noteq> d" for d' using that daemon_lock_excludes [of s d d'] by auto
  with bind show ?case by (auto simp: sock_ok_def)
next
  case (clean_fails s d)
  then have "rc_daemon s d' \<noteq> Serving" for d' using daemon_lock_excludes [of s d d'] by auto
  then have "rc_sock s \<in> {NoFile, Stale}" using clean_fails(3) by (cases "rc_sock s") (auto simp: sock_ok_def)
  with clean_fails show ?case by (auto simp: sock_ok_def)
next
  case (shut_down s d)
  then have "rc_daemon s d' \<noteq> Serving" if "d' \<noteq> d" for d' using that daemon_lock_excludes [of s d d'] by auto
  with shut_down show ?case by (auto simp: sock_ok_def)
next
  case (shut_down_fails s d)
  then have "rc_daemon s d' \<noteq> Serving" if "d' \<noteq> d" for d' using that daemon_lock_excludes [of s d d'] by auto
  with shut_down_fails show ?case by (auto simp: sock_ok_def)
next
  case (lock_free s d)
  then have "sock_ok (set_daemon d Locked s)" by (intro sock_set_daemon) simp_all
  then show ?case by (simp add: sock_ok_def)
qed (simp_all add: sock_daemon_exit sock_set_daemon)

section \<open>Properties\<close>

definition race_ok :: "race \<Rightarrow> bool" where
  "race_ok s \<longleftrightarrow> locks_ok s \<and> sock_ok s"

interpretation racing: step_invariant race_step race_ok
  by unfold_locales
    (auto simp: race_ok_def race_step_def intro: locks_client locks_daemon sock_client sock_daemon)

text \<open>C10. Racing clients and daemons of one base directory, with a socket path of their own, end up with one
  daemon: in every reachable state at most one daemon serves, and a daemon serves exactly when the socket at
  the path is its own, so nobody ever removes the socket of a serving daemon, even a client whose connection
  to it failed; and a daemon that is about to bind finds the path free or, where a removal failed, a socket
  that nobody listens on.\<close>

theorem single_daemon:
  assumes "race_start s" and "race_step\<^sup>*\<^sup>* s s'"
  shows "(\<forall>d d'. rc_daemon s' d = Serving \<and> rc_daemon s' d' = Serving \<longrightarrow> d = d')
    \<and> (\<forall>d. rc_daemon s' d = Serving \<longleftrightarrow> rc_sock s' = BoundBy d)
    \<and> (\<forall>d. rc_daemon s' d = Cleaned \<longrightarrow> rc_sock s' \<in> {NoFile, Stale})"
proof -
  have "race_ok s'" by (rule racing.reachable [OF assms(2)]) (simp add: race_ok_def ok_start assms(1))
  then show ?thesis by (auto simp: race_ok_def sock_ok_def)
qed

text \<open>A daemon started by a client over the socket of a dead one.\<close>

definition crashed :: race where
  "crashed = \<lparr>rc_cli = (\<lambda>_. Waiting), rc_daemon = (\<lambda>_. Absent), rc_spawn_lock = None, rc_daemon_lock = None,
     rc_sock = Stale\<rparr>"

lemma race_more:
  "race_step\<^sup>*\<^sup>* s s' \<Longrightarrow> client_step s' s'' \<Longrightarrow> race_step\<^sup>*\<^sup>* s s''"
  "race_step\<^sup>*\<^sup>* s s' \<Longrightarrow> daemon_step s' s'' \<Longrightarrow> race_step\<^sup>*\<^sup>* s s''"
  by (simp_all add: rtranclp.rtrancl_into_rtrancl race_step_def)

lemma crashed_recovers: "\<exists>s'. race_step\<^sup>*\<^sup>* crashed s' \<and> rc_daemon s' 0 = Serving"
proof -
  note step = race_more
  have 1: "race_step\<^sup>*\<^sup>* crashed (set_cli 0 SpawnLocked (crashed\<lparr>rc_spawn_lock := Some 0\<rparr>))" (is "race_step\<^sup>*\<^sup>* _ ?s1")
    by (rule step(1) [OF rtranclp.rtrancl_refl take_spawn_lock]) (simp_all add: crashed_def)
  have 2: "race_step\<^sup>*\<^sup>* crashed (set_cli 0 Unanswered ?s1)" (is "race_step\<^sup>*\<^sup>* _ ?s2")
    by (rule step(1) [OF 1 unanswered]) (simp_all add: crashed_def)
  have 3: "race_step\<^sup>*\<^sup>* crashed (set_cli 0 BothLocked (?s2\<lparr>rc_daemon_lock := Some (Cli 0)\<rparr>))" (is "race_step\<^sup>*\<^sup>* _ ?s3")
    by (rule step(1) [OF 2 take_daemon_lock]) (simp_all add: crashed_def)
  have 4: "race_step\<^sup>*\<^sup>* crashed (set_cli 0 Unlinked (?s3\<lparr>rc_sock := NoFile\<rparr>))" (is "race_step\<^sup>*\<^sup>* _ ?s4")
    by (rule step(1) [OF 3 unlink]) simp
  have 5: "race_step\<^sup>*\<^sup>* crashed (set_cli 0 Launching (?s4\<lparr>rc_daemon_lock := None\<rparr>))" (is "race_step\<^sup>*\<^sup>* _ ?s5")
    by (rule step(1) [OF 4 drop_daemon_lock]) simp
  have 6: "race_step\<^sup>*\<^sup>* crashed (cli_exit 0 (set_daemon 0 Started ?s5))" (is "race_step\<^sup>*\<^sup>* _ ?s6")
    by (rule step(1) [OF 5 launch]) (simp_all add: crashed_def)
  have 7: "race_step\<^sup>*\<^sup>* crashed (set_daemon 0 Locked (?s6\<lparr>rc_daemon_lock := Some (Dmn 0)\<rparr>))" (is "race_step\<^sup>*\<^sup>* _ ?s7")
    by (rule step(2) [OF 6 lock_free]) (simp_all add: cli_exit_def)
  have 8: "race_step\<^sup>*\<^sup>* crashed (set_daemon 0 Cleaned (?s7\<lparr>rc_sock := NoFile\<rparr>))" (is "race_step\<^sup>*\<^sup>* _ ?s8")
    by (rule step(2) [OF 7 clean_socket]) simp
  have 9: "race_step\<^sup>*\<^sup>* crashed (set_daemon 0 Serving (?s8\<lparr>rc_sock := BoundBy 0\<rparr>))" (is "race_step\<^sup>*\<^sup>* _ ?s9")
    by (rule step(2) [OF 8 bind]) simp_all
  have "rc_daemon ?s9 0 = Serving" by simp
  with 9 show ?thesis by blast
qed

theorem single_daemon_witness:
  "\<exists>s'. race_step\<^sup>*\<^sup>* crashed s' \<and> rc_daemon s' 0 = Serving \<and> rc_sock s' = BoundBy 0"
proof -
  obtain s' where s': "race_step\<^sup>*\<^sup>* crashed s'" "rc_daemon s' 0 = Serving" using crashed_recovers by blast
  have "race_start crashed" by (simp add: race_start_def crashed_def)
  from single_daemon [OF this s'(1)] s' show ?thesis by blast
qed

text \<open>The socket is not always scoped like the locks: with \<open>XDG_RUNTIME_DIR\<close> set, all base directories
  share one socket path, while each has lock files of its own. The guarantee above is for one base.\<close>

lemma socket_shared_across_homes:
  assumes "env ''AUTOFORK_SOCKET'' = None" and "env ''XDG_RUNTIME_DIR'' = Some dir" and "is_absolute dir"
  shows "socket env \<lparr>base = a\<rparr> = socket env \<lparr>base = b\<rparr>"
  using assms by (simp add: socket_def absolute_env_def)

end
