(* ===== verification/Daemon_Main.thy ===== *)
theory Daemon_Main
  imports Client Migrations Startup
begin

text \<open>
  The daemon's process, \<open>main\<close>, \<open>try_lock\<close> and \<open>async_main\<close> of \<open>crates/autofork-daemon/src/main.rs\<close> with
  \<open>Store::open\<close>, over the record of system calls of \<open>Client\<close> and the calls only the daemon makes. Serving is
  one call, which returns when the daemon is shut down or interrupted; what happens meanwhile is the matter
  of \<open>Connections\<close>. A monitor that follows the calls shows that the process moves through the stages that
  \<open>Startup\<close> takes for the daemon's steps. Tracing and the construction of the tokio runtime are left out.
\<close>

section \<open>The process\<close>

record 's daemon_sys =
  dm_os :: "'s os"
  dm_open_db :: "path \<Rightarrow> 's \<Rightarrow> (string + database) \<times> 's"
  dm_bind :: "path \<Rightarrow> 's \<Rightarrow> (string + nat) \<times> 's"
  dm_chmod :: "path \<Rightarrow> 's \<Rightarrow> 's"
  dm_serve :: "nat \<Rightarrow> 's \<Rightarrow> 's"
  dm_stderr_ok :: bool

definition try_lock :: "'s daemon_sys \<Rightarrow> path \<Rightarrow> 's \<Rightarrow> nat option \<times> 's" where
  "try_lock ds p s =
     (let os = dm_os ds;
          s = (case parent p of Some dir \<Rightarrow> os_mkdirs os dir s | None \<Rightarrow> s)
      in (case os_open_lock os p s of
            (None, s) \<Rightarrow> (None, s)
          | (Some f, s) \<Rightarrow>
              (case os_flock os f s of
                 (True, s) \<Rightarrow> (Some f, s)
               | (False, s) \<Rightarrow> (None, os_close os f s))))"

text \<open>\<open>Store::open\<close>: the directory, the connection and the schema.\<close>

definition store_open :: "'s daemon_sys \<Rightarrow> path \<Rightarrow> 's \<Rightarrow> (string + database) \<times> 's" where
  "store_open ds p s =
     (let s = (case parent p of Some dir \<Rightarrow> os_mkdirs (dm_os ds) dir s | None \<Rightarrow> s)
      in (case dm_open_db ds p s of
            (Inl e, s) \<Rightarrow> (Inl e, s)
          | (Inr conn, s) \<Rightarrow>
              (case init_db conn of None \<Rightarrow> Inl ''cannot migrate'' | Some db \<Rightarrow> Inr db, s)))"

text \<open>The exit code of the process; a message that standard error does not take is a panic.\<close>

definition async_main :: "'s daemon_sys \<Rightarrow> paths \<Rightarrow> 's \<Rightarrow> int \<times> 's" where
  "async_main ds ps s =
     (let sock = socket (os_env (dm_os ds)) ps;
          s = os_remove (dm_os ds) sock s;
          s = (case parent sock of Some dir \<Rightarrow> os_mkdirs (dm_os ds) dir s | None \<Rightarrow> s)
      in (case dm_bind ds sock s of
            (Inl e, s) \<Rightarrow> (1, s)
          | (Inr listener, s) \<Rightarrow>
              (let s = dm_serve ds listener (dm_chmod ds sock s)
               in (0, os_remove (dm_os ds) sock s))))"

definition daemon_main :: "'s daemon_sys \<Rightarrow> 's \<Rightarrow> int \<times> 's" where
  "daemon_main ds s =
     (case paths_from_env (os_env (dm_os ds)) of
        None \<Rightarrow> (if dm_stderr_ok ds then 1 else 101, s)
      | Some ps \<Rightarrow>
          (case try_lock ds (daemon_lock ps) s of
             (None, s) \<Rightarrow> (0, s)
           | (Some lock, s) \<Rightarrow>
               (case store_open ds (db_file ps) s of
                  (Inl e, s) \<Rightarrow> (1, s)
                | (Inr store, s) \<Rightarrow> async_main ds ps s)))"

section \<open>A monitor\<close>

text \<open>The stage a daemon is in, as \<open>Startup\<close> has it, after each of its calls, or \<open>None\<close> when a call came at a
  stage where \<open>Startup\<close> has no such step: the daemon's lock file is locked, it is not closed while the lock
  is held, the socket's path is removed with the lock held or after serving, and bound once its removal was
  tried. The monitor also keeps the descriptor of the lock file, once it was opened.\<close>

type_synonym monitor = "daemon_pc option \<times> nat option"

fun on_flock :: "bool \<Rightarrow> daemon_pc option \<Rightarrow> daemon_pc option" where
  "on_flock True (Some Started) = Some Locked"
| "on_flock False (Some Started) = Some Started"
| "on_flock ok _ = None"

fun on_remove :: "daemon_pc option \<Rightarrow> daemon_pc option" where
  "on_remove (Some Locked) = Some Cleaned"
| "on_remove (Some Serving) = Some Closing"
| "on_remove _ = None"

fun on_bind :: "bool \<Rightarrow> daemon_pc option \<Rightarrow> daemon_pc option" where
  "on_bind True (Some Cleaned) = Some Serving"
| "on_bind False (Some Cleaned) = Some Cleaned"
| "on_bind ok _ = None"

fun on_serve :: "daemon_pc option \<Rightarrow> daemon_pc option" where
  "on_serve (Some Serving) = Some Serving"
| "on_serve _ = None"

definition watch_open :: "path \<Rightarrow> path \<Rightarrow> nat option \<Rightarrow> monitor \<Rightarrow> monitor" where
  "watch_open lock p r m = (if p = lock \<and> r \<noteq> None then (fst m, r) else m)"

definition watch_flock :: "nat \<Rightarrow> bool \<Rightarrow> monitor \<Rightarrow> monitor" where
  "watch_flock f ok m = (if snd m = Some f then on_flock ok (fst m) else None, snd m)"

definition watch_close :: "nat \<Rightarrow> monitor \<Rightarrow> monitor" where
  "watch_close f m =
     (if snd m = Some f then (if fst m = Some Started then Some Started else None, None) else m)"

text \<open>A system that keeps the monitor beside its state. Only the calls above are watched; \<open>through\<close> passes a
  call on.\<close>

definition through :: "('s \<Rightarrow> 'r \<times> 's) \<Rightarrow> 's \<times> monitor \<Rightarrow> 'r \<times> 's \<times> monitor" where
  "through f x = (case f (fst x) of (r, s) \<Rightarrow> (r, s, snd x))"

definition watched :: "path \<Rightarrow> path \<Rightarrow> 's os \<Rightarrow> ('s \<times> monitor) os" where
  "watched lock sock os = \<lparr>os_env = os_env os, os_fs = (\<lambda>x. os_fs os (fst x)), os_exe = os_exe os,
     os_now = through (os_now os), os_sleep = (\<lambda>n. apfst (os_sleep os n)),
     os_connect = (\<lambda>p. through (os_connect os p)),
     os_read_timeout = (\<lambda>f n. through (os_read_timeout os f n)),
     os_write_timeout = (\<lambda>f n. through (os_write_timeout os f n)),
     os_write_all = (\<lambda>f t. through (os_write_all os f t)), os_clone = (\<lambda>f. through (os_clone os f)),
     os_read_line = (\<lambda>f. through (os_read_line os f)),
     os_close = (\<lambda>f (s, m). (os_close os f s, watch_close f m)),
     os_mkdirs = (\<lambda>p. apfst (os_mkdirs os p)),
     os_open_lock = (\<lambda>p (s, m). case os_open_lock os p s of (r, s) \<Rightarrow> (r, s, watch_open lock p r m)),
     os_flock = (\<lambda>f (s, m). case os_flock os f s of (ok, s) \<Rightarrow> (ok, s, watch_flock f ok m)),
     os_remove = (\<lambda>p (s, m). (os_remove os p s, if p = sock then (on_remove (fst m), snd m) else m)),
     os_open_log = (\<lambda>p. through (os_open_log os p)),
     os_spawn = (\<lambda>p a b. through (os_spawn os p a b))\<rparr>"

definition monitored :: "path \<Rightarrow> path \<Rightarrow> 's daemon_sys \<Rightarrow> ('s \<times> monitor) daemon_sys" where
  "monitored lock sock ds = \<lparr>dm_os = watched lock sock (dm_os ds), dm_open_db = (\<lambda>p. through (dm_open_db ds p)),
     dm_bind = (\<lambda>p (s, m). case dm_bind ds p s of
                   (r, s) \<Rightarrow> (r, s, if p = sock then on_bind (\<not> isl r) (fst m) else None, snd m)),
     dm_chmod = (\<lambda>p. apfst (dm_chmod ds p)),
     dm_serve = (\<lambda>l (s, m). (dm_serve ds l s, on_serve (fst m), snd m)),
     dm_stderr_ok = dm_stderr_ok ds\<rparr>"

text \<open>The watched moves are steps of \<open>Startup\<close>.\<close>

lemma flock_stage: "on_flock True (Some pc) = Some pc' \<Longrightarrow> pc = Started \<and> pc' = Locked"
  by (cases pc) simp_all

lemma remove_stage: "on_remove (Some pc) = Some pc' \<Longrightarrow> pc = Locked \<and> pc' = Cleaned \<or> pc = Serving \<and> pc' = Closing"
  by (cases pc) simp_all

lemma bind_stage: "on_bind True (Some pc) = Some pc' \<Longrightarrow> pc = Cleaned \<and> pc' = Serving"
  by (cases pc) simp_all

lemma stages_are_steps:
  assumes "rc_daemon s d = pc"
  shows "on_flock True (Some pc) = Some pc' \<Longrightarrow> rc_daemon_lock s = None \<Longrightarrow>
      daemon_step s (set_daemon d pc' (s\<lparr>rc_daemon_lock := Some (Dmn d)\<rparr>))"
    and "on_remove (Some pc) = Some pc' \<Longrightarrow> daemon_step s (set_daemon d pc' (s\<lparr>rc_sock := NoFile\<rparr>))"
    and "on_bind True (Some pc) = Some pc' \<Longrightarrow> rc_sock s = NoFile \<Longrightarrow>
      daemon_step s (set_daemon d pc' (s\<lparr>rc_sock := BoundBy d\<rparr>))"
  using lock_free [of s d] clean_socket [of s d] shut_down [of s d] daemon_step.bind [of s d] assms
  by (auto dest!: flock_stage remove_stage bind_stage)

section \<open>Properties\<close>

lemmas monitor_simps = monitored_def watched_def watch_open_def watch_flock_def watch_close_def through_def
  apfst_def map_prod_def Let_def

lemma try_lock_monitored:
  "try_lock (monitored lock sock ds) lock (s, Some Started, None) =
     (case try_lock ds lock s of (r, s') \<Rightarrow> (r, s', Some (if r = None then Started else Locked), r))"
  by (simp add: try_lock_def monitor_simps split: option.split prod.split bool.split)

lemma store_open_monitored:
  "store_open (monitored lock sock ds) p (s, m) = (case store_open ds p s of (r, s') \<Rightarrow> (r, s', m))"
  by (simp add: store_open_def monitor_simps split: option.split prod.split sum.split)

lemma async_main_monitored:
  assumes "sock = socket (os_env (dm_os ds)) ps"
  shows "async_main (monitored lock sock ds) ps (s, Some Locked, f) =
     (case async_main ds ps s of (code, s') \<Rightarrow> (code, s', Some (if code = 0 then Closing else Cleaned), f))"
  using assms by (simp add: async_main_def monitor_simps split: option.split prod.split sum.split)

lemma async_main_code: "fst (async_main ds ps s) \<in> {0, 1}"
  by (simp add: async_main_def Let_def split: prod.split sum.split)

text \<open>C13. The daemon keeps to the stages of the start-up protocol, whatever its calls return: it locks the
  daemon lock of its base directory and keeps that file open until it ends; it touches the socket's path only
  with the lock held, binds it only after trying to remove what was there, serves only what it bound, and
  removes its socket afterwards. It ends with code 0 when another daemon holds the lock or when it has
  served, and with code 1 when the store cannot be opened or the socket cannot be bound.\<close>

theorem daemon_main_stages:
  assumes "paths_from_env (os_env (dm_os ds)) = Some ps"
  shows "case daemon_main (monitored (daemon_lock ps) (socket (os_env (dm_os ds)) ps) ds) (s, Some Started, None) of
      (code, s', stage, fd) \<Rightarrow> (code, s') = daemon_main ds s
        \<and> (code, stage) \<in> {(0, Some Started), (0, Some Closing), (1, Some Locked), (1, Some Cleaned)}
        \<and> (stage = Some Started \<longleftrightarrow> fd = None)"
proof -
  have env: "os_env (dm_os (monitored lock sock ds)) = os_env (dm_os ds)" for lock sock
    by (simp add: monitored_def watched_def)
  show ?thesis
    using assms async_main_code [of ds ps]
    by (auto simp: daemon_main_def env try_lock_monitored store_open_monitored async_main_monitored
        split: prod.split option.split sum.split) (metis fst_conv insertE singletonD)+
qed

definition sample_daemon_sys :: "database \<Rightarrow> nat daemon_sys" where
  "sample_daemon_sys d = \<lparr>dm_os = sample_os\<lparr>os_env := [''AUTOFORK_HOME'' \<mapsto> ''/h''], os_flock := (\<lambda>_ s. (True, s))\<rparr>,
     dm_open_db = (\<lambda>_ s. (Inr d, s)), dm_bind = (\<lambda>_ s. (Inr 3, s)), dm_chmod = (\<lambda>_ s. s), dm_serve = (\<lambda>_ s. s + 60),
     dm_stderr_ok = True\<rparr>"

theorem daemon_main_stages_witness:
  "\<exists>f. daemon_main (monitored (daemon_lock \<lparr>base = ''/h''\<rparr>) ''/h/run/daemon.sock'' (sample_daemon_sys fresh_db))
     (5, Some Started, None) = (0, 65, Some Closing, Some f)"
proof -
  have home: "paths_from_env (os_env (dm_os (sample_daemon_sys fresh_db))) = Some \<lparr>base = ''/h''\<rparr>" by code_simp
  have sock: "socket (os_env (dm_os (sample_daemon_sys fresh_db))) \<lparr>base = ''/h''\<rparr> = ''/h/run/daemon.sock''"
    by code_simp
  let ?m = "daemon_main (monitored (daemon_lock \<lparr>base = ''/h''\<rparr>) ''/h/run/daemon.sock'' (sample_daemon_sys fresh_db))
    (5, Some Started, None)"
  have "daemon_main (sample_daemon_sys fresh_db) 5 = (0, 65)" by code_simp
  moreover have "fst (snd (snd ?m)) = Some Closing" by code_simp
  ultimately show ?thesis
    using daemon_main_stages [OF home, of 5] unfolding sock by (auto split: prod.splits)
qed

text \<open>On a database whose first initialisation was interrupted, the daemon that gets the lock exits at
  once, every time it is started.\<close>

lemma interrupted_never_starts:
  assumes "paths_from_env (os_env (dm_os ds)) = Some ps" and "dm_open_db ds (db_file ps) = (\<lambda>s. (Inr d, s))"
    and "init_db d = None"
  shows "daemon_main ds s = (case try_lock ds (daemon_lock ps) s of
      (None, s) \<Rightarrow> (0, s)
    | (Some f, s) \<Rightarrow> (1, case parent (db_file ps) of Some dir \<Rightarrow> os_mkdirs (dm_os ds) dir s | None \<Rightarrow> s))"
  using assms by (simp add: daemon_main_def store_open_def Let_def split: prod.split option.split)

end
