(* ===== verification/Store_Spec.thy ===== *)
theory Store_Spec
  imports Store
begin

text \<open>
  What the store promises, without tables: finite maps from primary keys to rows, with one
  update per operation. The store of theory \<open>Store\<close> implements it: reading a table by its key is an
  abstraction function, and every operation commutes with it as long as the keys are unique, which
  every history of operations keeps.
\<close>

section \<open>Tables as maps\<close>

definition row_at :: "('r \<Rightarrow> 'k) \<Rightarrow> 'r list \<Rightarrow> 'k \<Rightarrow> 'r option" where
  "row_at key tbl k = find (\<lambda>r. key r = k) tbl"

lemma row_at_Nil [simp]: "row_at key [] = Map.empty"
  by (simp add: row_at_def fun_eq_iff)

lemma row_at_None: "row_at key tbl k = None \<longleftrightarrow> (\<forall>r \<in> set tbl. key r \<noteq> k)"
  by (auto simp: row_at_def find_None_iff)

lemma row_at_Some: "row_at key tbl k = Some r \<Longrightarrow> r \<in> set tbl \<and> key r = k"
  by (auto simp: row_at_def dest: find_Some_elem)

lemma row_at_append:
  "row_at key (xs @ [row]) k =
     (case row_at key xs k of Some r \<Rightarrow> Some r | None \<Rightarrow> if key row = k then Some row else None)"
  by (induction xs) (auto simp: row_at_def)

lemma row_at_ignore:
  "row_at key (fst (insert_or_ignore key row tbl)) =
     (row_at key tbl)(key row := (case row_at key tbl (key row) of Some r \<Rightarrow> Some r | None \<Rightarrow> Some row))"
proof (cases "row_at key tbl (key row)")
  case None
  then have "insert_or_ignore key row tbl = (tbl @ [row], 1)"
    by (auto simp: insert_or_ignore_def row_at_None list_ex_iff)
  with None show ?thesis by (auto simp: row_at_append fun_eq_iff split: option.split)
next
  case (Some r)
  then have "insert_or_ignore key row tbl = (tbl, 0)"
    by (auto simp: insert_or_ignore_def list_ex_iff dest!: row_at_Some)
  with Some show ?thesis by auto
qed

lemma row_at_filter:
  assumes "unique_key key tbl"
  shows "row_at key (filter P tbl) k =
     (case row_at key tbl k of Some r \<Rightarrow> if P r then Some r else None | None \<Rightarrow> None)"
  using assms
proof (induction tbl)
  case (Cons a tbl)
  then have "unique_key key tbl" and "key a \<notin> key ` set tbl" by (simp_all add: unique_key_def)
  then have "key a = k \<Longrightarrow> row_at key (filter P tbl) k = None" by (auto simp: row_at_None) (metis imageI)
  with Cons \<open>unique_key key tbl\<close> show ?case by (auto simp: row_at_def)
qed (simp add: row_at_def)

lemma row_at_delete:
  "unique_key key tbl \<Longrightarrow> row_at key (fst (delete_where P tbl)) k =
     (case row_at key tbl k of Some r \<Rightarrow> if P r then None else Some r | None \<Rightarrow> None)"
  by (simp add: delete_where_def row_at_filter split: option.split)

lemma row_at_replace:
  assumes "unique_key key tbl"
  shows "row_at key (insert_or_replace key row tbl) = (row_at key tbl)(key row \<mapsto> row)"
  using row_at_Some [of key tbl] row_at_filter [OF assms]
  by (auto simp: insert_or_replace_def row_at_append fun_eq_iff split: option.split)

lemma row_at_update:
  assumes "\<And>r. key (f r) = key r"
  shows "row_at key (update_where P f tbl) k = map_option (\<lambda>r. if P r then f r else r) (row_at key tbl k)"
  using assms by (induction tbl) (simp_all add: row_at_def update_where_def)

lemma row_at_upsert:
  assumes "\<And>r. key (f r) = key r"
  shows "row_at key (upsert key row f tbl) =
    (row_at key tbl)(key row \<mapsto> (case row_at key tbl (key row) of Some r \<Rightarrow> f r | None \<Rightarrow> row))"
proof (cases "row_at key tbl (key row)")
  case None
  then have "upsert key row f tbl = tbl @ [row]" by (auto simp: upsert_def row_at_None list_ex_iff)
  with None show ?thesis by (auto simp: row_at_append fun_eq_iff split: option.split)
next
  case (Some r)
  then have "upsert key row f tbl = update_where (\<lambda>r. key r = key row) f tbl"
    by (auto simp: upsert_def list_ex_iff dest!: row_at_Some)
  moreover have "map_option (\<lambda>r. if key r = key row then f r else r) (row_at key tbl k) =
      (if k = key row then Some (f r) else row_at key tbl k)" for k
    using Some row_at_Some [of key tbl k] by (cases "row_at key tbl k") auto
  ultimately show ?thesis using Some by (simp add: row_at_update [of key f, OF assms] fun_eq_iff)
qed

section \<open>The specification\<close>

record store_spec =
  sp_sessions :: "string \<Rightarrow> session_tbl option"
  sp_roster :: "string \<times> string \<Rightarrow> roster_tbl option"
  sp_fires :: "string \<times> string \<times> string \<Rightarrow> fires_tbl option"
  sp_runs :: "i64 \<Rightarrow> runs_tbl option"
  sp_last_run :: i64
  sp_spawns :: "string \<times> string \<Rightarrow> spawns_tbl option"
  sp_deps :: "string \<times> string \<Rightarrow> deps_tbl option"

definition empty_spec :: store_spec where
  "empty_spec = \<lparr>sp_sessions = Map.empty, sp_roster = Map.empty, sp_fires = Map.empty,
     sp_runs = Map.empty, sp_last_run = 0, sp_spawns = Map.empty, sp_deps = Map.empty\<rparr>"

text \<open>Change the row under a key, if there is one; add a row under a free key; forget a session's rows.\<close>

definition alter :: "'k \<Rightarrow> ('r \<Rightarrow> 'r) \<Rightarrow> ('k \<Rightarrow> 'r option) \<Rightarrow> 'k \<Rightarrow> 'r option" where
  "alter k f m = m(k := map_option f (m k))"

definition add_new :: "'k \<Rightarrow> 'r \<Rightarrow> ('k \<Rightarrow> 'r option) \<Rightarrow> 'k \<Rightarrow> 'r option" where
  "add_new k r m = (if m k = None then m(k \<mapsto> r) else m)"

definition forget :: "string \<Rightarrow> (string \<times> 'k \<Rightarrow> 'r option) \<Rightarrow> string \<times> 'k \<Rightarrow> 'r option" where
  "forget sid m = (\<lambda>k. if fst k = sid then None else m k)"

fun spec_op :: "store_op \<Rightarrow> store_spec \<Rightarrow> store_spec" where
  "spec_op (UpsertSession sid root dir tr mdl en dis t) sp =
     sp\<lparr>sp_sessions := (sp_sessions sp)(sid \<mapsto>
       (case sp_sessions sp sid of
          None \<Rightarrow> new_session sid root dir tr mdl en dis t
        | Some r \<Rightarrow> r\<lparr>s_project_root := root, s_transcript_path := coalesce tr (s_transcript_path r),
                      s_model := coalesce mdl (s_model r), s_enable_tags := en, s_disable_tags := dis,
                      s_status := Open, s_last_activity := t\<rparr>))\<rparr>"
| "spec_op (BumpPauseEpoch sid) sp =
     sp\<lparr>sp_sessions := alter sid (\<lambda>r. r\<lparr>s_pause_epoch := s_pause_epoch r + 1, s_pause_started_at := None\<rparr>)
          (sp_sessions sp)\<rparr>"
| "spec_op (SetPauseStarted sid t) sp =
     sp\<lparr>sp_sessions := alter sid (\<lambda>r. if s_pause_started_at r = None then r\<lparr>s_pause_started_at := Some t\<rparr> else r)
          (sp_sessions sp)\<rparr>"
| "spec_op (SetLastActivity sid t) sp =
     sp\<lparr>sp_sessions := alter sid (\<lambda>r. r\<lparr>s_last_activity := t\<rparr>) (sp_sessions sp)\<rparr>"
| "spec_op (SetTranscriptGauge sid off toks) sp =
     sp\<lparr>sp_sessions := alter sid (\<lambda>r. r\<lparr>s_transcript_offset := u64_as_i64 off,
          s_prompt_tokens := coalesce (map_option u64_as_i64 toks) (s_prompt_tokens r)\<rparr>) (sp_sessions sp)\<rparr>"
| "spec_op (CloseSession sid) sp =
     sp\<lparr>sp_sessions := alter sid (\<lambda>r. r\<lparr>s_status := Closed\<rparr>) (sp_sessions sp),
        sp_roster := forget sid (sp_roster sp), sp_fires := forget sid (sp_fires sp),
        sp_spawns := forget sid (sp_spawns sp), sp_deps := forget sid (sp_deps sp)\<rparr>"
| "spec_op (QueueFork sid name p t) sp =
     sp\<lparr>sp_roster := add_new (sid, name)
          \<lparr>r_session_id = sid, r_fork_name = name, r_fork_path = p, r_queued_at = t, r_ran_at = None\<rparr>
          (sp_roster sp)\<rparr>"
| "spec_op (TouchForkRan sid name t) sp =
     sp\<lparr>sp_roster := alter (sid, name) (\<lambda>r. r\<lparr>r_ran_at := Some t\<rparr>) (sp_roster sp)\<rparr>"
| "spec_op (TryLatchFire sid name lbl t) sp =
     sp\<lparr>sp_fires := add_new (sid, name, lbl)
          \<lparr>f_session_id = sid, f_fork_name = name, f_trigger_label = lbl, f_fired_at = t\<rparr> (sp_fires sp)\<rparr>"
| "spec_op (RecordIssuedRun sid name lbl tgs t) sp =
     sp\<lparr>sp_runs := (sp_runs sp)(sp_last_run sp + 1 \<mapsto>
          \<lparr>n_id = sp_last_run sp + 1, n_session_id = sid, n_fork_name = name, n_trigger_label = lbl,
           n_state = ''issued'', n_started_at = t, n_finished_at = Some t, n_tags = tgs\<rparr>),
        sp_last_run := sp_last_run sp + 1\<rparr>"
| "spec_op (RecordSpawn sid tool name t) sp =
     sp\<lparr>sp_spawns := add_new (sid, tool)
          \<lparr>p_session_id = sid, p_tool_use_id = tool, p_task_id = None, p_fork_name = name,
           p_status = ''spawned'', p_spawned_at = t, p_terminal_at = None\<rparr> (sp_spawns sp)\<rparr>"
| "spec_op (SetSpawnTaskId sid tool task) sp =
     sp\<lparr>sp_spawns := alter (sid, tool) (\<lambda>r. r\<lparr>p_task_id := coalesce (p_task_id r) (Some task)\<rparr>) (sp_spawns sp)\<rparr>"
| "spec_op (MarkSpawnTerminal sid tool task stat t) sp =
     sp\<lparr>sp_spawns := (\<lambda>k. map_option (\<lambda>r.
          if fst k = sid \<and> p_status r = ''spawned'' \<and> spawn_ids_match tool task r
          then r\<lparr>p_status := stat, p_terminal_at := Some t\<rparr> else r) (sp_spawns sp k))\<rparr>"
| "spec_op (InsertPendingDep sid name p lbl ovl preds t) sp =
     sp\<lparr>sp_deps := (sp_deps sp)((sid, name) \<mapsto>
          \<lparr>d_session_id = sid, d_fork_name = name, d_fork_path = p, d_trigger_label = lbl,
           d_overlap = ovl, d_preds = join_with '','' preds, d_created_at = t\<rparr>)\<rparr>"
| "spec_op (DeletePendingDep sid name) sp = sp\<lparr>sp_deps := (sp_deps sp)((sid, name) := None)\<rparr>"
| "spec_op (ClearPendingDeps sid) sp = sp\<lparr>sp_deps := forget sid (sp_deps sp)\<rparr>"

text \<open>The abstraction function.\<close>

definition spec_of :: "store \<Rightarrow> store_spec" where
  "spec_of st = \<lparr>sp_sessions = row_at s_session_id (sessions st), sp_roster = row_at roster_key (fork_roster st),
     sp_fires = row_at fires_key (fork_fires st), sp_runs = row_at n_id (fork_runs st), sp_last_run = run_seq st,
     sp_spawns = row_at spawns_key (fork_spawns st),
     sp_deps = row_at deps_key (pending_deps st)\<rparr>"


section \<open>Refinement\<close>

text \<open>One lemma per kind of change, then one step of the simulation.\<close>

lemma row_at_alter:
  assumes "\<And>r. key (f r) = key r" and "\<And>r. P r \<longleftrightarrow> key r = k0"
  shows "row_at key (update_where P f tbl) = alter k0 f (row_at key tbl)"
proof
  fix k
  show "row_at key (update_where P f tbl) k = alter k0 f (row_at key tbl) k"
    using row_at_Some [of key tbl k] by (cases "row_at key tbl k")
      (auto simp: row_at_update [of key f, OF assms(1)] alter_def assms(2))
qed

lemma row_at_add: "row_at key (fst (insert_or_ignore key row tbl)) = add_new (key row) row (row_at key tbl)"
  by (auto simp: row_at_ignore add_new_def fun_eq_iff split: option.split)

lemma row_at_forget:
  assumes "unique_key key tbl" and "\<And>r. P r \<longleftrightarrow> fst (key r) = sid"
  shows "row_at key (fst (delete_where P tbl)) = forget sid (row_at key tbl)"
  using row_at_Some [of key tbl]
  by (auto simp: row_at_delete [OF assms(1)] assms(2) forget_def fun_eq_iff split: option.split)

lemma row_at_update_key:
  assumes "\<And>r. key (f r) = key r"
  shows "row_at key (update_where (\<lambda>r. Q (key r) r) f tbl) =
    (\<lambda>k. map_option (\<lambda>r. if Q k r then f r else r) (row_at key tbl k))"
proof
  fix k
  show "row_at key (update_where (\<lambda>r. Q (key r) r) f tbl) k =
      map_option (\<lambda>r. if Q k r then f r else r) (row_at key tbl k)"
    using row_at_Some [of key tbl k] by (cases "row_at key tbl k")
      (auto simp: row_at_update [of key f, OF assms])
qed

lemma alter_if:
  "row_at key (update_where (\<lambda>r. key r = k0 \<and> Q r) f tbl) =
     alter k0 (\<lambda>r. if Q r then f r else r) (row_at key tbl)" if "\<And>r. key (f r) = key r"
  using row_at_update_key [of key f "\<lambda>k r. k = k0 \<and> Q r" tbl, OF that]
  by (auto simp: alter_def fun_eq_iff option.map_ident split: option.split)


lemma row_at_remove:
  assumes "unique_key key tbl" and "\<And>r. P r \<longleftrightarrow> key r = k0"
  shows "row_at key (fst (delete_where P tbl)) = (row_at key tbl)(k0 := None)"
  using row_at_Some [of key tbl]
  by (auto simp: row_at_delete [OF assms(1)] assms(2) fun_eq_iff split: option.split)

lemma new_session_key [simp]: "s_session_id (new_session sid root dir tr mdl en dis t) = sid"
  by (simp add: new_session_def)

lemma spec_sessions_op:
  "row_at s_session_id (sessions (apply_op op st)) = sp_sessions (spec_op op (spec_of st))"
  by (cases op)
    (simp_all add: session_ops table_ops Let_def case_prod_unfold spec_of_def row_at_upsert
      row_at_alter alter_if)

lemma spec_roster_op:
  "store_ok st \<Longrightarrow> row_at roster_key (fork_roster (apply_op op st)) = sp_roster (spec_op op (spec_of st))"
  by (cases op)
    (simp_all add: session_ops table_ops Let_def case_prod_unfold spec_of_def store_ok_def row_at_add
      row_at_alter row_at_forget)

lemma spec_fires_op:
  "store_ok st \<Longrightarrow> row_at fires_key (fork_fires (apply_op op st)) = sp_fires (spec_op op (spec_of st))"
  by (cases op)
    (simp_all add: session_ops table_ops Let_def case_prod_unfold spec_of_def store_ok_def row_at_add
      row_at_forget)

lemma spec_deps_op:
  "store_ok st \<Longrightarrow> row_at deps_key (pending_deps (apply_op op st)) = sp_deps (spec_op op (spec_of st))"
  by (cases op)
    (simp_all add: session_ops table_ops Let_def case_prod_unfold spec_of_def store_ok_def row_at_replace
      row_at_forget row_at_remove)


lemma spec_spawns_op:
  assumes "store_ok st"
  shows "row_at spawns_key (fork_spawns (apply_op op st)) = sp_spawns (spec_op op (spec_of st))"
proof (cases op)
  case (MarkSpawnTerminal sid tool task stat t)
  let ?Q = "\<lambda>k r. fst k = sid \<and> p_status r = ''spawned'' \<and> spawn_ids_match tool task r"
  let ?f = "\<lambda>r. r\<lparr>p_status := stat, p_terminal_at := Some t\<rparr>"
  show ?thesis
  proof (cases "is_fork_spawn sid tool task st")
    case True
    then show ?thesis
      using row_at_update_key [of spawns_key ?f ?Q "fork_spawns st"]
      by (simp add: MarkSpawnTerminal mark_spawn_terminal_def spec_of_def)
  next
    case False
    have "map_option (\<lambda>r. if ?Q k r then ?f r else r) (row_at spawns_key (fork_spawns st) k) =
        row_at spawns_key (fork_spawns st) k" for k
      using False row_at_Some [of spawns_key "fork_spawns st" k]
      by (cases "row_at spawns_key (fork_spawns st) k") (auto simp: is_fork_spawn_def tbl_simps)
    with False show ?thesis by (simp add: MarkSpawnTerminal mark_spawn_terminal_def spec_of_def)
  qed
qed (use assms in \<open>simp_all add: session_ops table_ops Let_def case_prod_unfold spec_of_def store_ok_def
      row_at_add row_at_alter row_at_forget\<close>)

lemma spec_runs_op:
  assumes "store_ok st"
  shows "row_at n_id (fork_runs (apply_op op st)) = sp_runs (spec_op op (spec_of st))"
    and "run_seq (apply_op op st) = sp_last_run (spec_op op (spec_of st))"
proof -
  have "row_at n_id (fork_runs st) (run_seq st + 1) = None"
    using assms by (auto simp: store_ok_def run_ids_ok_def list_all_iff row_at_None)
  then show "row_at n_id (fork_runs (apply_op op st)) = sp_runs (spec_op op (spec_of st))"
    by (cases op) (auto simp: session_ops table_ops Let_def case_prod_unfold spec_of_def row_at_append fun_eq_iff
        split: option.split)
  show "run_seq (apply_op op st) = sp_last_run (spec_op op (spec_of st))"
    by (cases op) (simp_all add: session_ops table_ops Let_def case_prod_unfold spec_of_def)
qed

lemma spec_of_op: "store_ok st \<Longrightarrow> spec_of (apply_op op st) = spec_op op (spec_of st)"
  by (rule store_spec.equality)
    (simp_all add: spec_of_def spec_sessions_op [unfolded spec_of_def] spec_roster_op [unfolded spec_of_def]
      spec_fires_op [unfolded spec_of_def] spec_runs_op [unfolded spec_of_def] spec_spawns_op [unfolded spec_of_def] spec_deps_op [unfolded spec_of_def])

text \<open>A functional simulation: \<open>abs\<close> commutes with every step from a state with the invariant.\<close>

locale simulation =
  fixes step :: "'o \<Rightarrow> 's \<Rightarrow> 's" and spec :: "'o \<Rightarrow> 'a \<Rightarrow> 'a" and abs :: "'s \<Rightarrow> 'a" and inv :: "'s \<Rightarrow> bool"
  assumes inv_step: "inv s \<Longrightarrow> inv (step op s)"
    and abs_step: "inv s \<Longrightarrow> abs (step op s) = spec op (abs s)"
begin

lemma histories: "inv s \<Longrightarrow> inv (fold step ops s) \<and> abs (fold step ops s) = fold spec ops (abs s)"
  by (induction ops arbitrary: s) (simp_all add: inv_step abs_step)

end

interpretation store_sim: simulation apply_op spec_op spec_of store_ok
  by unfold_locales (simp_all add: store_ok_op spec_of_op)

lemma spec_of_empty: "spec_of empty_store = empty_spec"
  by (simp add: spec_of_def empty_store_def empty_spec_def)

lemma is_latched_spec: "is_latched sid name lbl st \<longleftrightarrow> sp_fires (spec_of st) (sid, name, lbl) \<noteq> None"
  by (auto simp: is_latched_iff spec_of_def row_at_None)

text \<open>The start times of the project's recorded runs that carry one of the tags.\<close>

definition spec_tag_hits :: "path \<Rightarrow> string list \<Rightarrow> store_spec \<Rightarrow> i64 set" where
  "spec_tag_hits root tgs sp =
     {n_started_at r | r i s row_tags. sp_runs sp i = Some r \<and> sp_sessions sp (n_session_id r) = Some s
        \<and> s_project_root s = root \<and> n_tags r = Some row_tags \<and> set (split_list row_tags) \<inter> set tgs \<noteq> {}}"

lemma row_at_unique: "unique_key key tbl \<Longrightarrow> r \<in> set tbl \<Longrightarrow> row_at key tbl (key r) = Some r"
  by (induction tbl) (auto simp: row_at_def unique_key_def)

lemma tag_hits_spec:
  assumes "store_ok st"
  shows "tag_hits root tgs st = spec_tag_hits root tgs (spec_of st)"
proof -
  have "r \<in> set (fork_runs st) \<longleftrightarrow> (\<exists>i. row_at n_id (fork_runs st) i = Some r)" for r
    using assms row_at_unique row_at_Some by (fastforce simp: store_ok_def run_ids_ok_def)
  moreover have "s \<in> set (sessions st) \<and> s_session_id s = sid \<longleftrightarrow> row_at s_session_id (sessions st) sid = Some s" for s sid
    using assms row_at_unique row_at_Some by (fastforce simp: store_ok_def)
  ultimately show ?thesis by (auto simp: tag_hits_def spec_tag_hits_def spec_of_def) blast+
qed

text \<open>C14. The store implements its specification: after any history of operations, all its tables, read by
  primary key, are the maps that the abstract operations give, and the reads that the planner decides on (a
  session, a latch, the latest run under a tag) are reads of these maps.\<close>

theorem store_refines_spec:
  "spec_of (apply_ops ops empty_store) = fold spec_op ops empty_spec
   \<and> get_session sid (apply_ops ops empty_store) = map_option row_to_session (sp_sessions (fold spec_op ops empty_spec) sid)
   \<and> (is_latched sid name lbl (apply_ops ops empty_store) \<longleftrightarrow>
        sp_fires (fold spec_op ops empty_spec) (sid, name, lbl) \<noteq> None)
   \<and> last_run_for_tags root tgs (apply_ops ops empty_store) =
       (let hits = spec_tag_hits root tgs (fold spec_op ops empty_spec)
        in if hits = {} then None else Some (Max hits))"
proof -
  let ?st = "apply_ops ops empty_store"
  have ok: "store_ok ?st" by (rule store_ok_ops [OF store_ok_empty])
  have 1: "spec_of ?st = fold spec_op ops empty_spec"
    using store_sim.histories [OF store_ok_empty] by (simp add: apply_ops_def spec_of_empty)
  have "get_session sid ?st = map_option row_to_session (sp_sessions (spec_of ?st) sid)"
    by (simp add: get_session_def spec_of_def row_at_def)
  with 1 show ?thesis
    using tag_hits_spec [OF ok, of root tgs] last_run_for_tags_latest [of root tgs ?st]
    by (simp add: is_latched_spec Let_def)
qed

end
