(* ===== verification/Hook.thy ===== *)
theory Hook
  imports Client Project Wake
begin

text \<open>
  The hook entrypoint of the command line, \<open>crates/autofork/src/hook.rs\<close>: what a Claude Code hook
  sends to the daemon and how its process ends. The system is the record of theory \<open>Client\<close>; the
  standard input, the current directory, the parser of the hook's JSON and whether standard error takes
  what is printed on it are parameters. The process ends with an exit code and what it printed on standard
  error; \<open>None\<close> is a hook that does not return.
\<close>

section \<open>Input\<close>

datatype hook_kind = SessionStart | UserPromptSubmit | StopWaitHook | SessionEnd

record hook_input =
  hi_session_id :: string
  hi_transcript_path :: "path option"
  hi_cwd :: "path option"
  hi_source :: "string option"
  hi_model :: "string option"
  hi_prompt :: "string option"

text \<open>The surroundings of one hook process.\<close>

record hook_env =
  he_stdin :: "string option"
  he_from_json :: "string \<Rightarrow> hook_input option"
  he_current_dir :: "path option"
  he_to_json :: "request \<Rightarrow> string + string"
  he_resp_json :: "string \<Rightarrow> string + response"
  he_version :: string
  he_stderr_ok :: bool

text \<open>\<open>std::env::var\<close> fails when the value is not UTF-8.\<close>

definition env_var :: "(string \<Rightarrow> string option) \<Rightarrow> string \<Rightarrow> string option" where
  "env_var env var = (case env var of Some v \<Rightarrow> if utf8_valid v then Some v else None | None \<Rightarrow> None)"

definition tags_from_env :: "(string \<Rightarrow> string option) \<Rightarrow> string \<Rightarrow> string list option" where
  "tags_from_env env var =
     (case env_var env var of
        None \<Rightarrow> None
      | Some raw \<Rightarrow>
          (let out = fold (\<lambda>piece out. let t = trim piece
                                       in if t \<noteq> [] \<and> t \<notin> set out then out @ [t] else out)
                       (split_on CHR '','' raw) []
           in if out = [] then None else Some out))"

section \<open>Events\<close>

definition hook_event ::
  "(string \<Rightarrow> string option) \<Rightarrow> fs \<Rightarrow> hook_input \<Rightarrow> path \<Rightarrow> event_kind \<Rightarrow> event" where
  "hook_event env fs input dir kind =
     \<lparr>ev_kind = kind, ev_session_id = hi_session_id input, ev_transcript_path = hi_transcript_path input,
      ev_cwd = dir, ev_project_root = project_root_of fs dir, ev_source = hi_source input,
      ev_model = hi_model input, ev_enable_tags = tags_from_env env ''AUTOFORK_ENABLE_TAGS'',
      ev_disable_tags = tags_from_env env ''AUTOFORK_DISABLE_TAGS'', ev_waking = None,
      ev_notif_tool_use_id = None, ev_notif_task_id = None, ev_notif_status = None\<rparr>"

text \<open>The sniff at a submitted prompt.\<close>

definition sniff_prompt :: "string option \<Rightarrow> event \<Rightarrow> event" where
  "sniff_prompt prompt ev =
     (case prompt of
        None \<Rightarrow> ev
      | Some p \<Rightarrow>
          if contains p WAKE_MARKER then ev\<lparr>ev_waking := Some False\<rparr>
          else (case parse_task_notification p of
                  Some n \<Rightarrow> ev\<lparr>ev_waking := Some False, ev_notif_tool_use_id := tool_use_id n,
                               ev_notif_task_id := task_id n, ev_notif_status := status n\<rparr>
                | None \<Rightarrow> ev\<lparr>ev_waking := Some True\<rparr>))"

section \<open>The hook\<close>

record hook_exit =
  exit_code :: int
  exit_stderr :: string

definition exit_quietly :: hook_exit where
  "exit_quietly = \<lparr>exit_code = 0, exit_stderr = []\<rparr>"

text \<open>\<open>eprintln!\<close> of the payload, then exit code 2; it panics when standard error does not take it. What part
  of the payload was written then is not modelled.\<close>

definition wake_exit :: "hook_env \<Rightarrow> string \<Rightarrow> hook_exit" where
  "wake_exit he payload =
     (if he_stderr_ok he then \<lparr>exit_code = 2, exit_stderr = payload @ [nl]\<rparr>
      else \<lparr>exit_code = 101, exit_stderr = []\<rparr>)"

text \<open>A connection whose owner goes out of scope is closed.\<close>

definition send_and_close ::
  "'s os \<Rightarrow> hook_env \<Rightarrow> request_body \<Rightarrow> client \<Rightarrow> 's \<Rightarrow> 's" where
  "send_and_close os he body c s =
     (case client_request os (he_to_json he) (he_resp_json he) body c s of
        (_, c, s) \<Rightarrow> os_close os (cl_stream c) s)"

definition session_start_hook :: "'s os \<Rightarrow> hook_env \<Rightarrow> paths \<Rightarrow> event \<Rightarrow> 's \<Rightarrow> (hook_exit \<times> 's) option" where
  "session_start_hook os he ps ev s =
     do { (r, s) \<leftarrow> connect_or_spawn os ps 5000 s;
          (case r of
             Inl _ \<Rightarrow> Some (exit_quietly, s)
           | Inr c \<Rightarrow>
               do { (r, s) \<leftarrow> ensure_current_version os (he_to_json he) (he_resp_json he) (he_version he) ps c s;
                    (case r of
                       Inl _ \<Rightarrow> Some (exit_quietly, s)
                     | Inr c \<Rightarrow> Some (exit_quietly, send_and_close os he (EventReq ev) c s)) }) }"

definition prompt_submit_hook :: "'s os \<Rightarrow> hook_env \<Rightarrow> paths \<Rightarrow> event \<Rightarrow> 's \<Rightarrow> (hook_exit \<times> 's) option" where
  "prompt_submit_hook os he ps ev s =
     (case connect os ps 1500 s of
        (Inl _, s) \<Rightarrow> map_option (Pair exit_quietly) (spawn_daemon_detached os ps s)
      | (Inr c, s) \<Rightarrow> Some (exit_quietly, send_and_close os he (EventReq ev) c s))"

definition stop_wait_hook :: "'s os \<Rightarrow> hook_env \<Rightarrow> paths \<Rightarrow> event \<Rightarrow> 's \<Rightarrow> (hook_exit \<times> 's) option" where
  "stop_wait_hook os he ps ev s =
     do { (r, s) \<leftarrow> connect_or_spawn os ps 10000 s;
          (case r of
             Inl _ \<Rightarrow> Some (exit_quietly, s)
           | Inr c \<Rightarrow>
               do { (r, s) \<leftarrow> ensure_current_version os (he_to_json he) (he_resp_json he) (he_version he) ps c s;
                    (case r of
                       Inl _ \<Rightarrow> Some (exit_quietly, s)
                     | Inr c \<Rightarrow>
                         (case stop_wait os (he_to_json he) (he_resp_json he) ev c s of
                            (Inr (RespWake payload), c, s) \<Rightarrow> Some (wake_exit he payload, s)
                          | (_, c, s) \<Rightarrow> Some (exit_quietly, os_close os (cl_stream c) s))) }) }"

definition session_end_hook :: "'s os \<Rightarrow> hook_env \<Rightarrow> paths \<Rightarrow> event \<Rightarrow> 's \<Rightarrow> (hook_exit \<times> 's) option" where
  "session_end_hook os he ps ev s =
     do { (r, s) \<leftarrow> connect_or_spawn os ps 5000 s;
          (case r of
             Inl _ \<Rightarrow> Some (exit_quietly, s)
           | Inr c \<Rightarrow> Some (exit_quietly, send_and_close os he (EventReq ev) c s)) }"

text \<open>Every \<open>?\<close> of the source, and the recursion guard before them, ends the hook quietly.\<close>

definition hook_setup :: "'s os \<Rightarrow> hook_env \<Rightarrow> (hook_input \<times> paths \<times> path) option" where
  "hook_setup os he =
     (if os_env os ''AUTOFORK_FORK'' \<noteq> None \<or> os_env os ''AUTOFORK_SESSION_ID'' \<noteq> None then None
      else do { raw \<leftarrow> he_stdin he;
                input \<leftarrow> he_from_json he raw;
                ps \<leftarrow> paths_from_env (os_env os);
                dir \<leftarrow> (case hi_cwd input of Some d \<Rightarrow> Some d | None \<Rightarrow> he_current_dir he);
                Some (input, ps, dir) })"

definition run_hook :: "'s os \<Rightarrow> hook_env \<Rightarrow> hook_kind \<Rightarrow> 's \<Rightarrow> (hook_exit \<times> 's) option" where
  "run_hook os he kind s =
     (case hook_setup os he of
        None \<Rightarrow> Some (exit_quietly, s)
      | Some (input, ps, dir) \<Rightarrow>
          (let event = hook_event (os_env os) (os_fs os s) input dir
           in (case kind of
                 SessionStart \<Rightarrow> session_start_hook os he ps (event EvSessionStart) s
               | UserPromptSubmit \<Rightarrow>
                   prompt_submit_hook os he ps (sniff_prompt (hi_prompt input) (event EvPromptSubmit)) s
               | StopWaitHook \<Rightarrow> stop_wait_hook os he ps (event EvStop) s
               | SessionEnd \<Rightarrow> session_end_hook os he ps (event EvSessionEnd) s)))"

section \<open>How a hook ends\<close>

lemma start_ends:
  assumes "clock_runs os tm"
  shows "\<exists>s'. session_start_hook os he ps ev s = Some (exit_quietly, s')"
proof -
  obtain r s1 where r: "connect_or_spawn os ps 5000 s = Some (r, s1)"
    using connect_or_spawn_returns [OF assms, of ps 5000 s] by auto
  show ?thesis
  proof (cases r)
    case (Inr c)
    obtain r' s2 where "ensure_current_version os (he_to_json he) (he_resp_json he) (he_version he) ps c s1 = Some (r', s2)"
      using ensure_current_version_returns [OF assms] by (metis prod.exhaust)
    with r Inr show ?thesis by (cases r') (simp_all add: session_start_hook_def)
  qed (simp add: session_start_hook_def r)
qed

lemma prompt_ends:
  assumes "clock_runs os tm"
  shows "\<exists>s'. prompt_submit_hook os he ps ev s = Some (exit_quietly, s')"
proof -
  obtain r s1 where r: "connect os ps 1500 s = (r, s1)" by (rule prod.exhaust)
  obtain t s2 where "os_now os s1 = (t, s2)" by (rule prod.exhaust)
  then show ?thesis
    using r spawn_daemon_locked_returns [OF assms, of ps "t + 500" s2]
    by (cases r) (auto simp: prompt_submit_hook_def spawn_daemon_detached_def)
qed

lemma end_ends:
  assumes "clock_runs os tm"
  shows "\<exists>s'. session_end_hook os he ps ev s = Some (exit_quietly, s')"
proof -
  obtain r s1 where "connect_or_spawn os ps 5000 s = Some (r, s1)"
    using connect_or_spawn_returns [OF assms, of ps 5000 s] by auto
  then show ?thesis by (cases r) (simp_all add: session_end_hook_def)
qed

text \<open>What the daemon answers to the Stop hook of this run: connected, at the current version, asked with the
  event of the Stop. \<open>None\<close> is a run in which no answer arrives.\<close>

definition stop_wait_answer :: "'s os \<Rightarrow> hook_env \<Rightarrow> paths \<Rightarrow> event \<Rightarrow> 's \<Rightarrow> response_body option" where
  "stop_wait_answer os he ps ev s =
     do { (r, s) \<leftarrow> connect_or_spawn os ps 10000 s;
          (case r of
             Inl _ \<Rightarrow> None
           | Inr c \<Rightarrow>
               do { (r, s) \<leftarrow> ensure_current_version os (he_to_json he) (he_resp_json he) (he_version he) ps c s;
                    (case r of
                       Inl _ \<Rightarrow> None
                     | Inr c \<Rightarrow>
                         (case fst (stop_wait os (he_to_json he) (he_resp_json he) ev c s) of
                            Inl _ \<Rightarrow> None
                          | Inr answer \<Rightarrow> Some answer)) }) }"

definition stop_hook_answer :: "'s os \<Rightarrow> hook_env \<Rightarrow> 's \<Rightarrow> response_body option" where
  "stop_hook_answer os he s =
     do { (input, ps, dir) \<leftarrow> hook_setup os he;
          stop_wait_answer os he ps (hook_event (os_env os) (os_fs os s) input dir EvStop) s }"

text \<open>How the Stop hook ends on an answer.\<close>

definition stop_hook_end :: "hook_env \<Rightarrow> response_body option \<Rightarrow> hook_exit" where
  "stop_hook_end he answer = (case answer of Some (RespWake payload) \<Rightarrow> wake_exit he payload | _ \<Rightarrow> exit_quietly)"

lemma stop_ends:
  assumes "clock_runs os tm"
  shows "\<exists>s'. stop_wait_hook os he ps ev s = Some (stop_hook_end he (stop_wait_answer os he ps ev s), s')"
proof -
  obtain r s1 where r: "connect_or_spawn os ps 10000 s = Some (r, s1)"
    using connect_or_spawn_returns [OF assms, of ps 10000 s] by auto
  show ?thesis
  proof (cases r)
    case (Inr c)
    obtain r' s2 where r': "ensure_current_version os (he_to_json he) (he_resp_json he) (he_version he) ps c s1 = Some (r', s2)"
      using ensure_current_version_returns [OF assms] by (metis prod.exhaust)
    show ?thesis
    proof (cases r')
      case (Inr c')
      obtain a c2 s3 where a: "stop_wait os (he_to_json he) (he_resp_json he) ev c' s2 = (a, c2, s3)"
        by (metis prod.exhaust)
      with r r' Inr \<open>r = Inr c\<close> show ?thesis
        by (simp add: stop_wait_hook_def stop_wait_answer_def stop_hook_end_def split: sum.split response_body.split)
    qed (use r r' Inr in \<open>simp add: stop_wait_hook_def stop_wait_answer_def stop_hook_end_def\<close>)
  qed (simp add: stop_wait_hook_def stop_wait_answer_def stop_hook_end_def r)
qed

lemma run_hook_ends:
  assumes "clock_runs os tm"
  shows "\<exists>s'. run_hook os he kind s =
    Some (if kind = StopWaitHook then stop_hook_end he (stop_hook_answer os he s) else exit_quietly, s')"
proof (cases "hook_setup os he")
  case (Some x)
  obtain input ps dir where x: "x = (input, ps, dir)" by (rule prod_cases3)
  let ?ev = "hook_event (os_env os) (os_fs os s) input dir"
  show ?thesis
  proof (cases kind)
    case SessionStart
    then show ?thesis
      using start_ends [OF assms, of he ps "?ev EvSessionStart" s] Some x by (auto simp: run_hook_def Let_def)
  next
    case UserPromptSubmit
    then show ?thesis
      using prompt_ends [OF assms, of he ps "sniff_prompt (hi_prompt input) (?ev EvPromptSubmit)" s] Some x
      by (auto simp: run_hook_def Let_def)
  next
    case StopWaitHook
    then show ?thesis
      using stop_ends [OF assms, of he ps "?ev EvStop" s] Some x
      by (auto simp: run_hook_def stop_hook_answer_def Let_def)
  next
    case SessionEnd
    then show ?thesis
      using end_ends [OF assms, of he ps "?ev EvSessionEnd" s] Some x by (auto simp: run_hook_def Let_def)
  qed
qed (simp add: run_hook_def stop_hook_answer_def stop_hook_end_def)

text \<open>C21. A hook never breaks or wedges the session: when the clock runs, it returns, whatever fails on the
  way, and it ends with code 0 and prints nothing, with one exception. The Stop hook ends with code 2 and
  prints the payload exactly when the daemon it connected to in this run answers its Stop event with a wake;
  only when standard error does not take the payload it ends with the code 101 of a panic.\<close>

theorem hook_ends_quietly:
  assumes "clock_runs os tm"
  shows "\<exists>e s'. run_hook os he kind s = Some (e, s')
    \<and> (case stop_hook_answer os he s of
         Some (RespWake payload) \<Rightarrow>
           e = (if kind \<noteq> StopWaitHook then exit_quietly
                else if he_stderr_ok he then \<lparr>exit_code = 2, exit_stderr = payload @ [nl]\<rparr>
                else \<lparr>exit_code = 101, exit_stderr = []\<rparr>)
       | _ \<Rightarrow> e = exit_quietly)"
  using run_hook_ends [OF assms, of he kind s]
  by (auto simp: stop_hook_end_def wake_exit_def split: option.split response_body.split)

definition sample_input :: hook_input where
  "sample_input = \<lparr>hi_session_id = ''s'', hi_transcript_path = None, hi_cwd = Some ''/p'', hi_source = None,
     hi_model = None, hi_prompt = Some ''hello''\<rparr>"

definition sample_hook :: hook_env where
  "sample_hook = \<lparr>he_stdin = Some [], he_from_json = (\<lambda>_. Some sample_input), he_current_dir = None,
     he_to_json = (\<lambda>_. Inr []), he_resp_json = (\<lambda>_. Inl ''bad''), he_version = ''0.5.0'',
     he_stderr_ok = True\<rparr>"

text \<open>A system with a daemon that answers the handshake with its version and the Stop with a wake.\<close>

definition sample_wake_os :: "nat os" where
  "sample_wake_os = sample_os\<lparr>os_env := [''HOME'' \<mapsto> ''/h''], os_connect := (\<lambda>_ s. (Some 3, s)),
     os_write_all := (\<lambda>_ _ s. (None, s + 1)), os_read_line := (\<lambda>_ s. (Inr (if s = 1 then ''h'' else ''w''), s))\<rparr>"

definition sample_wake_hook :: hook_env where
  "sample_wake_hook = sample_hook\<lparr>he_resp_json := (\<lambda>line. Inr \<lparr>resp_proto = PROTO_VERSION, resp_id = 1,
     resp_body = (if line = ''h'' then RespHelloInfo ''0.5.0'' else RespWake ''go'')\<rparr>)\<rparr>"

theorem hook_ends_quietly_witness:
  "\<exists>s'. run_hook sample_wake_os sample_wake_hook StopWaitHook 0 =
     Some (\<lparr>exit_code = 2, exit_stderr = ''go'' @ [nl]\<rparr>, s')"
proof -
  have clock: "clock_runs sample_wake_os (\<lambda>s. s)"
    by (simp add: clock_runs_def sample_wake_os_def sample_os_def)
  have answers: "fst (client_request sample_wake_os (he_to_json sample_wake_hook) (he_resp_json sample_wake_hook) body c s) =
      Inr (if s = 0 then RespHelloInfo ''0.5.0'' else RespWake ''go'')"
    "snd (client_request sample_wake_os (he_to_json sample_wake_hook) (he_resp_json sample_wake_hook) body c s) =
      (c\<lparr>cl_next_id := cl_next_id c + 1\<rparr>, s + 1)" for body c s
  proof -
    have "trim ''h'' = ''h''" "trim ''w'' = ''w''" by code_simp+
    then show "fst (client_request sample_wake_os (he_to_json sample_wake_hook) (he_resp_json sample_wake_hook) body c s) =
        Inr (if s = 0 then RespHelloInfo ''0.5.0'' else RespWake ''go'')"
      "snd (client_request sample_wake_os (he_to_json sample_wake_hook) (he_resp_json sample_wake_hook) body c s) =
        (c\<lparr>cl_next_id := cl_next_id c + 1\<rparr>, s + 1)"
      by (simp_all add: client_request_def encode_frame_def sample_wake_os_def sample_os_def sample_wake_hook_def sample_hook_def)
  qed
  have "connect_or_spawn sample_wake_os ps 10000 0 = Some (Inr \<lparr>cl_stream = 3, cl_next_id = 1\<rparr>, 0)" for ps
    by (simp add: connect_or_spawn_def connect_def sample_wake_os_def sample_os_def)
  moreover have "ensure_current_version sample_wake_os (he_to_json sample_wake_hook) (he_resp_json sample_wake_hook)
      (he_version sample_wake_hook) ps c 0 = Some (Inr (c\<lparr>cl_next_id := cl_next_id c + 1\<rparr>), 1)" for ps c
  proof -
    have "\<not> outdated (he_version sample_wake_hook) (Inr (RespHelloInfo ''0.5.0''))"
      by (simp add: outdated_def semver_lt_def sample_wake_hook_def sample_hook_def)
    then show ?thesis using answers [of "Hello (he_version sample_wake_hook)" c 0]
      by (simp add: ensure_current_version_def case_prod_unfold)
  qed
  moreover have "fst (stop_wait sample_wake_os (he_to_json sample_wake_hook) (he_resp_json sample_wake_hook) ev c 1) =
      Inr (RespWake ''go'')" for ev c
    using answers [of "StopWait ev" c 1] by (simp add: stop_wait_def sample_wake_os_def sample_os_def)
  moreover have "\<exists>input ps dir. hook_setup sample_wake_os sample_wake_hook = Some (input, ps, dir)"
  proof -
    have "hook_setup sample_wake_os sample_wake_hook \<noteq> None" by code_simp
    then show ?thesis by auto
  qed
  ultimately have "stop_hook_answer sample_wake_os sample_wake_hook 0 = Some (RespWake ''go'')"
    by (auto simp: stop_hook_answer_def stop_wait_answer_def)
  moreover have "he_stderr_ok sample_wake_hook" by (simp add: sample_wake_hook_def sample_hook_def)
  ultimately show ?thesis using hook_ends_quietly [OF clock, of sample_wake_hook StopWaitHook 0] by simp
qed

end
