(* ===== verification/Commands.thy ===== *)
theory Commands
  imports Client Discovery Wake
begin

text \<open>
  The user-facing commands of the command line, \<open>crates/autofork/src/commands.rs\<close>, and the
  dispatch of \<open>main.rs\<close>. A command prints lines and then succeeds or fails with a message; a slice
  off a character boundary panics. The system is the record of theory \<open>Client\<close>; the serde
  functions, the YAML parser, Rust's \<open>Debug\<close> output and the external \<open>claude --version\<close> call are
  parameters. Paths are displayed as they are (their bytes are taken to be UTF-8), and the endless
  loop of \<open>logs --follow\<close> is in the theory \<open>Cli\<close>.
\<close>

section \<open>Results\<close>

text \<open>Each with the texts that were printed on standard output, in order, as far as it takes them.\<close>

datatype cmd_result = CmdOk "string list" | CmdErr "string list" string | CmdPanic "string list"

record codec =
  cd_to_json :: "request \<Rightarrow> string + string"
  cd_from_json :: "string \<Rightarrow> string + response"

text \<open>Connect, send one request, and turn a client error into its message; the connection is closed when
  the command returns.\<close>

definition ask :: "'s os \<Rightarrow> codec \<Rightarrow> paths \<Rightarrow> request_body \<Rightarrow> 's \<Rightarrow> ((string + response_body) \<times> 's) option" where
  "ask os cd ps req s =
     do { (r, s) \<leftarrow> connect_or_spawn os ps 5000 s;
          (case r of
             Inl e \<Rightarrow> Some (Inl (show_client_error e), s)
           | Inr c \<Rightarrow>
               (case client_request os (cd_to_json cd) (cd_from_json cd) req c s of
                  (a, c, s) \<Rightarrow>
                    Some (case a of Inl e \<Rightarrow> Inl (show_client_error e) | Inr answer \<Rightarrow> Inr answer,
                          os_close os (cl_stream c) s))) }"

section \<open>Formatting\<close>

definition fmt_ago :: "i64 \<Rightarrow> i64 \<Rightarrow> string" where
  "fmt_ago now ts =
     (let d = max (i64_sub now ts) 0
      in if d \<le> 59 then show_i64 d @ ''s ago''
         else if d \<le> 3599 then show_i64 (d div 60) @ ''m ago''
         else if d \<le> 86399 then show_i64 (d div 3600) @ ''h ago''
         else show_i64 (d div 86400) @ ''d ago'')"

text \<open>The first eight bytes of an id, or a panic inside a character.\<close>

definition short_id :: "string \<Rightarrow> string option" where
  "short_id sid =
     (let n = min (length sid) 8
      in if n < length sid \<and> cont_byte (sid ! n) then None else Some (take n sid))"

section \<open>Status and prune\<close>

definition session_line :: "i64 \<Rightarrow> session_info \<Rightarrow> string option" where
  "session_line t s =
     (case short_id (si_session_id s) of
        None \<Rightarrow> None
      | Some short \<Rightarrow>
          Some (''  session '' @ short @ '' ['' @ si_status s @ '']'' @
                (if si_stale s then '' [stale?]'' else []) @ '' '' @ si_project_root s @ '' (active '' @
                fmt_ago t (si_last_activity s) @
                (case si_prompt_tokens s of
                   Some n \<Rightarrow> '', ~'' @ show_u64 n @ '' prompt tokens''
                 | None \<Rightarrow> []) @ '')''))"

definition run_line :: "i64 \<Rightarrow> run_info \<Rightarrow> string" where
  "run_line t r = ''  '' @ ri_fork r @ '' ('' @ ri_trigger r @ '') ['' @ ri_state r @ ''] '' @
     fmt_ago t (ri_started_at r)"

text \<open>The lines before the first that panics, and whether none does.\<close>

fun all_lines :: "string option list \<Rightarrow> string list \<times> bool" where
  "all_lines [] = ([], True)"
| "all_lines (None # xs) = ([], False)"
| "all_lines (Some x # xs) = apfst ((#) x) (all_lines xs)"

definition status_output :: "i64 \<Rightarrow> status_info \<Rightarrow> cmd_result" where
  "status_output t info =
     (let head_lines = [''autofork daemon v'' @ st_version info @ '' (pid '' @ show_nat (unat (st_pid info)) @ '')'',
                        ''sessions: '' @ show_nat (length (st_sessions info))]
      in (case all_lines (map (session_line t) (st_sessions info)) of
            (session_lines, False) \<Rightarrow> CmdPanic (head_lines @ session_lines)
          | (session_lines, True) \<Rightarrow>
              CmdOk (head_lines @ session_lines @
                     (if st_recent_runs info \<noteq> []
                      then ''recent wakes:'' # map (run_line t) (st_recent_runs info) else []))))"

definition status_cmd :: "'s os \<Rightarrow> codec \<Rightarrow> paths \<Rightarrow> i64 \<Rightarrow> 's \<Rightarrow> (cmd_result \<times> 's) option" where
  "status_cmd os cd ps t s =
     do { (r, s) \<leftarrow> ask os cd ps Status s;
          Some (case r of
                  Inl e \<Rightarrow> CmdErr [] e
                | Inr (RespStatusInfo info) \<Rightarrow> status_output t info
                | Inr _ \<Rightarrow> CmdErr [] ''unexpected response'', s) }"

definition pruned_line :: "i64 \<Rightarrow> session_info \<Rightarrow> string option" where
  "pruned_line t s =
     (case short_id (si_session_id s) of
        None \<Rightarrow> None
      | Some short \<Rightarrow>
          Some (''  session '' @ short @ '' '' @ si_project_root s @ '' (last active '' @
                fmt_ago t (si_last_activity s) @ '')''))"

definition prune_output :: "i64 \<Rightarrow> session_info list \<Rightarrow> cmd_result" where
  "prune_output t closed =
     (if closed = [] then CmdOk [''no stale sessions'']
      else (let head_line = ''closed '' @ show_nat (length closed) @ '' stale session'' @
                            (if length closed = 1 then [] else ''s'') @ '':''
            in (case all_lines (map (pruned_line t) closed) of
                  (ls, False) \<Rightarrow> CmdPanic (head_line # ls)
                | (ls, True) \<Rightarrow> CmdOk (head_line # ls))))"

definition prune_cmd :: "'s os \<Rightarrow> codec \<Rightarrow> paths \<Rightarrow> i64 \<Rightarrow> 's \<Rightarrow> (cmd_result \<times> 's) option" where
  "prune_cmd os cd ps t s =
     do { (r, s) \<leftarrow> ask os cd ps Prune s;
          Some (case r of
                  Inl e \<Rightarrow> CmdErr [] e
                | Inr (RespPruned closed) \<Rightarrow> prune_output t closed
                | Inr _ \<Rightarrow> CmdErr [] ''unexpected response'', s) }"

section \<open>Listing forks\<close>

definition fork_details :: "fork_info \<Rightarrow> string list" where
  "fork_details f =
     [''runs on: '' @ join_with '', '' (fi_triggers f)] @
     (case fi_throttle_secs f of Some t \<Rightarrow> [''throttle: '' @ show_u64 t @ ''s''] | None \<Rightarrow> []) @
     (if fi_after f \<noteq> [] then [''after: '' @ join_with '', '' (fi_after f)] else []) @
     (if fi_tags f \<noteq> [] then [''tags: '' @ join_with '', '' (fi_tags f)] else []) @
     (if fi_overlap f then [''overlap allowed''] else [])"

definition fork_lines :: "fork_info \<Rightarrow> string list" where
  "fork_lines f =
     [''  '' @ fi_name f @ '' '' @ em_dash @ '' '' @
      (case fi_description f of Some d \<Rightarrow> d | None \<Rightarrow> ''(no description)''),
      ''      '' @ join_with '' | '' (fork_details f),
      ''      '' @ fi_path f] @
     map (\<lambda>w. ''      warning: '' @ w) (fi_warnings f)"

definition list_forks_cmd ::
  "'s os \<Rightarrow> codec \<Rightarrow> paths \<Rightarrow> path option \<Rightarrow> path option \<Rightarrow> 's \<Rightarrow> (cmd_result \<times> 's) option" where
  "list_forks_cmd os cd ps project current_dir s =
     (case (case project of Some p \<Rightarrow> Some p | None \<Rightarrow> current_dir) of
        None \<Rightarrow> Some (CmdErr [] ''cannot resolve cwd'', s)
      | Some dir \<Rightarrow>
          (let root = project_root_of (os_fs os s) dir
           in do { (r, s) \<leftarrow> ask os cd ps (ListForks root dir) s;
                   Some (case r of
                           Inl e \<Rightarrow> CmdErr [] e
                         | Inr (RespForkList items) \<Rightarrow>
                             if items = []
                             then CmdOk [''no forks discovered (looked for .autofork/forks/ up from here and user-level)'']
                             else CmdOk ((''forks visible from '' @ root @ '' :'') # concat (map fork_lines items))
                         | Inr _ \<Rightarrow> CmdErr [] ''unexpected response'', s) }))"

section \<open>Running a fork by hand\<close>

definition pick_forks :: "fork_entry list \<Rightarrow> path \<Rightarrow> string option \<Rightarrow> string option \<Rightarrow> string + fork_entry list" where
  "pick_forks es dir name tag =
     (case (name, tag) of
        (Some n, _) \<Rightarrow>
          (case find (\<lambda>e. entry_name e = n) es of
             Some e \<Rightarrow> Inr [e]
           | None \<Rightarrow> Inl (''no fork named '' @ sq n @ '' visible from '' @ dir))
      | (None, Some tg) \<Rightarrow>
          (let matched = filter (\<lambda>e. list_ex (\<lambda>t. t = tg) (tags (def (entry_parsed e)))) es
           in if matched = [] then Inl (''no forks with tag '' @ sq tg @ '' visible from '' @ dir)
              else Inr matched)
      | (None, None) \<Rightarrow> Inl ''provide a fork name or --tag <tag>'')"

definition manual_due :: "fork_entry \<Rightarrow> due_fork" where
  "manual_due e = \<lparr>due_name = entry_name e, due_path = entry_path e, due_trigger = ''manual'',
     due_overlap = overlap (def (entry_parsed e)), due_after = []\<rparr>"

definition MANUAL_NOTE :: string where
  "MANUAL_NOTE =
     ''autofork can no longer spawn forks itself '' @ em_dash @
     '' forks run as fork subagents of an'' @ [nl] @
     ''interactive session. Paste the following into an interactive Claude Code session'' @
     [nl] @ ''to run the selected fork(s) now:'' @ [nl]"

definition run_fork ::
  "(string \<Rightarrow> raw_fork option) \<Rightarrow> fs \<Rightarrow> paths \<Rightarrow> string + path \<Rightarrow> string option \<Rightarrow> string option \<Rightarrow> cmd_result" where
  "run_fork from_yaml fs ps current_dir name tag =
     (if name = None \<and> tag = None then CmdErr [] ''provide a fork name or --tag <tag>''
      else (case current_dir of
              Inl e \<Rightarrow> CmdErr [] e
            | Inr dir \<Rightarrow>
                (let root = project_root_of fs dir;
                     es = fst (discover_forks from_yaml fs dir (Some (path_join (base ps) ''forks'')))
                 in (case pick_forks es dir name tag of
                       Inl e \<Rightarrow> CmdErr [] e
                     | Inr picked \<Rightarrow>
                         CmdOk [MANUAL_NOTE,
                                build_wake_payload ''(the current session)'' ''(the current conversation)'' root
                                  (map manual_due picked) []]))))"

section \<open>Logs\<close>

text \<open>\<open>str::lines\<close>: the pieces between line feeds, without a last empty one, and without one carriage
  return before the line feed.\<close>

definition str_lines :: "string \<Rightarrow> string list" where
  "str_lines s =
     (let pieces = split_on nl s;
          chop = (\<lambda>l. if l \<noteq> [] \<and> last l = cr then butlast l else l)
      in map chop (butlast pieces) @ (if last pieces = [] then [] else [last pieces]))"

definition logs_tail :: "fs \<Rightarrow> paths \<Rightarrow> string list" where
  "logs_tail fs ps =
     (let content = (case read_to_string fs (daemon_log ps) of Inr c \<Rightarrow> c | Inl _ \<Rightarrow> [])
      in rev (take 100 (rev (str_lines content))))"

section \<open>Doctor\<close>

definition FORK_DEFAULT_VERSION :: "u64 list" where
  "FORK_DEFAULT_VERSION = [2, 1, 161]"

definition FORK_GATED_VERSION :: "u64 list" where
  "FORK_GATED_VERSION = [2, 1, 117]"

definition fork_enable_hint_lines :: "bool \<Rightarrow> string list" where
  "fork_enable_hint_lines env_set =
     [if env_set then ''        CLAUDE_CODE_FORK_SUBAGENT is set (fork subagent force-enabled)''
      else ''        note: CLAUDE_CODE_FORK_SUBAGENT is not set'',
      ''        a current version can still lack the fork type due to a staged server-side'',
      ''        rollout; force-enable it by adding {'' @ [CHR 0x22] @ ''env'' @ [CHR 0x22] @
        '': {'' @ [CHR 0x22] @ ''CLAUDE_CODE_FORK_SUBAGENT'' @ [CHR 0x22] @ '': '' @ [CHR 0x22] @
        ''1'' @ [CHR 0x22] @ ''}}'',
      ''        to ~/.claude/settings.json (persistent; preferred over a shell export)'']"

definition impostor_agent_files :: "fs \<Rightarrow> path option \<Rightarrow> path \<Rightarrow> path list" where
  "impostor_agent_files fs home root =
     (let out = (case home of
                   Some h \<Rightarrow>
                     (let p = path_join h ''.claude/agents/fork.md'' in if is_file fs p then [p] else [])
                 | None \<Rightarrow> []);
          p = path_join root ''.claude/agents/fork.md''
      in if is_file fs p \<and> \<not> list_ex (\<lambda>q. path_eq q p) out then out @ [p] else out)"

text \<open>Cut a string at every separator; a separator is given by its UTF-8 encoding.\<close>

function split_any :: "string list \<Rightarrow> string \<Rightarrow> string list" where
  "split_any seps s =
     (case s of
        [] \<Rightarrow> [[]]
      | c # cs \<Rightarrow>
          (case strip_any seps s of
             Some r \<Rightarrow> [] # split_any seps r
           | None \<Rightarrow> (case split_any seps cs of [] \<Rightarrow> [[c]] | w # ws \<Rightarrow> (c # w) # ws)))"
  by pat_completeness auto
termination
  by (relation "measure (\<lambda>(_, s). length s)") (auto dest: strip_any_shorter)

declare split_any.simps [simp del]

definition parse_version_token :: "string \<Rightarrow> u64 list option" where
  "parse_version_token tok =
     (case split_on CHR ''.'' tok of
        x # y # z # _ \<Rightarrow>
          (case (parse_u64 x, parse_u64 y, parse_u64 (takeWhile is_ascii_digit z)) of
             (Some a, Some b, Some c) \<Rightarrow> Some [a, b, c]
           | _ \<Rightarrow> None)
      | _ \<Rightarrow> None)"

fun first_some :: "('a \<Rightarrow> 'b option) \<Rightarrow> 'a list \<Rightarrow> 'b option" where
  "first_some f [] = None"
| "first_some f (x # xs) = (case f x of Some y \<Rightarrow> Some y | None \<Rightarrow> first_some f xs)"

definition parse_version :: "string \<Rightarrow> u64 list option" where
  "parse_version s = first_some parse_version_token (split_any (ws_encodings @ [''('', '')'']) s)"

text \<open>What the doctor asks of its surroundings besides the system: the error of \<open>current_exe\<close>, the
  output of a successful \<open>claude --version\<close>, the current directory, and two \<open>Debug\<close> renderings.\<close>

record doctor_env =
  de_version :: string
  de_exe_error :: string
  de_claude :: "string option"
  de_current_dir :: "path option"
  de_debug_str :: "string \<Rightarrow> string"
  de_debug_answer :: "client_error + response_body \<Rightarrow> string"

text \<open>Each check prints lines and counts problems.\<close>

definition ok_line :: "string \<Rightarrow> string" where
  "ok_line msg = ''  ok: '' @ msg"

definition check_binaries :: "'s os \<Rightarrow> doctor_env \<Rightarrow> 's \<Rightarrow> string list \<times> nat" where
  "check_binaries os de s =
     (case os_exe os of
        None \<Rightarrow> ([''  PROBLEM: cannot resolve current exe: '' @ de_exe_error de], 1)
      | Some exe \<Rightarrow>
          (let cli = ok_line (''cli: '' @ exe @ '' (v'' @ de_version de @ '')'');
               missing = ([cli, ''  PROBLEM: autofork-daemon not found next to the CLI''], 1)
           in (case map_option (\<lambda>p. path_join p ''autofork-daemon'') (parent exe) of
                 Some p \<Rightarrow>
                   if is_file (os_fs os s) p then ([cli, ok_line (''daemon binary: '' @ p)], 0) else missing
               | None \<Rightarrow> missing)))"

definition check_daemon ::
  "'s os \<Rightarrow> codec \<Rightarrow> doctor_env \<Rightarrow> paths \<Rightarrow> 's \<Rightarrow> (string list \<times> nat) \<times> 's" where
  "check_daemon os cd de ps s =
     (case connect os ps 2000 s of
        (Inl _, s) \<Rightarrow> (([''  note: daemon not running (it auto-starts on the next hook event)''], 0), s)
      | (Inr c, s) \<Rightarrow>
          (case client_request os (cd_to_json cd) (cd_from_json cd) (Hello (de_version de)) c s of
             (answer, c, s) \<Rightarrow>
               (case answer of
                  Inr (RespHelloInfo version) \<Rightarrow>
                    ([ok_line (''daemon answering at '' @ socket (os_env os) ps @ '' (v'' @ version @ '')'')], 0)
                | _ \<Rightarrow> ([''  PROBLEM: daemon handshake failed: '' @ de_debug_answer de answer], 1),
                os_close os (cl_stream c) s)))"

definition check_db :: "'s os \<Rightarrow> paths \<Rightarrow> 's \<Rightarrow> string list \<times> nat" where
  "check_db os ps s =
     (if is_file (os_fs os s) (db_file ps) then ([ok_line (''state db: '' @ db_file ps)], 0)
      else ([''  note: no state db yet at '' @ db_file ps], 0))"

definition check_claude :: "'s os \<Rightarrow> doctor_env \<Rightarrow> string list \<times> nat" where
  "check_claude os de =
     (case de_claude de of
        None \<Rightarrow> ([''  note: could not run 'claude --version' to check fork subagent support''], 0)
      | Some out \<Rightarrow>
          (let raw = trim out
           in (case parse_version raw of
                 Some v \<Rightarrow>
                   if FORK_DEFAULT_VERSION \<le> v
                   then (ok_line (''claude: '' @ raw) #
                         fork_enable_hint_lines (os_env os ''CLAUDE_CODE_FORK_SUBAGENT'' \<noteq> None), 0)
                   else if FORK_GATED_VERSION \<le> v
                   then ([''  WARN: claude '' @ raw @ '': the fork subagent is gated on this version '' @ em_dash,
                          ''        export CLAUDE_CODE_FORK_SUBAGENT=1 or upgrade to >= 2.1.161''], 0)
                   else ([''  PROBLEM: claude '' @ raw @
                          '' is too old for autofork v0.5 (needs the fork subagent, >= 2.1.117)''], 1)
               | None \<Rightarrow>
                   ([''  note: could not parse 'claude --version' output ('' @ de_debug_str de raw @ '')''], 0))))"

definition impostor_lines :: "path \<Rightarrow> string list" where
  "impostor_lines p =
     [''  PROBLEM: custom agent 'fork' at '' @ p @ '' shadows/impersonates the'',
      ''           built-in fork subagent type '' @ em_dash @ '' autofork forks would silently lose'',
      ''           conversation context; delete it.'']"

definition check_impostors :: "'s os \<Rightarrow> doctor_env \<Rightarrow> 's \<Rightarrow> string list \<times> nat" where
  "check_impostors os de s =
     (let proot = (case de_current_dir de of Some c \<Rightarrow> project_root_of (os_fs os s) c | None \<Rightarrow> ''.'');
          found = impostor_agent_files (os_fs os s) (os_env os ''HOME'') proot
      in (concat (map impostor_lines found), length found))"

definition DOCTOR_NOTE :: string where
  "DOCTOR_NOTE =
     ''  note: v0.5 forks run as fork subagents of your interactive session '' @ em_dash @
     '' no headless'' @ [nl] @
     ''        fork subprocesses, and no separate fork-session transcripts to prune.''"

definition doctor :: "'s os \<Rightarrow> codec \<Rightarrow> doctor_env \<Rightarrow> paths \<Rightarrow> 's \<Rightarrow> cmd_result \<times> 's" where
  "doctor os cd de ps s =
     (let (l1, n1) = check_binaries os de s;
          ((l2, n2), s) = check_daemon os cd de ps s;
          (l3, n3) = check_db os ps s;
          (l4, n4) = check_claude os de;
          (l5, n5) = check_impostors os de s;
          ls = [''autofork doctor''] @ l1 @ l2 @ l3 @ l4 @ l5 @ [DOCTOR_NOTE];
          problems = n1 + n2 + n3 + n4 + n5
      in (if problems = 0 then CmdOk (ls @ [''all good''])
          else CmdErr ls (show_nat problems @ '' problem(s) found''), s))"

section \<open>Reading a version\<close>

lemma split_any_Nil [simp]: "split_any seps [] = [[]]"
  by (simp add: split_any.simps)

lemma split_any_nonempty [simp]: "split_any seps s \<noteq> []"
  by (subst split_any.simps) (auto split: list.split option.split)

text \<open>A word without the first byte of a separator is not cut.\<close>

lemma split_any_word:
  assumes "\<And>c r. c \<in> set w \<Longrightarrow> strip_any seps (c # r) = None"
  shows "split_any seps (w @ rest) = (w @ hd (split_any seps rest)) # tl (split_any seps rest)"
  using assms
proof (induction w)
  case (Cons c w)
  have "strip_any seps (c # w @ rest) = None" using Cons.prems [of c] by simp
  with Cons show ?case by (subst split_any.simps) simp
qed simp

definition version_seps :: "string list" where
  "version_seps = ws_encodings @ [''('', '')'']"

lemma version_char_no_sep:
  assumes "c \<in> set (version_text a b d)"
  shows "strip_any version_seps (c # r) = None"
proof -
  have "is_ascii_digit c \<or> c = CHR ''.''"
    using assms show_u64_digits by (auto simp: version_text_def)
  then have "c \<notin> hd ` set version_seps"
    by (auto simp: version_seps_def ws_encodings_def is_ascii_digit_def)
  moreover have "[] \<notin> set version_seps" by (simp add: version_seps_def ws_encodings_def)
  ultimately show ?thesis
    by (auto simp: strip_any_None_iff starts_with_iff neq_Nil_conv) (metis image_eqI list.sel(1))
qed

lemma parse_version_token_text: "parse_version_token (version_text a b c) = Some [a, b, c]"
  by (simp add: parse_version_token_def split_version)

text \<open>\<open>parse_version\<close> reads the version off what \<open>claude --version\<close> prints: the number alone, or
  the number before a blank or a parenthesis and any text.\<close>

theorem parse_version_reads:
  assumes "rest = [] \<or> (\<exists>sep \<in> set version_seps. \<exists>more. rest = sep @ more)"
  shows "parse_version (version_text a b c @ rest) = Some [a, b, c]"
proof -
  have "split_any version_seps (version_text a b c @ rest) =
      (version_text a b c @ hd (split_any version_seps rest)) # tl (split_any version_seps rest)"
    by (rule split_any_word) (rule version_char_no_sep)
  moreover have "hd (split_any version_seps rest) = []"
  proof (cases "rest = []")
    case False
    with assms obtain sep more where sep: "sep \<in> set version_seps" "rest = sep @ more" by blast
    moreover from sep(1) have "sep \<noteq> []" by (auto simp: version_seps_def ws_encodings_def)
    ultimately have "strip_any version_seps rest \<noteq> None" by (auto simp: strip_any_None_iff)
    with False show ?thesis by (subst split_any.simps) (auto split: list.split option.split)
  qed simp
  ultimately show ?thesis
    by (simp add: parse_version_def version_seps_def parse_version_token_text)
qed

theorem parse_version_reads_witness:
  "parse_version (version_text 2 1 161 @ '' (Claude Code)'') = Some [2, 1, 161]"
  by (rule parse_version_reads) (simp add: version_seps_def ws_encodings_def)

section \<open>The doctor's verdict\<close>

definition is_problem :: "string \<Rightarrow> bool" where
  "is_problem l \<longleftrightarrow> starts_with l ''  PROBLEM: ''"

abbreviation counts :: "string list \<times> nat \<Rightarrow> bool" where
  "counts x \<equiv> length (filter is_problem (fst x)) = snd x"

lemma counts_binaries: "counts (check_binaries os de s)"
  by (auto simp: check_binaries_def is_problem_def ok_line_def Let_def split: option.split)

lemma counts_daemon: "counts (fst (check_daemon os cd de ps s))"
  by (auto simp: check_daemon_def is_problem_def ok_line_def case_prod_unfold
      split: prod.split sum.split response_body.split)

lemma counts_db: "counts (check_db os ps s)"
  by (simp add: check_db_def is_problem_def ok_line_def)

lemma counts_claude: "counts (check_claude os de)"
  by (auto simp: check_claude_def is_problem_def ok_line_def fork_enable_hint_lines_def Let_def split: option.split)

lemma counts_impostors: "counts (check_impostors os de s)"
proof -
  have "length (filter is_problem (concat (map impostor_lines ps))) = length ps" for ps
    by (induction ps) (simp_all add: impostor_lines_def is_problem_def)
  then show ?thesis by (simp add: check_impostors_def Let_def)
qed

text \<open>The doctor's verdict agrees with what it prints: it succeeds, with \<open>all good\<close>, exactly when no
  line it printed reports a problem, and otherwise fails with the number of those lines.\<close>

theorem doctor_verdict:
  "\<exists>ls. fst (doctor os cd de ps s) =
     (if list_ex is_problem ls then CmdErr ls (show_nat (length (filter is_problem ls)) @ '' problem(s) found'')
      else CmdOk (ls @ [''all good'']))"
proof -
  obtain l1 n1 where 1: "check_binaries os de s = (l1, n1)" by (rule prod.exhaust)
  obtain l2 n2 s2 where 2: "check_daemon os cd de ps s = ((l2, n2), s2)" by (metis prod.exhaust)
  obtain l3 n3 where 3: "check_db os ps s2 = (l3, n3)" by (rule prod.exhaust)
  obtain l4 n4 where 4: "check_claude os de = (l4, n4)" by (rule prod.exhaust)
  obtain l5 n5 where 5: "check_impostors os de s2 = (l5, n5)" by (rule prod.exhaust)
  define ls where "ls = [''autofork doctor''] @ l1 @ l2 @ l3 @ l4 @ l5 @ [DOCTOR_NOTE]"
  define n where "n = n1 + n2 + n3 + n4 + n5"
  have "length (filter is_problem ls) = n"
    using counts_binaries [of os de s] counts_daemon [of os cd de ps s] counts_db [of os ps s2]
      counts_claude [of os de] counts_impostors [of os de s2] 1 2 3 4 5
    by (simp add: ls_def n_def is_problem_def DOCTOR_NOTE_def)
  moreover from this have "list_ex is_problem ls \<longleftrightarrow> n \<noteq> 0"
    by (metis filter_False length_0_conv list_ex_iff filter_empty_conv)
  moreover have "fst (doctor os cd de ps s) =
      (if n = 0 then CmdOk (ls @ [''all good'']) else CmdErr ls (show_nat n @ '' problem(s) found''))"
    by (simp only: doctor_def 1 2 3 4 5 Let_def prod.case fst_conv ls_def n_def)
  ultimately show ?thesis by (intro exI [of _ ls]) simp
qed

section \<open>Logs and ids\<close>

lemma logs_tail_last:
  "logs_tail fs ps =
     (let ls = str_lines (case read_to_string fs (daemon_log ps) of Inr c \<Rightarrow> c | Inl _ \<Rightarrow> [])
      in drop (length ls - 100) ls)"
  by (simp add: logs_tail_def Let_def take_rev)

lemma short_id_ascii: "list_all (\<lambda>c. \<not> cont_byte c) sid \<Longrightarrow> short_id sid = Some (take 8 sid)"
  by (auto simp: short_id_def Let_def list_all_length min_def)

end
