(* ===== verification/Cli.thy ===== *)
theory Cli
  imports Hook Commands
begin

text \<open>
  The command line's entry point, \<open>crates/autofork/src/main.rs\<close>: the dispatch of a parsed command and
  the exit code it ends with, and the follow loop of \<open>logs\<close>. The parser of the arguments, clap, is
  not modelled; a command is a value of type \<open>command\<close>. Standard output may fail after any number of
  prints, standard error at once; a failed print is a panic.
\<close>

section \<open>The model\<close>

datatype command =
    HookCmd hook_kind
  | StatusCmd
  | ForksCmd "path option"
  | RunCmd "string option" "string option"
  | LogsCmd bool
  | PruneCmd
  | DoctorCmd
  | StopDaemonCmd bool

text \<open>What one turn of the follow loop gets from the system: the length of the log (or an error), whether the
  seek fails, and the bytes from the start of the file that a read finds a moment later.\<close>

record follow_turn_io =
  fo_len :: "string + nat"
  fo_seek :: "string option"
  fo_bytes :: "string + string"

text \<open>How a process ends: the lines on standard output, what it wrote to standard error, the exit code.\<close>

record proc_end =
  pe_stdout :: "string list"
  pe_stderr :: string
  pe_code :: int

text \<open>What the commands ask of their surroundings, besides the system: \<open>ce_stdout\<close> is the number of prints
  that standard output takes before it fails, if it does; whether standard error takes what is printed on it
  is a part of the surroundings of the hook.\<close>

record cli_env =
  ce_hook :: hook_env
  ce_codec :: codec
  ce_doctor :: doctor_env
  ce_from_yaml :: "string \<Rightarrow> raw_fork option"
  ce_current_dir :: "string + path"
  ce_now :: i64
  ce_open_log :: "string + nat"
  ce_follow :: "follow_turn_io list"
  ce_stdout :: "nat option"

definition stop_daemon :: "'s os \<Rightarrow> codec \<Rightarrow> paths \<Rightarrow> bool \<Rightarrow> 's \<Rightarrow> cmd_result \<times> 's" where
  "stop_daemon os cd ps drain s =
     (case connect os ps 5000 s of
        (Inl _, s) \<Rightarrow> (CmdOk [''daemon not running''], s)
      | (Inr c, s) \<Rightarrow>
          (case client_request os (cd_to_json cd) (cd_from_json cd) (Shutdown drain) c s of
             (r, c, s) \<Rightarrow>
               (case r of
                  Inl e \<Rightarrow> CmdErr [] (show_client_error e)
                | Inr _ \<Rightarrow> CmdOk [''daemon asked to exit''], os_close os (cl_stream c) s)))"

text \<open>A panic ends the process with code 101; its message, and what a failed print still writes, are not
  modelled.\<close>

definition stdout_fails :: "cli_env \<Rightarrow> string list \<Rightarrow> bool" where
  "stdout_fails ce out = (case ce_stdout ce of Some n \<Rightarrow> n < length out | None \<Rightarrow> False)"

definition panicked :: "cli_env \<Rightarrow> string list \<Rightarrow> proc_end" where
  "panicked ce out =
     \<lparr>pe_stdout = (case ce_stdout ce of Some n \<Rightarrow> take n out | None \<Rightarrow> out), pe_stderr = [], pe_code = 101\<rparr>"

text \<open>\<open>eprintln!\<close> of a message, then exit code 1.\<close>

definition fail_with :: "cli_env \<Rightarrow> string list \<Rightarrow> string \<Rightarrow> proc_end" where
  "fail_with ce out e =
     (if he_stderr_ok (ce_hook ce)
      then \<lparr>pe_stdout = out, pe_stderr = ''autofork: '' @ e @ [nl], pe_code = 1\<rparr>
      else panicked ce out)"

fun exit_on_err :: "cli_env \<Rightarrow> cmd_result \<Rightarrow> proc_end" where
  "exit_on_err ce (CmdOk out) =
     (if stdout_fails ce out then panicked ce out else \<lparr>pe_stdout = out, pe_stderr = [], pe_code = 0\<rparr>)"
| "exit_on_err ce (CmdErr out e) = (if stdout_fails ce out then panicked ce out else fail_with ce out e)"
| "exit_on_err ce (CmdPanic out) = panicked ce out"

text \<open>One turn of the follow loop: an error, or what it prints and the new position, which is the length the
  file had before it was read.\<close>

definition follow_turn :: "follow_turn_io \<Rightarrow> nat \<Rightarrow> string + string option \<times> nat" where
  "follow_turn io pos =
     (case fo_len io of
        Inl e \<Rightarrow> Inl e
      | Inr len \<Rightarrow>
          (let pos = (if len < pos then 0 else pos)
           in if pos < len then
                (case fo_seek io of
                   Some e \<Rightarrow> Inl e
                 | None \<Rightarrow>
                     (case fo_bytes io of
                        Inl e \<Rightarrow> Inl e
                      | Inr bytes \<Rightarrow>
                          if utf8_valid (drop pos bytes) then Inr (Some (drop pos bytes), len)
                          else Inl ''stream did not contain valid UTF-8''))
              else Inr (None, pos)))"

text \<open>The loop over the turns the system has seen so far: what its prints print, and the error that ended it,
  if any. A turn prints when there is more than before, though this may be the empty text.\<close>

fun follow_loop :: "follow_turn_io list \<Rightarrow> nat \<Rightarrow> string list \<times> string option" where
  "follow_loop [] pos = ([], None)"
| "follow_loop (io # ios) pos =
     (case follow_turn io pos of
        Inl e \<Rightarrow> ([], Some e)
      | Inr (None, pos) \<Rightarrow> follow_loop ios pos
      | Inr (Some out, pos) \<Rightarrow> apfst ((#) out) (follow_loop ios pos))"

text \<open>\<open>logs\<close>: what it prints, and how it ended; following the log (\<open>None\<close>) does not end unless it fails.\<close>

definition logs_cmd :: "fs \<Rightarrow> paths \<Rightarrow> string + nat \<Rightarrow> follow_turn_io list \<Rightarrow> bool \<Rightarrow> string list \<times> cmd_result option" where
  "logs_cmd fs ps open_log ios follow =
     (let tail = logs_tail fs ps
      in if \<not> follow then (tail, Some (CmdOk tail))
         else (case open_log of
                 Inl e \<Rightarrow> (tail, Some (CmdErr tail e))
               | Inr pos \<Rightarrow>
                   (case follow_loop ios pos of
                      (out, None) \<Rightarrow> (tail @ out, None)
                    | (out, Some e) \<Rightarrow> (tail @ out, Some (CmdErr (tail @ out) e)))))"

text \<open>The end of \<open>logs\<close>: it is ended by a failed print also where it would go on.\<close>

definition logs_end :: "cli_env \<Rightarrow> string list \<times> cmd_result option \<Rightarrow> proc_end option" where
  "logs_end ce r =
     (case r of
        (out, Some res) \<Rightarrow> Some (exit_on_err ce res)
      | (out, None) \<Rightarrow> if stdout_fails ce out then Some (panicked ce out) else None)"

text \<open>The doctor prints before it connects: a print that fails there leaves the daemon alone. The other commands
  have made their calls of the system when they print.\<close>

definition doctor_end :: "'s os \<Rightarrow> cli_env \<Rightarrow> paths \<Rightarrow> 's \<Rightarrow> proc_end \<times> 's" where
  "doctor_end os ce ps s =
     (case doctor os (ce_codec ce) (ce_doctor ce) ps s of
        (r, s') \<Rightarrow> (exit_on_err ce r,
                    if stdout_fails ce ([''autofork doctor''] @ fst (check_binaries os (ce_doctor ce) s)) then s else s'))"

definition current_dir_opt :: "string + path \<Rightarrow> path option" where
  "current_dir_opt r = (case r of Inr d \<Rightarrow> Some d | Inl _ \<Rightarrow> None)"

definition cli_main :: "'s os \<Rightarrow> cli_env \<Rightarrow> command \<Rightarrow> 's \<Rightarrow> (proc_end \<times> 's) option" where
  "cli_main os ce cmd s =
     (case paths_from_env (os_env os) of
        None \<Rightarrow> Some (fail_with ce [] ''cannot determine home directory'', s)
      | Some ps \<Rightarrow>
          (case cmd of
             HookCmd kind \<Rightarrow>
               map_option (\<lambda>(e, s). (\<lparr>pe_stdout = [], pe_stderr = exit_stderr e, pe_code = exit_code e\<rparr>, s))
                 (run_hook os (ce_hook ce) kind s)
           | StatusCmd \<Rightarrow> map_option (apfst (exit_on_err ce)) (status_cmd os (ce_codec ce) ps (ce_now ce) s)
           | ForksCmd project \<Rightarrow>
               map_option (apfst (exit_on_err ce))
                 (list_forks_cmd os (ce_codec ce) ps project (current_dir_opt (ce_current_dir ce)) s)
           | RunCmd name tag \<Rightarrow>
               Some (exit_on_err ce (run_fork (ce_from_yaml ce) (os_fs os s) ps (ce_current_dir ce) name tag), s)
           | LogsCmd follow \<Rightarrow>
               map_option (\<lambda>e. (e, s)) (logs_end ce (logs_cmd (os_fs os s) ps (ce_open_log ce) (ce_follow ce) follow))
           | PruneCmd \<Rightarrow> map_option (apfst (exit_on_err ce)) (prune_cmd os (ce_codec ce) ps (ce_now ce) s)
           | DoctorCmd \<Rightarrow> Some (doctor_end os ce ps s)
           | StopDaemonCmd drain \<Rightarrow> Some (apfst (exit_on_err ce) (stop_daemon os (ce_codec ce) ps drain s))))"

section \<open>Properties\<close>

lemma ask_returns:
  assumes "clock_runs os tm"
  shows "\<exists>r s'. ask os cd ps req s = Some (r, s')"
proof -
  obtain r s1 where "connect_or_spawn os ps 5000 s = Some (r, s1)"
    using connect_or_spawn_returns [OF assms, of ps 5000 s] by auto
  then show ?thesis by (cases r) (auto simp: ask_def split: prod.split)
qed

text \<open>A log that only grows, in pieces of valid text: at a turn \<open>(x, late)\<close> the
  piece \<open>x\<close> is new, and \<open>late\<close> is written between the call for the length and the read.\<close>

fun growing :: "string \<Rightarrow> (string \<times> string) list \<Rightarrow> follow_turn_io list" where
  "growing content [] = []"
| "growing content ((x, late) # xs) =
     \<lparr>fo_len = Inr (length (content @ x)), fo_seek = None, fo_bytes = Inr (content @ x @ late)\<rparr> #
     growing (content @ x @ late) xs"

lemma follow_growing:
  "list_all (\<lambda>(x, late). late = [] \<and> utf8_valid x) xs \<Longrightarrow>
   follow_loop (growing content xs) (length content) = (map fst (filter (\<lambda>(x, late). x \<noteq> []) xs), None)"
proof (induction xs arbitrary: content)
  case (Cons y xs)
  obtain x late where y: "y = (x, late)" by (cases y)
  from Cons.IH [of "content @ x"] Cons.prems show ?case
    by (cases x) (simp_all add: y follow_turn_def Let_def)
qed simp

text \<open>What is written between the two calls is printed by both turns.\<close>

lemma follow_prints_twice:
  "follow_loop (growing [] [(''a'', ''b''), (''c'', [])]) 0 = ([''ab'', ''bc''], None)"
  by (simp add: follow_turn_def byte_in_def)

lemma exit_on_err_code: "pe_code (exit_on_err ce r) \<in> {0, 1, 101}"
  by (cases r) (simp_all add: panicked_def fail_with_def)

lemma ask_cmds_return:
  assumes "clock_runs os tm"
  shows "\<exists>r s'. status_cmd os cd ps t s = Some (r, s')" "\<exists>r s'. prune_cmd os cd ps t s = Some (r, s')"
    "\<exists>r s'. list_forks_cmd os cd ps project dir s = Some (r, s')"
proof -
  show "\<exists>r s'. status_cmd os cd ps t s = Some (r, s')" "\<exists>r s'. prune_cmd os cd ps t s = Some (r, s')"
    using ask_returns [OF assms, of cd ps Status s] ask_returns [OF assms, of cd ps Prune s]
    by (auto simp: status_cmd_def prune_cmd_def)
  show "\<exists>r s'. list_forks_cmd os cd ps project dir s = Some (r, s')"
  proof (cases "case project of Some p \<Rightarrow> Some p | None \<Rightarrow> dir")
    case (Some d)
    obtain r s1 where "ask os cd ps (ListForks (project_root_of (os_fs os s) d) d) s = Some (r, s1)"
      using ask_returns [OF assms] by blast
    with Some show ?thesis by (simp add: list_forks_cmd_def Let_def)
  qed (simp add: list_forks_cmd_def)
qed

text \<open>Every command returns when the clock runs, following the log apart; it ends with code 2 exactly as the
  Stop hook that delivers a wake, and the other exit codes are 0, 1 and 101.\<close>

theorem cli_returns:
  assumes "clock_runs os tm" and "cmd \<noteq> LogsCmd True"
  shows "\<exists>e s'. cli_main os ce cmd s = Some (e, s') \<and> pe_code e \<in> {0, 1, 2, 101}
    \<and> (pe_code e = 2 \<longleftrightarrow> cmd = HookCmd StopWaitHook \<and> paths_from_env (os_env os) \<noteq> None \<and> he_stderr_ok (ce_hook ce)
         \<and> (\<exists>payload. stop_hook_answer os (ce_hook ce) s = Some (RespWake payload)))"
proof (cases "paths_from_env (os_env os)")
  case None
  then show ?thesis by (simp add: cli_main_def fail_with_def panicked_def)
next
  case (Some ps)
  have no_2: "pe_code (exit_on_err ce r) \<noteq> 2" "pe_code (exit_on_err ce r) \<in> {0, 1, 2, 101}" for r
    using exit_on_err_code [of ce r] by auto
  show ?thesis
  proof (cases cmd)
    case (HookCmd kind)
    obtain s' where "run_hook os (ce_hook ce) kind s =
        Some (if kind = StopWaitHook then stop_hook_end (ce_hook ce) (stop_hook_answer os (ce_hook ce) s) else exit_quietly, s')"
      using run_hook_ends [OF assms(1), of "ce_hook ce" kind s] by blast
    with Some HookCmd show ?thesis
      by (auto simp: cli_main_def exit_quietly_def stop_hook_end_def wake_exit_def split: option.split response_body.split)
  next
    case StatusCmd
    obtain r s' where "status_cmd os (ce_codec ce) ps (ce_now ce) s = Some (r, s')"
      using ask_cmds_return(1) [OF assms(1)] by blast
    with Some StatusCmd show ?thesis using no_2 [of r] by (simp add: cli_main_def)
  next
    case (ForksCmd project)
    obtain r s' where "list_forks_cmd os (ce_codec ce) ps project (current_dir_opt (ce_current_dir ce)) s = Some (r, s')"
      using ask_cmds_return(3) [OF assms(1)] by blast
    with Some ForksCmd show ?thesis using no_2 [of r] by (simp add: cli_main_def)
  next
    case (RunCmd name tag)
    then show ?thesis using Some no_2 by (simp add: cli_main_def)
  next
    case (LogsCmd follow)
    with assms(2) have "follow = False" by simp
    with Some LogsCmd show ?thesis using no_2 [of "CmdOk (logs_tail (os_fs os s) ps)"]
      by (simp add: cli_main_def logs_cmd_def logs_end_def Let_def del: exit_on_err.simps)
  next
    case PruneCmd
    obtain r s' where "prune_cmd os (ce_codec ce) ps (ce_now ce) s = Some (r, s')"
      using ask_cmds_return(2) [OF assms(1)] by blast
    with Some PruneCmd show ?thesis using no_2 [of r] by (simp add: cli_main_def)
  next
    case DoctorCmd
    then show ?thesis using Some no_2 by (simp add: cli_main_def doctor_end_def case_prod_unfold)
  next
    case (StopDaemonCmd drain)
    then show ?thesis using Some no_2
      by (cases "stop_daemon os (ce_codec ce) ps drain s") (simp add: cli_main_def)
  qed
qed

text \<open>A hook ends with code 1, and prints, when no home directory can be determined.\<close>

lemma hook_without_home:
  "paths_from_env (os_env os) = None \<Longrightarrow> he_stderr_ok (ce_hook ce) \<Longrightarrow>
   cli_main os ce (HookCmd kind) s =
     Some (\<lparr>pe_stdout = [], pe_stderr = ''autofork: cannot determine home directory'' @ [nl], pe_code = 1\<rparr>, s)"
  by (simp add: cli_main_def fail_with_def)

end
