(* ===== verification/Spec2Isabelle.thy ===== *)
theory Spec2Isabelle
  imports Connections Firing Locking Daemon_Main Store_Spec Cli
begin

text \<open>
  autofork runs ``forks'' for Claude Code: when a session has been idle for a while, or its context has
  grown past a threshold, the session is woken with instructions to spawn background subagents. The
  program is a command line (\<open>crates/autofork\<close>), whose hook entrypoint Claude Code calls, a daemon
  (\<open>crates/autofork-daemon\<close>), which keeps the sessions and decides what is due, and a library
  (\<open>crates/autofork-core\<close>). This development models the three crates as HOL functions and step
  relations and proves what makes them correct.

  \<^bold>\<open>How the parts interact.\<close> A hook turns its JSON input into an event and sends it to the daemon over a
  socket, one JSON line per request (\<open>hook.rs\<close>, \<open>client.rs\<close>, \<open>protocol.rs\<close>, \<open>server.rs\<close>). The Stop
  hook's request is a long poll: the daemon (\<open>daemon.rs\<close>) records the pause, reads what was added to the
  transcript (\<open>transcript.rs\<close>, \<open>notification.rs\<close>), and suspends the poll until a fork is due.
  The planner (\<open>planner.rs\<close>) selects forks from the session's roster, which discovery (\<open>discovery.rs\<close>)
  fills with the fork files (\<open>frontmatter.rs\<close>), by trigger (\<open>moments.rs\<close>), tags, throttles and
  latches, orders them by their \<open>after\<close> lists (\<open>schedule.rs\<close>), stamps the store (\<open>store.rs\<close>) and
  answers with a payload (\<open>wake.rs\<close>); dependents are held until the completion notices of their
  predecessors arrive. A genuine prompt starts a new pause.

  \<^bold>\<open>Theories and sources.\<close>
  \<^item> \<open>Rust_Prelude\<close>: machine integers, strings as UTF-8 bytes, number parsing and printing, as the
    standard library has them; the collections \<open>rust_str\<close> and \<open>tbl_simps\<close>.
  \<^item> \<open>Schedule\<close> (\<open>schedule.rs\<close>), \<open>Durations\<close> (\<open>duration.rs\<close>), \<open>Tags\<close> (\<open>tags.rs\<close>), \<open>Frontmatter\<close>
    (\<open>frontmatter.rs\<close>), \<open>Moments\<close> (\<open>moments.rs\<close>), \<open>Notification\<close> (\<open>notification.rs\<close>), \<open>Wake\<close>
    (\<open>wake.rs\<close>), \<open>Transcript\<close> (\<open>transcript.rs\<close>): one function per function of the source.
  \<^item> \<open>Paths\<close> (Unix paths and the file system as a record of functions), \<open>Project\<close> (\<open>project.rs\<close>),
    \<open>Config\<close> (\<open>config.rs\<close>), \<open>Discovery\<close> (\<open>discovery.rs\<close>).
  \<^item> \<open>Tables\<close> (the SQL statement forms over tables as lists of rows, with the locale
    \<open>session_table\<close>), \<open>Store\<close> (every method of \<open>store.rs\<close>, and \<open>store_op\<close>, the type of its histories;
    the locales \<open>sticky\<close> and \<open>once_latch\<close>), \<open>Store_Spec\<close> (the specification by finite maps and the locale
    \<open>simulation\<close>), \<open>Migrations\<close> (\<open>Store::init\<close>).
  \<^item> \<open>Protocol\<close> (\<open>protocol.rs\<close>), \<open>Daemon_State\<close> and \<open>Daemon\<close> (\<open>daemon.rs\<close>), \<open>Planner\<close>
    (\<open>planner.rs\<close>), \<open>Server\<close> (\<open>server.rs\<close>, \<open>sweep.rs\<close>): the struct \<open>Daemon\<close> is the record \<open>daemon\<close>,
    every handler a function on it; the handler of the long poll is cut at its suspension points.
  \<^item> \<open>Polls\<close>: the handlers as a transition system, with suspended polls, timers, cancellations, lost
    connections, grace periods, prunes and reaps in any order; the locale \<open>run_invariant\<close>.
  \<^item> \<open>Connections\<close> (\<open>serve\<close>, \<open>handle_conn\<close>, \<open>quiet_reaper\<close>, \<open>request_shutdown\<close>): the tasks of the connections
    around that system, up to the end of the process; every step of a task is a run of \<open>Polls\<close>.
  \<^item> \<open>Firing\<close>: the same handlers, from a fork's side: which forks a poll must fire, and which it cannot.
  \<^item> \<open>Locking\<close>: the planner once more, with a gap wherever the store's mutex is free.
  \<^item> \<open>Client\<close> (\<open>client.rs\<close>), \<open>Hook\<close> (\<open>hook.rs\<close>), \<open>Commands\<close> (\<open>commands.rs\<close>), \<open>Cli\<close> (\<open>main.rs\<close>),
    over a record \<open>os\<close> of the system calls the source makes.
  \<^item> \<open>Startup\<close> (\<open>main.rs\<close> of the daemon with the spawn code of \<open>client.rs\<close>): clients and daemons that
    race for the locks and the socket; \<open>Daemon_Main\<close>: the daemon's \<open>main\<close> over its system calls, with a monitor
    that follows its stages. The locale \<open>step_invariant\<close> of \<open>Rust_Prelude\<close> serves both transition systems.
  \<^item> This theory: the properties that span the hook and the daemon.

  \<^bold>\<open>What is shown.\<close> A fork that is due, by an idle deadline or a context threshold, is in the wake of the poll
  that sees it, unless its tags, a throttle, a latch or another path under its name in the session's roster hold it
  back. A parked poll has a timer for every deadline, up to the first that finds a fork due; the deadlines after
  that one are lost when its wake turns out empty, a threshold that has fired hides the fork's other triggers, and a
  fork whose file has moved is lost to the sessions that queued it before (\<open>Firing\<close>). A fork fires once per pause and once per
  context threshold, along every interleaving
  (\<open>Polls\<close>, on the latches of \<open>Store\<close>); its own wake and its own completion notice never count as
  activity, from the text of the prompt to the store (this theory); held dependents are stored with their
  predecessors, never stuck, and released exactly when their predecessors have completed (\<open>Planner\<close>, on the acyclic graph
  of \<open>Schedule\<close>). The books of the parked polls are right in every reachable state, a lost poll closes
  a session only when it stays away, and a poll sees boundedly many timers (\<open>Polls\<close>, \<open>Daemon\<close>). Requests are
  answered in order, except for lines that arrive while a poll is parked, which are dropped; the daemon never
  retires under a parked poll, and its shutdown notifies every parked poll, though a timer that fires first may lose
  the notification (\<open>Connections\<close>). Planning for a session is atomic against the work for other sessions, at the granularity of
  the store's mutex, and is not against another poll of the same session (\<open>Locking\<close>). The store
  refines a specification by finite maps and histories of runs, a session's state depends on its own operations alone, completions are final, closing
  clears (\<open>Store\<close>, \<open>Store_Spec\<close>); opening a database keeps its columns, and an
  interrupted upgrade is resumed exactly when it has added no column (\<open>Migrations\<close>).
  Reading a growing transcript piecewise equals reading it at once (\<open>Transcript\<close>). Parsing, discovery
  and configuration have their round trips, invariants and precedence rules. Hooks return and end
  quietly whatever fails, except for the wake that the daemon answers, every command returns when the clock runs,
  racing starts of one base directory end in one daemon, and the daemon's \<open>main\<close> keeps to the steps of that race (\<open>Hook\<close>, \<open>Cli\<close>, \<open>Startup\<close>, \<open>Daemon_Main\<close>).

  \<^bold>\<open>Parameters.\<close> serde_yaml, toml and serde_json, the file system, the environment, the clock and the
  system calls are arguments of the definitions. A clock reading is an argument of the operation that
  takes it; the readings of one call are a function \<open>clk\<close>, numbered in the order of the source. The
  hypothesis \<open>clock_runs\<close> of \<open>Client\<close> says that time does not stand still across a sleep.

  \<^bold>\<open>Termination.\<close> No definition uses fuel. Recursions over strings, paths, directories (whose nesting the
  source caps at 8) and dependency graphs are total by a measure; the polling loops of the client are
  partial functions in the option monad, proved to return under \<open>clock_runs\<close>.

  \<^bold>\<open>Bounds.\<close> \<open>u64\<close> is a 64-bit word; \<open>i64\<close> is an integer whose sums and differences wrap where the
  source computes with them in the range of the type, with the overflow behaviour of a release build.
  Row ids, epochs and connection counts are unbounded.

  \<^bold>\<open>Not modelled.\<close> Errors of SQLite (the callers discard them) and its connection; tracing; the tokio runtime.
  In \<open>Polls\<close> and \<open>Connections\<close> a handler is atomic between two suspension points, while the source runs handlers
  on several threads and releases the store's mutex between its calls; \<open>Locking\<close> treats this for the planner.
  clap's parsing of the arguments is derived code. A print on standard output or error that fails ends a command
  or hook with the code of a panic (\<open>Hook\<close>, \<open>Cli\<close>); what part of its text was written then, and the panic's message,
  are not modelled. Paths that are not UTF-8 are not replaced by their lossy
  form. The build files, the plugin's declarations and the tests are not part of the model.
\<close>

section \<open>From the prompt to the pause\<close>

text \<open>The hook sniffs at a submitted prompt, and the daemon decides on the event it is sent. The lemmas
  below follow a prompt through both.\<close>

abbreviation prompt_event :: "(string \<Rightarrow> string option) \<Rightarrow> fs \<Rightarrow> hook_input \<Rightarrow> path \<Rightarrow> string \<Rightarrow> event" where
  "prompt_event env fs input dir p \<equiv> sniff_prompt (Some p) (hook_event env fs input dir EvPromptSubmit)"

lemma prompt_event_fields [simp]:
  "ev_kind (prompt_event env fs input dir p) = EvPromptSubmit"
  "ev_session_id (prompt_event env fs input dir p) = hi_session_id input"
  by (simp_all add: sniff_prompt_def hook_event_def split: option.split)

text \<open>What the prompt does to the pause is decided by its classification.\<close>

lemma prompt_event_effect:
  assumes "pause_of (hi_session_id input) (the_store d) = Some (e, b)"
    and "ev = prompt_event env fs input dir p" and "d' = fst (handle_event w ev clk d)"
    and "d1 = clear_pending_close (hi_session_id input) (touch_busy (clk 0) d)"
  shows "pause_of (hi_session_id input) (the_store d') =
      Some (if snd (is_waking w ev (clk 1) (clk 2) d1) then (e + 1, None) else (e, b))"
    and "list_pending_deps (hi_session_id input) (the_store d') =
      (if snd (is_waking w ev (clk 1) (clk 2) d1) then [] else list_pending_deps (hi_session_id input) (the_store d))"
proof -
  have d': "d' = prompt_submit w ev (clk 1) (clk 2) d1"
    using assms(2-4) by (simp add: handle_event_def Let_def)
  have sid: "ev_session_id ev = hi_session_id input" by (simp add: assms(2))
  have "pause_of (ev_session_id ev) (the_store d1) = Some (e, b)" using assms(1,4) by (simp add: sid)
  note effect = prompt_submit_effect [OF this, of w "clk 1" "clk 2"]
  show "pause_of (hi_session_id input) (the_store d') =
      Some (if snd (is_waking w ev (clk 1) (clk 2) d1) then (e + 1, None) else (e, b))"
    using effect(1) by (simp add: d' sid)
  show "list_pending_deps (hi_session_id input) (the_store d') =
      (if snd (is_waking w ev (clk 1) (clk 2) d1) then [] else list_pending_deps (hi_session_id input) (the_store d))"
    using effect(2) by (simp add: d' sid assms(4))
qed

lemma marked_not_waking:
  "contains p WAKE_MARKER \<Longrightarrow> \<not> snd (is_waking w (prompt_event env fs input dir p) t t' d)"
  by (simp add: is_waking_def sniff_prompt_def hook_event_def)

lemma plain_waking:
  "\<not> contains p WAKE_MARKER \<Longrightarrow> parse_task_notification p = None \<Longrightarrow>
   snd (is_waking w (prompt_event env fs input dir p) t t' d)"
  by (simp add: is_waking_def sniff_prompt_def hook_event_def)

text \<open>A prompt that quotes a wake or a release, with anything around it.\<close>

definition quotes_wake :: "string \<Rightarrow> bool" where
  "quotes_wake p \<longleftrightarrow> (\<exists>pre post sid cid root forks held. forks \<noteq> [] \<and>
     (p = pre @ build_wake_payload sid cid root forks held @ post
      \<or> p = pre @ build_release_payload sid cid root forks @ post))"

lemma quotes_wake_marker: "quotes_wake p \<Longrightarrow> contains p WAKE_MARKER"
proof -
  have wake: "contains (pre @ build_wake_payload sid cid root forks held @ post) WAKE_MARKER"
    if "f \<in> set forks" for f pre sid cid root forks held post
    by (intro contains_mono) (use that in \<open>simp add: contains_iff_sublist
        payload_trans [OF root_block_marker wake_payload_block]\<close>)
  have release: "contains (pre @ build_release_payload sid cid root forks @ post) WAKE_MARKER"
    if "f \<in> set forks" for f pre sid cid root forks post
    by (intro contains_mono) (use that in \<open>simp add: contains_iff_sublist
        payload_trans [OF release_block_marker release_payload_block]\<close>)
  assume "quotes_wake p"
  then obtain pre post sid cid root forks held where "forks \<noteq> []"
    and p: "p = pre @ build_wake_payload sid cid root forks held @ post
      \<or> p = pre @ build_release_payload sid cid root forks @ post"
    unfolding quotes_wake_def by blast
  then obtain f where f: "f \<in> set forks" by (cases forks) auto
  from p show ?thesis using wake [OF f] release [OF f] by blast
qed

text \<open>C1. A prompt, from the hook to the store. The reminder by which Claude Code delivers a wake or a
  release, whatever it wraps around it, leaves the pause and the held dependents alone, so a wake never
  triggers itself again; a prompt that is neither such a reminder nor a task notification starts a new
  pause and drops the held dependents.\<close>

theorem prompt_end_to_end:
  assumes "pause_of (hi_session_id input) (the_store d) = Some (e, b)"
    and "d' = fst (handle_event w (prompt_event env fs input dir p) clk d)"
  shows "(quotes_wake p \<longrightarrow> pause_of (hi_session_id input) (the_store d') = Some (e, b)
          \<and> list_pending_deps (hi_session_id input) (the_store d') =
              list_pending_deps (hi_session_id input) (the_store d))
    \<and> (\<not> contains p WAKE_MARKER \<and> parse_task_notification p = None \<longrightarrow>
          pause_of (hi_session_id input) (the_store d') = Some (e + 1, None)
          \<and> list_pending_deps (hi_session_id input) (the_store d') = [])"
  using prompt_event_effect [OF assms(1) refl assms(2) refl] marked_not_waking [OF quotes_wake_marker]
    plain_waking
  by simp

theorem prompt_end_to_end_witness:
  "pause_of ''s'' (the_store (fst (handle_event sample_world
     (prompt_event Map.empty no_files sample_input ''/p'' ''hello'') (\<lambda>_. 9) sample_running))) = Some (1, None)"
proof -
  have "pause_of (hi_session_id sample_input) (the_store sample_running) = Some (0, Some 2)"
    by (simp add: sample_input_def sample_running_pause)
  moreover have "\<not> contains ''hello'' WAKE_MARKER" "parse_task_notification ''hello'' = None" by code_simp+
  ultimately show ?thesis
    using prompt_end_to_end [where input = sample_input and d = sample_running and w = sample_world
        and env = Map.empty and fs = no_files and dir = "''/p''" and p = "''hello''" and clk = "\<lambda>_. 9", OF _ refl]
    by (simp add: sample_input_def)
qed

section \<open>From the completion notice to the pause\<close>

definition registered :: "string \<Rightarrow> string \<Rightarrow> store \<Rightarrow> bool" where
  "registered sid tool st \<longleftrightarrow> (\<exists>r \<in> set (fork_spawns st). spawns_key r = (sid, tool))"

lemma registered_op:
  assumes "op \<noteq> CloseSession sid" and "registered sid tool st"
  shows "registered sid tool (apply_op op st)"
proof (cases op)
  case (SetSpawnTaskId sid' tool' task')
  then have eq: "fork_spawns (apply_op op st) =
      update_where (\<lambda>r. p_session_id r = sid' \<and> p_tool_use_id r = tool')
        (\<lambda>r. r\<lparr>p_task_id := coalesce (p_task_id r) (Some task')\<rparr>) (fork_spawns st)"
    by (simp add: set_spawn_task_id_def)
  show ?thesis using assms(2) unfolding registered_def eq by (rule update_where_keeps) simp
next
  case (MarkSpawnTerminal sid' tool' task' stat' t')
  have "\<exists>r \<in> set (update_where
      (\<lambda>r. p_session_id r = sid' \<and> p_status r = ''spawned'' \<and> spawn_ids_match tool' task' r)
      (\<lambda>r. r\<lparr>p_status := stat', p_terminal_at := Some t'\<rparr>) (fork_spawns st)). spawns_key r = (sid, tool)"
    using assms(2) unfolding registered_def by (rule update_where_keeps) simp
  with assms(2) MarkSpawnTerminal show ?thesis by (simp add: registered_def mark_spawn_terminal_def)
qed (use assms in \<open>auto simp: registered_def session_ops table_ops Let_def case_prod_unfold tbl_simps\<close>)

interpretation registry: sticky apply_op "registered sid tool" "\<lambda>op. op = CloseSession sid" for sid tool
  by unfold_locales (simp add: registered_op)

lemma registered_evolves: "evolves sid st st' \<Longrightarrow> registered sid tool st \<Longrightarrow> registered sid tool st'"
  unfolding evolves_def apply_ops_def
proof (elim exE conjE)
  fix ops
  assume st': "st' = fold apply_op ops st" and "registered sid tool st"
    and "list_all (\<lambda>op. op_session op = sid \<and> op \<noteq> CloseSession sid) ops"
  then show ?thesis using registry.keeps_all [of sid ops] by (simp add: list_all_iff)
qed

lemma registered_is_fork_spawn: "registered sid tool st \<Longrightarrow> is_fork_spawn sid (Some tool) task st"
  by (auto simp: registered_def is_fork_spawn_def tbl_simps spawn_ids_match_def)

text \<open>C2. The completion notice of a registered fork is recognised from the text Claude Code submits: it
  leaves the pause and the held dependents alone, so an idle fork does not fire again because it finished.\<close>

theorem completion_end_to_end:
  assumes "pause_of (hi_session_id input) (the_store d) = Some (e, b)"
    and "registered (hi_session_id input) tool (the_store d)"
    and "field_ok task" and "field_ok tool" and "CHR ''<'' \<notin> set ofile" and "field_ok st"
    and "\<not> contains (envelope task tool ofile st payload) WAKE_MARKER"
    and "d' = fst (handle_event w (prompt_event env fs input dir (envelope task tool ofile st payload)) clk d)"
  shows "pause_of (hi_session_id input) (the_store d') = Some (e, b)
    \<and> list_pending_deps (hi_session_id input) (the_store d') = list_pending_deps (hi_session_id input) (the_store d)"
proof -
  let ?ev = "prompt_event env fs input dir (envelope task tool ofile st payload)"
  let ?d1 = "clear_pending_close (hi_session_id input) (touch_busy (clk 0) d)"
  have ids: "ev_notif_tool_use_id ?ev = Some tool" "ev_notif_task_id ?ev = Some task"
    using assms(7) parse_envelope [OF assms(3-6)] by (simp_all add: sniff_prompt_def)
  have "registered (hi_session_id input) tool (the_store (fst (ingest_transcript w ?ev (clk 2) ?d1)))"
    using registered_evolves [OF evolves_ingest [of ?ev ?d1 w "clk 2"], of tool] assms(2) by simp
  then have "own_completion w ?ev (clk 2) ?d1"
    by (simp add: own_completion_def ids registered_is_fork_spawn)
  then have "\<not> snd (is_waking w ?ev (clk 1) (clk 2) ?d1)" by (rule own_completion_not_waking)
  then show ?thesis using prompt_event_effect [OF assms(1) refl assms(8) refl] by simp
qed

theorem completion_end_to_end_witness:
  "pause_of ''s'' (the_store (fst (handle_event sample_world
     (prompt_event Map.empty no_files sample_input ''/p'' (envelope ''a1'' ''toolu'' ''/tmp/x'' ''completed'' ''fine''))
     (\<lambda>_. 9) sample_running))) = Some (0, Some 2)"
proof -
  have "pause_of (hi_session_id sample_input) (the_store sample_running) = Some (0, Some 2)"
    by (simp add: sample_input_def sample_running_pause)
  moreover have "registered (hi_session_id sample_input) ''toolu'' (the_store sample_running)"
    by (simp add: registered_def sample_input_def sample_running_def apply_ops_def record_spawn_def insert_or_ignore_def
        upsert_session_def set_pause_started_at_if_unset_def empty_store_def)
  moreover have "field_ok ''a1''" "field_ok ''toolu''" "CHR ''<'' \<notin> set ''/tmp/x''" "field_ok ''completed''"
    by (simp_all add: field_ok_def trim_graphic ascii_graphic_def)
  moreover have "\<not> contains (envelope ''a1'' ''toolu'' ''/tmp/x'' ''completed'' ''fine'') WAKE_MARKER" by code_simp
  ultimately show ?thesis
    using completion_end_to_end [where input = sample_input and d = sample_running and tool = "''toolu''"
        and task = "''a1''" and ofile = "''/tmp/x''" and st = "''completed''" and payload = "''fine''"
        and w = sample_world and env = Map.empty and fs = no_files and dir = "''/p''" and clk = "\<lambda>_. 9",
        OF _ _ _ _ _ _ _ refl]
    by (simp add: sample_input_def)
qed

section \<open>Runs by hand\<close>

lemma picked_nonempty: "pick_forks es dir name tag = Inr picked \<Longrightarrow> picked \<noteq> []"
  by (auto simp: pick_forks_def Let_def split: option.splits if_splits)

lemma run_fork_payload:
  "run_fork from_yaml fs ps cur name tag = CmdOk out \<Longrightarrow> quotes_wake (last out)"
proof -
  assume "run_fork from_yaml fs ps cur name tag = CmdOk out"
  then obtain root picked es where "pick_forks es (projr cur) name tag = Inr picked"
    "last out = build_wake_payload ''(the current session)'' ''(the current conversation)'' root (map manual_due picked) []"
    by (auto simp: run_fork_def Let_def split: if_splits sum.splits)
  moreover from this(1) have "picked \<noteq> []" by (rule picked_nonempty)
  ultimately have "map manual_due picked \<noteq> []"
    "last out = [] @ build_wake_payload ''(the current session)'' ''(the current conversation)'' root (map manual_due picked) [] @ []"
    by simp_all
  then show ?thesis unfolding quotes_wake_def by blast
qed

lemma quotes_wake_within: "quotes_wake p \<Longrightarrow> quotes_wake (a @ p @ b)"
  unfolding quotes_wake_def by (metis append.assoc)

text \<open>C39. What \<open>autofork run\<close> prints is meant to be pasted into a session as a prompt. The pasted text is
  taken for a wake reminder: the user's own prompt does not count as activity, the pause goes on, and
  its latches with it.\<close>

theorem pasted_run_no_activity:
  assumes "run_fork from_yaml fs ps cur name tag = CmdOk out" and "p = pre @ last out @ post"
    and "pause_of (hi_session_id input) (the_store d) = Some (e, b)"
  shows "pause_of (hi_session_id input)
      (the_store (fst (handle_event w (prompt_event env fs' input dir p) clk d))) = Some (e, b)"
proof -
  have "quotes_wake p" using quotes_wake_within [OF run_fork_payload [OF assms(1)]] by (simp add: assms(2))
  then show ?thesis
    using prompt_event_effect(1) [OF assms(3) refl refl refl] marked_not_waking [OF quotes_wake_marker] by simp
qed

theorem pasted_run_no_activity_witness:
  "\<exists>out. run_fork sample_marked sample_forks_fs \<lparr>base = ''/h''\<rparr> (Inr ''/p'') (Some ''a'') None = CmdOk out
     \<and> pause_of ''s'' (the_store (fst (handle_event sample_world
          (prompt_event Map.empty no_files sample_input ''/p'' (last out)) (\<lambda>_. 9) sample_running))) = Some (0, Some 2)"
proof -
  have "case run_fork sample_marked sample_forks_fs \<lparr>base = ''/h''\<rparr> (Inr ''/p'') (Some ''a'') None of
      CmdOk out \<Rightarrow> True | _ \<Rightarrow> False"
    by code_simp
  then obtain out where out: "run_fork sample_marked sample_forks_fs \<lparr>base = ''/h''\<rparr> (Inr ''/p'') (Some ''a'') None = CmdOk out"
    by (auto split: cmd_result.splits)
  have "pause_of (hi_session_id sample_input) (the_store sample_running) = Some (0, Some 2)"
    by (simp add: sample_input_def sample_running_pause)
  from pasted_run_no_activity [OF out _ this, of "last out" "[]" "[]"] out show ?thesis
    by (auto simp: sample_input_def)
qed

end
